(* ===== verification/Prelude.thy ===== *)
theory Prelude
  imports Main "HOL-Library.Word" "HOL-Library.Product_Lexorder" "HOL-Library.Option_ord"
    "HOL-Library.List_Lexorder" "HOL-Library.FuncSet"
begin

unbundle bit_operations_syntax

text \<open>
  Shared vocabulary of the development: Rust results as sums, checked and saturating
  arithmetic with the width written out, and the standard library's binary search
  (\<^verbatim>\<open>partition_point\<close>) over running totals.

  Unsigned machine integers whose arithmetic in the source is checked, saturating or
  guarded are natural numbers with the width as an explicit argument of the operation;
  integers that the source lets wrap, shifts or masks are \<^typ>\<open>'a word\<close> values.
\<close>

named_theorems result_simps "unfolding rules for results, options and checked arithmetic"
named_theorems btree_simps "laws of the sorted association lists that model BTreeMap"

section \<open>Results\<close>

type_synonym ('e, 'a) result = "'e + 'a"

abbreviation Err :: "'e \<Rightarrow> ('e, 'a) result" where "Err \<equiv> Inl"
abbreviation Ok :: "'a \<Rightarrow> ('e, 'a) result" where "Ok \<equiv> Inr"

definition rbind :: "('e, 'a) result \<Rightarrow> ('a \<Rightarrow> ('e, 'b) result) \<Rightarrow> ('e, 'b) result" where
  "rbind r f = (case r of Inl e \<Rightarrow> Err e | Inr a \<Rightarrow> f a)"

definition ok_or :: "'a option \<Rightarrow> 'e \<Rightarrow> ('e, 'a) result" where
  "ok_or x e = (case x of None \<Rightarrow> Err e | Some a \<Rightarrow> Ok a)"

definition require :: "bool \<Rightarrow> 'e \<Rightarrow> ('e, unit) result" where
  "require b e = (if b then Ok () else Err e)"

definition is_ok :: "('e, 'a) result \<Rightarrow> bool" where
  "is_ok r = (case r of Inl _ \<Rightarrow> False | Inr _ \<Rightarrow> True)"

lemma rbind_simps [simp]: "rbind (Err e) f = Err e" "rbind (Ok a) f = f a"
  by (simp_all add: rbind_def)

lemma rbind_Ok_iff [result_simps]: "rbind r f = Ok b \<longleftrightarrow> (\<exists>a. r = Ok a \<and> f a = Ok b)"
  by (cases r) auto

lemma rbind_Err_iff [result_simps]:
  "rbind r f = Err e \<longleftrightarrow> r = Err e \<or> (\<exists>a. r = Ok a \<and> f a = Err e)"
  by (cases r) auto

lemma rbind_cong [fundef_cong]:
  "r = r' \<Longrightarrow> (\<And>a. r' = Ok a \<Longrightarrow> f a = f' a) \<Longrightarrow> rbind r f = rbind r' f'"
  by (cases r') auto

lemma ok_or_simps [simp]: "ok_or None e = Err e" "ok_or (Some a) e = Ok a"
  by (simp_all add: ok_or_def)

lemma ok_or_Ok_iff [result_simps]: "ok_or x e = Ok a \<longleftrightarrow> x = Some a"
  by (cases x) auto

lemma ok_or_Err_iff [result_simps]: "ok_or x e = Err e' \<longleftrightarrow> x = None \<and> e' = e"
  by (cases x) auto

lemma require_Ok_iff [result_simps]: "require b e = Ok u \<longleftrightarrow> b"
  by (simp add: require_def)

lemma require_Err_iff [result_simps]: "require b e = Err e' \<longleftrightarrow> \<not> b \<and> e' = e"
  by (auto simp: require_def)

lemma require_simps [simp]: "require True e = Ok ()" "require False e = Err e"
  by (simp_all add: require_def)

lemma is_ok_simps [simp]: "is_ok (Ok a)" "\<not> is_ok (Err e)"
  by (simp_all add: is_ok_def)

lemma is_ok_iff: "is_ok r \<longleftrightarrow> (\<exists>a. r = Ok a)"
  by (cases r) auto

text \<open>A loop that converts every element and stops at the first error.\<close>

fun rmap :: "('a \<Rightarrow> ('e, 'b) result) \<Rightarrow> 'a list \<Rightarrow> ('e, 'b list) result" where
  "rmap f [] = Ok []"
| "rmap f (x # xs) = rbind (f x) (\<lambda>y. rbind (rmap f xs) (\<lambda>ys. Ok (y # ys)))"

lemma rmap_Ok_iff: "rmap f xs = Ok ys \<longleftrightarrow> list_all2 (\<lambda>x y. f x = Ok y) xs ys"
proof (induction xs arbitrary: ys)
  case Nil
  then show ?case by auto
next
  case (Cons x xs)
  then show ?case by (auto simp: rbind_Ok_iff list_all2_Cons1)
qed

section \<open>Fixed-width arithmetic\<close>

type_synonym u8 = "8 word"
type_synonym u16 = "16 word"
type_synonym u32 = "32 word"
type_synonym u64 = "64 word"
type_synonym u128 = "128 word"

definition max_of :: "nat \<Rightarrow> nat" where
  "max_of w = 2 ^ w - 1"

definition checked_add :: "nat \<Rightarrow> nat \<Rightarrow> nat \<Rightarrow> nat option" where
  "checked_add w a b = (if a + b \<le> max_of w then Some (a + b) else None)"

definition checked_mul :: "nat \<Rightarrow> nat \<Rightarrow> nat \<Rightarrow> nat option" where
  "checked_mul w a b = (if a * b \<le> max_of w then Some (a * b) else None)"

definition checked_sub :: "nat \<Rightarrow> nat \<Rightarrow> nat option" where
  "checked_sub a b = (if b \<le> a then Some (a - b) else None)"

definition saturating_add :: "nat \<Rightarrow> nat \<Rightarrow> nat \<Rightarrow> nat" where
  "saturating_add w a b = min (a + b) (max_of w)"

definition saturating_mul :: "nat \<Rightarrow> nat \<Rightarrow> nat \<Rightarrow> nat" where
  "saturating_mul w a b = min (a * b) (max_of w)"

definition try_from :: "nat \<Rightarrow> nat \<Rightarrow> nat option" where
  "try_from w a = (if a \<le> max_of w then Some a else None)"

definition abs_diff :: "nat \<Rightarrow> nat \<Rightarrow> nat" where
  "abs_diff a b = (if a \<le> b then b - a else a - b)"

definition div_ceil :: "nat \<Rightarrow> nat \<Rightarrow> nat" where
  "div_ceil a b = (if a mod b = 0 then a div b else a div b + 1)"

lemma checked_add_Some_iff [result_simps]:
  "checked_add w a b = Some c \<longleftrightarrow> c = a + b \<and> a + b \<le> max_of w"
  by (auto simp: checked_add_def)

lemma checked_add_None_iff [result_simps]: "checked_add w a b = None \<longleftrightarrow> max_of w < a + b"
  by (auto simp: checked_add_def)

lemma checked_mul_Some_iff [result_simps]:
  "checked_mul w a b = Some c \<longleftrightarrow> c = a * b \<and> a * b \<le> max_of w"
  by (auto simp: checked_mul_def)

lemma checked_sub_Some_iff [result_simps]: "checked_sub a b = Some c \<longleftrightarrow> b \<le> a \<and> c = a - b"
  by (auto simp: checked_sub_def)

lemma try_from_Some_iff [result_simps]: "try_from w a = Some b \<longleftrightarrow> b = a \<and> a \<le> max_of w"
  by (auto simp: try_from_def)

lemma saturating_add_le [simp]: "saturating_add w a b \<le> max_of w"
  by (simp add: saturating_add_def)

lemma saturating_mul_le [simp]: "saturating_mul w a b \<le> max_of w"
  by (simp add: saturating_mul_def)

lemma le_max_of_iff: "a \<le> max_of w \<longleftrightarrow> a < 2 ^ w"
proof -
  have "0 < (2::nat) ^ w" by simp
  then show ?thesis unfolding max_of_def by linarith
qed

lemma div_ceil_least:
  assumes "0 < b"
  shows "a \<le> div_ceil a b * b" and "a \<le> k * b \<Longrightarrow> div_ceil a b \<le> k"
proof -
  have split: "a = a div b * b + a mod b" by simp
  show "a \<le> div_ceil a b * b"
  proof (cases "a mod b = 0")
    case True
    with split show ?thesis by (simp add: div_ceil_def)
  next
    case False
    have "a mod b < b" using assms by simp
    with split have "a \<le> b + a div b * b" by linarith
    with False show ?thesis by (simp add: div_ceil_def)
  qed
  show "div_ceil a b \<le> k" if le: "a \<le> k * b"
  proof (cases "a mod b = 0")
    case True
    have "a div b \<le> k * b div b" using le by (rule div_le_mono)
    with True assms show ?thesis by (simp add: div_ceil_def)
  next
    case False
    then have "a div b * b < k * b" using le split by linarith
    then have "a div b < k" by simp
    with False show ?thesis by (simp add: div_ceil_def)
  qed
qed

section \<open>Binary search over prefix sums\<close>

text \<open>
  \<^verbatim>\<open>slice::partition_point\<close> on a slice whose satisfying elements come first: the
  number of satisfying elements.
\<close>

definition partition_point :: "('a \<Rightarrow> bool) \<Rightarrow> 'a list \<Rightarrow> nat" where
  "partition_point P xs = length (takeWhile P xs)"

text \<open>
  Both the target set and the scan plan locate an index in a sequence of non-empty blocks
  through the running totals of the block sizes. The lemmas below are shared by both.
\<close>

definition prefix_sum :: "nat list \<Rightarrow> nat \<Rightarrow> nat" where
  "prefix_sum ns k = sum_list (take k ns)"

lemma prefix_sum_0 [simp]: "prefix_sum ns 0 = 0"
  by (simp add: prefix_sum_def)

lemma prefix_sum_Suc: "k < length ns \<Longrightarrow> prefix_sum ns (Suc k) = prefix_sum ns k + ns ! k"
  by (simp add: prefix_sum_def take_Suc_conv_app_nth)

lemma prefix_sum_all: "length ns \<le> k \<Longrightarrow> prefix_sum ns k = sum_list ns"
  by (simp add: prefix_sum_def)

lemma prefix_sum_mono: "i \<le> j \<Longrightarrow> prefix_sum ns i \<le> prefix_sum ns j"
proof -
  assume "i \<le> j"
  then have "take j ns = take i ns @ take (j - i) (drop i ns)"
    by (metis le_add_diff_inverse take_add)
  then show ?thesis by (simp add: prefix_sum_def)
qed

definition running_totals :: "nat list \<Rightarrow> nat list" where
  "running_totals ns = map (\<lambda>k. prefix_sum ns (Suc k)) [0..<length ns]"

lemma length_running_totals [simp]: "length (running_totals ns) = length ns"
  by (simp add: running_totals_def)

lemma nth_running_totals: "k < length ns \<Longrightarrow> running_totals ns ! k = prefix_sum ns (Suc k)"
  by (simp add: running_totals_def)

text \<open>The block an index falls into.\<close>

definition block_of :: "nat list \<Rightarrow> nat \<Rightarrow> nat" where
  "block_of ns i = partition_point (\<lambda>e. e \<le> i) (running_totals ns)"

lemma block_of_bounds:
  assumes "i < sum_list ns"
  shows "block_of ns i < length ns"
    and "prefix_sum ns (block_of ns i) \<le> i"
    and "i < prefix_sum ns (Suc (block_of ns i))"
proof -
  let ?b = "block_of ns i" and ?es = "running_totals ns"
  have all: "j < ?b \<Longrightarrow> ?es ! j \<le> i" for j
    unfolding block_of_def partition_point_def
    by (metis nth_mem set_takeWhileD takeWhile_nth)
  show lt: "?b < length ns"
  proof (rule ccontr)
    assume "\<not> ?b < length ns"
    moreover have "?b \<le> length ns"
      unfolding block_of_def partition_point_def using length_takeWhile_le
      by (metis length_running_totals)
    ultimately have b: "?b = length ns" by simp
    have "0 < length ns" using assms by (cases ns) auto
    then have "?es ! (length ns - 1) = sum_list ns"
      by (simp add: nth_running_totals prefix_sum_all)
    moreover have "?es ! (length ns - 1) \<le> i" using \<open>0 < length ns\<close> b by (intro all) simp
    ultimately show False using assms by simp
  qed
  have "\<not> ?es ! ?b \<le> i"
    unfolding block_of_def partition_point_def
    by (rule nth_length_takeWhile) (use lt in \<open>simp add: block_of_def partition_point_def\<close>)
  with lt show "i < prefix_sum ns (Suc ?b)" by (simp add: nth_running_totals)
  show "prefix_sum ns ?b \<le> i"
  proof (cases ?b)
    case 0
    then show ?thesis by simp
  next
    case (Suc j)
    then have "?es ! j \<le> i" by (intro all) simp
    with Suc lt show ?thesis by (simp add: nth_running_totals)
  qed
qed

lemma block_of_beyond:
  assumes "sum_list ns \<le> i"
  shows "block_of ns i = length ns"
proof -
  have "e \<le> i" if e: "e \<in> set (running_totals ns)" for e
  proof -
    obtain k where "k < length ns" "e = prefix_sum ns (Suc k)"
      using e by (auto simp: running_totals_def)
    moreover have "prefix_sum ns (Suc k) \<le> prefix_sum ns (max (Suc k) (length ns))"
      by (rule prefix_sum_mono) simp
    ultimately show ?thesis using assms by (simp add: prefix_sum_all)
  qed
  then have "takeWhile (\<lambda>e. e \<le> i) (running_totals ns) = running_totals ns"
    by (simp add: takeWhile_eq_all_conv)
  then show ?thesis by (simp only: block_of_def partition_point_def length_running_totals)
qed

lemma block_of_unique:
  assumes "k < length ns" and "prefix_sum ns k \<le> i" and "i < prefix_sum ns (Suc k)"
  shows "block_of ns i = k"
proof -
  have "i < sum_list ns"
    using assms(3) prefix_sum_mono [of "Suc k" "length ns" ns] assms(1)
    by (simp add: prefix_sum_all)
  note b = block_of_bounds [OF this]
  show ?thesis
  proof (rule linorder_cases [of "block_of ns i" k])
    assume "block_of ns i < k"
    then have "prefix_sum ns (Suc (block_of ns i)) \<le> prefix_sum ns k"
      by (intro prefix_sum_mono) simp
    with b assms show ?thesis by simp
  next
    assume "k < block_of ns i"
    then have "prefix_sum ns (Suc k) \<le> prefix_sum ns (block_of ns i)"
      by (intro prefix_sum_mono) simp
    with b assms show ?thesis by simp
  qed
qed

text \<open>Splitting an index into its block and its offset is a bijection.\<close>

lemma block_offset_bij:
  "bij_betw (\<lambda>i. (block_of ns i, i - prefix_sum ns (block_of ns i)))
     {..<sum_list ns} {(b, off). b < length ns \<and> off < ns ! b}"
proof (rule bij_betwI [where g = "\<lambda>(b, off). prefix_sum ns b + off"])
  show "(\<lambda>i. (block_of ns i, i - prefix_sum ns (block_of ns i)))
      \<in> {..<sum_list ns} \<rightarrow> {(b, off). b < length ns \<and> off < ns ! b}"
  proof
    fix i
    assume "i \<in> {..<sum_list ns}"
    then have "i < sum_list ns" by simp
    note b = block_of_bounds [OF this]
    then show "(block_of ns i, i - prefix_sum ns (block_of ns i))
        \<in> {(b, off). b < length ns \<and> off < ns ! b}"
      using prefix_sum_Suc [OF b(1)] by auto
  qed
  show "(\<lambda>(b, off). prefix_sum ns b + off)
      \<in> {(b, off). b < length ns \<and> off < ns ! b} \<rightarrow> {..<sum_list ns}"
  proof
    fix x
    assume "x \<in> {(b, off). b < length ns \<and> off < ns ! b}"
    then obtain b off where x: "x = (b, off)" "b < length ns" "off < ns ! b" by auto
    have "prefix_sum ns (Suc b) \<le> sum_list ns"
      using prefix_sum_mono [of "Suc b" "length ns" ns] x(2) by (simp add: prefix_sum_all)
    with x show "(\<lambda>(b, off). prefix_sum ns b + off) x \<in> {..<sum_list ns}"
      by (simp add: prefix_sum_Suc)
  qed
  show "(\<lambda>(b, off). prefix_sum ns b + off) (block_of ns i, i - prefix_sum ns (block_of ns i)) = i"
    if "i \<in> {..<sum_list ns}" for i
    using that block_of_bounds(2) [of i ns] by simp
  show "(block_of ns ((\<lambda>(b, off). prefix_sum ns b + off) y),
      (\<lambda>(b, off). prefix_sum ns b + off) y
        - prefix_sum ns (block_of ns ((\<lambda>(b, off). prefix_sum ns b + off) y))) = y"
    if mem: "y \<in> {(b, off). b < length ns \<and> off < ns ! b}" for y
  proof -
    obtain b off where y: "y = (b, off)" "b < length ns" "off < ns ! b" using mem by auto
    then have "block_of ns (prefix_sum ns b + off) = b"
      by (intro block_of_unique) (auto simp: prefix_sum_Suc)
    with y show ?thesis by simp
  qed
qed

text \<open>Quotient and remainder: a flat index over a rectangle.\<close>

lemma divmod_bij:
  assumes "0 < m"
  shows "bij_betw (\<lambda>i. (i div m, i mod m)) {..<k * m} ({..<k} \<times> {..<m::nat})"
proof (rule bij_betwI [where g = "\<lambda>(a, b). a * m + b"])
  show "(\<lambda>i. (i div m, i mod m)) \<in> {..<k * m} \<rightarrow> {..<k} \<times> {..<m}"
    using assms by (auto simp: less_mult_imp_div_less)
  show "(\<lambda>(a, b). a * m + b) \<in> {..<k} \<times> {..<m} \<rightarrow> {..<k * m}"
  proof
    fix x
    assume "x \<in> {..<k} \<times> {..<m}"
    then obtain a b where x: "x = (a, b)" "Suc a \<le> k" "b < m" by auto
    have "Suc a * m \<le> k * m" using x(2) by (rule mult_le_mono1)
    with x show "(\<lambda>(a, b). a * m + b) x \<in> {..<k * m}" by simp
  qed
qed (use assms in \<open>auto simp: div_mult_mod_eq\<close>)

lemma partition_point_map: "partition_point P (map f xs) = partition_point (P \<circ> f) xs"
  by (simp add: partition_point_def takeWhile_map)

end
