(* ===== verification/Net_Types.thy ===== *)
theory Net_Types
  imports Prelude
begin

text \<open>
  Exact-width network values of \<^verbatim>\<open>nodenet-protocols/src/types.rs\<close> and
  \<^verbatim>\<open>correlation.rs\<close> that every crate shares: octet arrays, addresses, ports and
  evidence strength. An array \<^verbatim>\<open>[u8; N]\<close> is a list of bytes; the predicate
  \<open>ip_wf\<close> states its length, which the Rust type guarantees.
\<close>

section \<open>Big-endian integers\<close>

fun nat_of_be :: "u8 list \<Rightarrow> nat" where
  "nat_of_be [] = 0"
| "nat_of_be (b # bs) = unat b * 256 ^ length bs + nat_of_be bs"

fun be_of_nat :: "nat \<Rightarrow> nat \<Rightarrow> u8 list" where
  "be_of_nat 0 x = []"
| "be_of_nat (Suc n) x = word_of_nat (x div 256 ^ n) # be_of_nat n (x mod 256 ^ n)"

lemma length_be_of_nat [simp]: "length (be_of_nat n x) = n"
  by (induction n arbitrary: x) auto

lemma nat_of_be_less: "nat_of_be bs < 256 ^ length bs"
proof (induction bs)
  case Nil
  then show ?case by simp
next
  case (Cons b bs)
  have "unat b < 256" using unsigned_less [of b, where ?'a = nat] by simp
  then have "Suc (unat b) * 256 ^ length bs \<le> 256 * 256 ^ length bs"
    by (intro mult_le_mono1) simp
  then have "unat b * 256 ^ length bs + 256 ^ length bs \<le> 256 ^ length (b # bs)"
    by simp
  with Cons show ?case unfolding nat_of_be.simps by linarith
qed

lemma nat_of_be_of_nat: "x < 256 ^ n \<Longrightarrow> nat_of_be (be_of_nat n x) = x"
proof (induction n arbitrary: x)
  case 0
  then show ?case by simp
next
  case (Suc n)
  have "x div 256 ^ n < 256"
    using Suc.prems by (simp add: less_mult_imp_div_less mult.commute)
  then have "unat (word_of_nat (x div 256 ^ n) :: u8) = x div 256 ^ n"
    by (simp add: unat_of_nat)
  with Suc.IH [of "x mod 256 ^ n"] show ?case by (simp add: div_mult_mod_eq)
qed

lemma be_of_nat_of_be: "be_of_nat (length bs) (nat_of_be bs) = bs"
proof (induction bs)
  case Nil
  then show ?case by simp
next
  case (Cons b bs)
  have "nat_of_be bs < 256 ^ length bs" by (rule nat_of_be_less)
  with Cons show ?case by simp
qed

lemma nat_of_be_inject:
  "length as = length bs \<Longrightarrow> nat_of_be as = nat_of_be bs \<longleftrightarrow> as = bs"
  by (metis be_of_nat_of_be)

section \<open>Addresses and ports\<close>

datatype IpAddress = V4 (octets: "u8 list") | V6 (octets: "u8 list")

fun ip_wf :: "IpAddress \<Rightarrow> bool" where
  "ip_wf (V4 os) \<longleftrightarrow> length os = 4"
| "ip_wf (V6 os) \<longleftrightarrow> length os = 16"

fun is_V4_addr :: "IpAddress \<Rightarrow> bool" where
  "is_V4_addr (V4 _) = True"
| "is_V4_addr (V6 _) = False"

text \<open>A checked non-zero destination port (\<^verbatim>\<open>ProbePort(NonZeroU16)\<close>).\<close>

type_synonym ProbePort = nat

definition port_wf :: "ProbePort \<Rightarrow> bool" where
  "port_wf p \<longleftrightarrow> 0 < p \<and> p \<le> max_of 16"

datatype EvidenceStrength =
    TupleCorrelatedUnauthenticated
  | TruncatedQuote
  | StrongTcpSequence32
  | StrongPayload128
  | ProtocolTransaction16
  | ProtocolTransaction32
  | ProtocolTransaction64
  | AlternateEndpointHandshake

text \<open>The derived order: the variant first, then the octets lexicographically.\<close>

definition ip_key :: "IpAddress \<Rightarrow> nat \<times> u8 list" where
  "ip_key a = (case a of V4 os \<Rightarrow> (0, os) | V6 os \<Rightarrow> (1, os))"

lemma ip_key_inject: "ip_key a = ip_key b \<longleftrightarrow> a = b"
  by (auto simp: ip_key_def split: IpAddress.splits)

instantiation IpAddress :: linorder
begin

definition less_eq_IpAddress :: "IpAddress \<Rightarrow> IpAddress \<Rightarrow> bool" where
  "less_eq_IpAddress a b \<longleftrightarrow> ip_key a \<le> ip_key b"

definition less_IpAddress :: "IpAddress \<Rightarrow> IpAddress \<Rightarrow> bool" where
  "less_IpAddress a b \<longleftrightarrow> ip_key a < ip_key b"

instance
  by standard
    (auto simp: less_eq_IpAddress_def less_IpAddress_def ip_key_inject less_le_not_le)

end

end
