(* ===== verification/Engine_Types.thy ===== *)
theory Engine_Types
  imports Net_Types
begin

text \<open>
  Data model of \<^verbatim>\<open>nodenetscanner-engine\<close>: ceilings (\<^verbatim>\<open>bounds.rs\<close>), error values
  (\<^verbatim>\<open>error.rs\<close>), and the plain data of \<^verbatim>\<open>types.rs\<close> with its validation of the
  scheduler configuration. Times and durations are whole microseconds in \<^verbatim>\<open>u64\<close>.
\<close>

section \<open>Ceilings\<close>

definition MAX_TARGET_INCLUDE_INTERVALS :: nat where "MAX_TARGET_INCLUDE_INTERVALS = 65536"
definition MAX_TARGET_EXCLUDE_INTERVALS :: nat where "MAX_TARGET_EXCLUDE_INTERVALS = 65536"
definition MAX_NORMALIZED_TARGET_INTERVALS :: nat where
  "MAX_NORMALIZED_TARGET_INTERVALS = 65536"
definition MAX_PORTS_PER_PROBE_FAMILY :: nat where "MAX_PORTS_PER_PROBE_FAMILY = 65536"
definition MAX_PROBE_DEFINITIONS :: nat where "MAX_PROBE_DEFINITIONS = 6"
definition MAX_TRANSMIT_RATE_PER_SECOND :: nat where "MAX_TRANSMIT_RATE_PER_SECOND = 1000000"
definition MAX_OUTSTANDING_PROBES :: nat where "MAX_OUTSTANDING_PROBES = 262144"
definition MAX_RETRANSMISSIONS :: nat where "MAX_RETRANSMISSIONS = 10"
definition MAX_PROBE_TIMEOUT_MICROS :: nat where "MAX_PROBE_TIMEOUT_MICROS = 60 * 1000000"
definition MAX_SESSION_DURATION_MICROS :: nat where
  "MAX_SESSION_DURATION_MICROS = 720 * 3600 * 1000000"
definition MAX_LATE_GRACE_ENTRIES :: nat where "MAX_LATE_GRACE_ENTRIES = 262144"
definition MAX_TRANSITIONS_PER_DRIVE :: nat where "MAX_TRANSITIONS_PER_DRIVE = 4096"
definition MAX_DEFERRED_CANDIDATES :: nat where "MAX_DEFERRED_CANDIDATES = 262144"
definition MAX_UDP_PROBE_VARIANTS :: nat where "MAX_UDP_PROBE_VARIANTS = 64"
definition MAX_CONCURRENT_UDP_VARIANTS :: nat where "MAX_CONCURRENT_UDP_VARIANTS = 4"
definition MAX_UDP_VARIANT_METADATA_BYTES :: nat where "MAX_UDP_VARIANT_METADATA_BYTES = 1024"

lemmas bounds_defs =
  MAX_TARGET_INCLUDE_INTERVALS_def MAX_TARGET_EXCLUDE_INTERVALS_def
  MAX_NORMALIZED_TARGET_INTERVALS_def MAX_PORTS_PER_PROBE_FAMILY_def
  MAX_PROBE_DEFINITIONS_def MAX_TRANSMIT_RATE_PER_SECOND_def MAX_OUTSTANDING_PROBES_def
  MAX_RETRANSMISSIONS_def MAX_PROBE_TIMEOUT_MICROS_def MAX_SESSION_DURATION_MICROS_def
  MAX_LATE_GRACE_ENTRIES_def MAX_TRANSITIONS_PER_DRIVE_def MAX_DEFERRED_CANDIDATES_def
  MAX_UDP_PROBE_VARIANTS_def MAX_CONCURRENT_UDP_VARIANTS_def
  MAX_UDP_VARIANT_METADATA_BYTES_def

section \<open>Errors\<close>

datatype TargetError =
    TooManyIncludes | TooManyExcludes | TooManyNormalizedIntervals | AddressFamilyMismatch
  | InvalidPrefixLength | ReversedRange | MissingIpv6Scope | UnexpectedScope | ZeroScope
  | ScopeMismatch | CidrCrossesScopeBoundary | TargetCountOverflow | TargetEmpty

datatype PlanError =
    NoProbes | TooManyProbeDefinitions | InvalidAttempts | DuplicateProbeFamily
  | PortsRequired | PortsNotAllowed | TooManyPorts | DuplicatePort | NoCompatibleTargets
  | LogicalProbeCountOverflow | LogicalProbeIndexOutOfRange | TooManyUdpVariants
  | DuplicateUdpVariant | InvalidUdpMetadataReservation | InvalidUdpPortRange
  | PhysicalProbeCountOverflow

datatype ConfigError =
    InvalidRate | InvalidBurst | InvalidOutstandingLimit | InvalidRetransmissions
  | InvalidTimeout | InvalidSessionDeadline | InvalidGraceCapacity | InvalidGraceDuration
  | InvalidTargetFairness | InvalidPrefixFairness

datatype EngineError =
    EngineTarget TargetError | EnginePlan PlanError | EngineConfig ConfigError
  | ClockRegressed | DeadlineOverflow | InvalidLifecycle | InvalidContext | InvalidEvidence
  | EngineTransport nat | EngineContext nat | EngineSink nat
  | ReservationInvariant | StateCapacityExceeded

section \<open>Time\<close>

type_synonym MonotonicTime = nat
type_synonym ScanDuration = nat

definition time_add :: "MonotonicTime \<Rightarrow> ScanDuration \<Rightarrow> MonotonicTime option" where
  "time_add t d = checked_add 64 t d"

definition elapsed_since :: "MonotonicTime \<Rightarrow> MonotonicTime \<Rightarrow> ScanDuration option" where
  "elapsed_since t earlier = checked_sub t earlier"

text \<open>
  \<^verbatim>\<open>ScanDuration::from_duration\<close>: a standard duration is whole seconds and a
  nanosecond part below one second; a partial microsecond rounds up.
\<close>

definition duration_as_micros :: "nat \<Rightarrow> nat \<Rightarrow> nat" where
  "duration_as_micros secs nanos = secs * 1000000 + nanos div 1000"

definition from_duration :: "nat \<Rightarrow> nat \<Rightarrow> (EngineError, ScanDuration) result" where
  "from_duration secs nanos =
     (let micros = duration_as_micros secs nanos
      in rbind (if nanos mod 1000 = 0 then Ok micros
                else ok_or (checked_add 128 micros 1) DeadlineOverflow)
           (\<lambda>rounded. ok_or (try_from 64 rounded) DeadlineOverflow))"

section \<open>Targets, probes, and configuration\<close>

type_synonym TargetScope = nat

definition TargetScope_new :: "nat \<Rightarrow> (TargetError, TargetScope) result" where
  "TargetScope_new value = (if value = 0 then Err ZeroScope else Ok value)"

datatype ScanTarget = ScanTarget (target_address: IpAddress) (target_scope: "TargetScope option")

instantiation ScanTarget :: linorder
begin

definition less_eq_ScanTarget :: "ScanTarget \<Rightarrow> ScanTarget \<Rightarrow> bool" where
  "less_eq_ScanTarget a b \<longleftrightarrow>
     (target_address a, target_scope a) \<le> (target_address b, target_scope b)"

definition less_ScanTarget :: "ScanTarget \<Rightarrow> ScanTarget \<Rightarrow> bool" where
  "less_ScanTarget a b \<longleftrightarrow>
     (target_address a, target_scope a) < (target_address b, target_scope b)"

instance
  by standard
    (auto simp: less_eq_ScanTarget_def less_ScanTarget_def less_le_not_le
        intro: ScanTarget.expand)

end

datatype ProbeFamily = Arp | Ndp | Icmpv4Echo | Icmpv6Echo | TcpSyn | Udp

fun uses_ports :: "ProbeFamily \<Rightarrow> bool" where
  "uses_ports TcpSyn = True"
| "uses_ports Udp = True"
| "uses_ports _ = False"

fun supports_ipv4 :: "ProbeFamily \<Rightarrow> bool" where
  "supports_ipv4 Arp = True"
| "supports_ipv4 Icmpv4Echo = True"
| "supports_ipv4 TcpSyn = True"
| "supports_ipv4 Udp = True"
| "supports_ipv4 _ = False"

fun supports_ipv6 :: "ProbeFamily \<Rightarrow> bool" where
  "supports_ipv6 Ndp = True"
| "supports_ipv6 Icmpv6Echo = True"
| "supports_ipv6 TcpSyn = True"
| "supports_ipv6 Udp = True"
| "supports_ipv6 _ = False"

type_synonym ProbeVariantId = nat

definition ProbeVariantId_new :: "nat \<Rightarrow> ProbeVariantId option" where
  "ProbeVariantId_new value = (if value = 0 then None else Some value)"

record LogicalProbe =
  logical_id :: nat
  attempt :: nat
  target :: ScanTarget
  family :: ProbeFamily
  port :: "ProbePort option"

datatype SchedulingSeed = Explicit nat | Generated nat bool

fun seed_value :: "SchedulingSeed \<Rightarrow> nat" where
  "seed_value (Explicit v) = v"
| "seed_value (Generated v _) = v"

fun seed_reported :: "SchedulingSeed \<Rightarrow> nat option" where
  "seed_reported (Explicit v) = Some v"
| "seed_reported (Generated v True) = Some v"
| "seed_reported (Generated v False) = None"

datatype TimingMode = Adaptive | FixedRate

datatype DiscoverySilencePolicy = SilenceUnknown | SilenceDownByPolicy

record SchedulerConfig =
  rate_per_second :: nat
  burst :: nat
  max_outstanding :: nat
  max_retransmissions :: nat
  initial_timeout :: ScanDuration
  minimum_timeout :: ScanDuration
  maximum_timeout :: ScanDuration
  session_deadline_after :: ScanDuration
  late_grace :: ScanDuration
  max_grace_entries :: nat
  max_per_target :: nat
  max_per_prefix :: nat
  timing_mode :: TimingMode
  discovery_silence :: DiscoverySilencePolicy
  tcp_reset_cleanup :: bool

definition config_validate :: "SchedulerConfig \<Rightarrow> (ConfigError, SchedulerConfig) result" where
  "config_validate c =
     (if rate_per_second c = 0 \<or> rate_per_second c > MAX_TRANSMIT_RATE_PER_SECOND
      then Err InvalidRate
      else if burst c = 0 \<or> burst c > max_outstanding c then Err InvalidBurst
      else if max_outstanding c = 0 \<or> max_outstanding c > MAX_OUTSTANDING_PROBES
      then Err InvalidOutstandingLimit
      else if max_retransmissions c > MAX_RETRANSMISSIONS then Err InvalidRetransmissions
      else if initial_timeout c = 0 \<or> minimum_timeout c = 0
              \<or> minimum_timeout c > initial_timeout c \<or> initial_timeout c > maximum_timeout c
              \<or> maximum_timeout c > MAX_PROBE_TIMEOUT_MICROS
      then Err InvalidTimeout
      else if session_deadline_after c = 0
              \<or> session_deadline_after c > MAX_SESSION_DURATION_MICROS
      then Err InvalidSessionDeadline
      else if max_grace_entries c = 0 \<or> max_grace_entries c > MAX_LATE_GRACE_ENTRIES
      then Err InvalidGraceCapacity
      else if late_grace c = 0 \<or> late_grace c > MAX_SESSION_DURATION_MICROS
      then Err InvalidGraceDuration
      else if max_per_target c = 0 \<or> max_per_target c > max_outstanding c
      then Err InvalidTargetFairness
      else if max_per_prefix c = 0 \<or> max_per_prefix c > max_outstanding c
      then Err InvalidPrefixFairness
      else Ok c)"

definition accuracy_tradeoff_reported :: "SchedulerConfig \<Rightarrow> bool" where
  "accuracy_tradeoff_reported c \<longleftrightarrow> timing_mode c = FixedRate"

datatype SessionLifecycle =
    Created | Running | Pausing | Paused | Cancelling | Completed | Failed | Closed

datatype EmissionPurpose = NeighborSetup ProbeFamily | Probe | TcpResetCleanup

datatype PrefixKey =
  PrefixKey (pk_family: nat) (pk_high: nat) (pk_low: nat) (pk_prefix_length: nat)
    (pk_scope: "TargetScope option")

instantiation PrefixKey :: linorder
begin

definition less_eq_PrefixKey :: "PrefixKey \<Rightarrow> PrefixKey \<Rightarrow> bool" where
  "less_eq_PrefixKey a b \<longleftrightarrow>
     (pk_family a, pk_high a, pk_low a, pk_prefix_length a, pk_scope a)
       \<le> (pk_family b, pk_high b, pk_low b, pk_prefix_length b, pk_scope b)"

definition less_PrefixKey :: "PrefixKey \<Rightarrow> PrefixKey \<Rightarrow> bool" where
  "less_PrefixKey a b \<longleftrightarrow>
     (pk_family a, pk_high a, pk_low a, pk_prefix_length a, pk_scope a)
       < (pk_family b, pk_high b, pk_low b, pk_prefix_length b, pk_scope b)"

instance
proof
  fix x y z :: PrefixKey
  show "x < y \<longleftrightarrow> x \<le> y \<and> \<not> y \<le> x"
    unfolding less_eq_PrefixKey_def less_PrefixKey_def by (rule less_le_not_le)
  show "x \<le> x" by (simp add: less_eq_PrefixKey_def)
  show "x \<le> y \<Longrightarrow> y \<le> z \<Longrightarrow> x \<le> z"
    unfolding less_eq_PrefixKey_def by (rule order_trans)
  show "x \<le> y \<Longrightarrow> y \<le> x \<Longrightarrow> x = y"
    unfolding less_eq_PrefixKey_def
    by (drule (1) order_antisym) (auto intro: PrefixKey.expand)
  show "x \<le> y \<or> y \<le> x"
    unfolding less_eq_PrefixKey_def by (rule linear)
qed

end

text \<open>
  The fairness key of a target: the /24 of an IPv4 address, the /64 of an IPv6 address.
\<close>

definition default_for :: "ScanTarget \<Rightarrow> PrefixKey" where
  "default_for t =
     (case target_address t of
        V4 os \<Rightarrow>
          PrefixKey 4 0 (unat ((word_of_nat (nat_of_be os) :: u32) AND 0xffffff00)) 24
            (target_scope t)
      | V6 os \<Rightarrow> PrefixKey 6 (nat_of_be (take 8 os)) 0 64 (target_scope t))"

record ResolvedContext =
  generation :: nat
  prefix_key :: PrefixKey
  neighbor_setup :: "ProbeFamily option"

datatype ContextResolution = Ready ResolvedContext | Pending | Invalidated "nat option"

section \<open>Evidence and results\<close>

record IcmpEvidence =
  icmp_family :: nat
  message_type :: nat
  icmp_code :: nat
  emitter_is_target :: bool
  quote_strength :: EvidenceStrength

datatype UdpResponseKind =
    NoResponse | DirectUdp | Icmpv4TargetPortUnreachable | OtherIcmpv4
  | Icmpv6TargetPortUnreachable | Icmpv6ParameterProblem | OtherIcmpv6 | Silence

datatype EvidenceKind =
    TcpSynAcknowledgment | TcpReset | EchoReply | UdpReply | UdpServiceHint
  | IcmpPortUnreachable | IcmpOtherError | ExplicitUnreachable | ArpReply
  | NeighborAdvertisement | NeighborResolved

datatype UdpServiceConfidence = Signature | Parsed | TransactionCorrelated

fun confidence_code :: "UdpServiceConfidence \<Rightarrow> nat" where
  "confidence_code Signature = 1"
| "confidence_code Parsed = 2"
| "confidence_code TransactionCorrelated = 3"

record UdpServiceEvidence =
  service_evidence_family :: nat
  confidence :: UdpServiceConfidence
  metadata :: "u8 list"

record EvidenceEvent =
  event_probe_id :: nat
  kind :: EvidenceKind
  event_strength :: EvidenceStrength
  icmp :: "IcmpEvidence option"
  udp_service :: "UdpServiceEvidence option"

datatype DiagnosticKind = ForgedOrUnrelated | NonFirstFragment | OpaqueProtocol | InsufficientQuote

datatype NetworkState =
    Open | ClosedPort | Filtered | OpenOrFiltered | Up | Unreachable | Unknown | DownByPolicy

datatype ProbeOutcome =
    Network NetworkState | OutcomeCancelled | OutcomeSessionDeadline | TransportFailed
  | ContextInvalidated

datatype TerminalReason =
    ReasonEvidence EvidenceKind | Timeout | ReasonCancelled | ReasonSessionDeadline
  | TransportFailure nat | ReasonContextInvalidated

record UdpResultEvidence =
  terminal_probe_id :: "ProbeVariantId option"
  variants_attempted :: nat
  result_response_kind :: UdpResponseKind
  result_contradictions :: nat
  result_service :: "UdpServiceEvidence option"

record ScanResult =
  result_probe :: LogicalProbe
  outcome :: ProbeOutcome
  evidence_strength :: "EvidenceStrength option"
  result_attempt :: nat
  transmissions :: nat
  result_rtt :: "ScanDuration option"
  terminal_at :: MonotonicTime
  route_generation :: nat
  terminal_reason :: TerminalReason
  udp :: "UdpResultEvidence option"

record DiagnosticCounters =
  forged_or_unrelated :: nat
  non_first_fragment :: nat
  opaque_protocol :: nat
  insufficient_quote :: nat
  duplicates :: nat
  late_responses :: nat
  context_invalidations :: nat
  udp_icmp_pacing :: nat

datatype SinkReservation = Reserved | Saturated

record DriveReport =
  report_lifecycle :: SessionLifecycle
  report_transitions :: nat
  report_emissions :: nat
  report_results :: nat
  outstanding :: nat
  report_deferred :: nat
  report_grace :: nat
  report_sink_backpressured :: bool
  report_context_waiting :: bool
  next_wakeup :: "MonotonicTime option"

section \<open>What validation guarantees\<close>

definition config_ok :: "SchedulerConfig \<Rightarrow> bool" where
  "config_ok c \<longleftrightarrow>
     0 < rate_per_second c \<and> rate_per_second c \<le> MAX_TRANSMIT_RATE_PER_SECOND \<and>
     0 < burst c \<and> burst c \<le> max_outstanding c \<and>
     max_outstanding c \<le> MAX_OUTSTANDING_PROBES \<and>
     max_retransmissions c \<le> MAX_RETRANSMISSIONS \<and>
     0 < minimum_timeout c \<and> minimum_timeout c \<le> initial_timeout c \<and>
     initial_timeout c \<le> maximum_timeout c \<and>
     maximum_timeout c \<le> MAX_PROBE_TIMEOUT_MICROS \<and>
     0 < session_deadline_after c \<and> session_deadline_after c \<le> MAX_SESSION_DURATION_MICROS \<and>
     0 < max_grace_entries c \<and> max_grace_entries c \<le> MAX_LATE_GRACE_ENTRIES \<and>
     0 < late_grace c \<and> late_grace c \<le> MAX_SESSION_DURATION_MICROS \<and>
     0 < max_per_target c \<and> max_per_target c \<le> max_outstanding c \<and>
     0 < max_per_prefix c \<and> max_per_prefix c \<le> max_outstanding c"

lemma config_validate_Ok_iff: "config_validate c = Ok c' \<longleftrightarrow> c' = c \<and> config_ok c"
  by (auto simp: config_validate_def config_ok_def split: if_splits)

lemma from_duration_spec:
  assumes "from_duration secs nanos = Ok d"
  shows "1000 * d \<ge> secs * 1000000000 + nanos" and "1000 * d < secs * 1000000000 + nanos + 1000"
    and "d \<le> max_of 64"
proof -
  have d: "d = secs * 1000000 + nanos div 1000 + (if nanos mod 1000 = 0 then 0 else 1)"
    and "d \<le> max_of 64"
    using assms by (auto simp: from_duration_def duration_as_micros_def result_simps Let_def
        split: if_splits)
  then show "d \<le> max_of 64" by simp
  have "nanos = 1000 * (nanos div 1000) + nanos mod 1000" by simp
  moreover have "nanos mod 1000 < 1000" by simp
  ultimately show "1000 * d \<ge> secs * 1000000000 + nanos"
    and "1000 * d < secs * 1000000000 + nanos + 1000"
    unfolding d by (cases "nanos mod 1000 = 0"; simp; linarith)+
qed

end
