(* ===== verification/Targets.thy ===== *)
theory Targets
  imports Engine_Types
begin

text \<open>
  \<^verbatim>\<open>target.rs\<close>: compact target sets. Includes and exclusions (addresses, CIDR blocks,
  inclusive ranges) become intervals of numeric addresses grouped by family and IPv6 zone;
  they are sorted, merged and subtracted without expanding addresses, and single targets
  are decoded lazily from a family-relative index. The abstract contract is a set of
  (group, numeric address) pairs: includes minus exclusions.
\<close>

section \<open>Inputs\<close>

record TargetEndpoint =
  ep_address :: IpAddress
  ep_scope :: "TargetScope option"

record TargetCidr =
  network :: TargetEndpoint
  prefix_length :: nat

record TargetIntervalInput =
  range_start :: TargetEndpoint
  range_end :: TargetEndpoint

datatype TargetInput =
    InputAddress TargetEndpoint
  | InputCidr TargetCidr
  | InputRange TargetIntervalInput

datatype GroupKey = GroupKey (gk_family: nat) (gk_scope: "TargetScope option")

instantiation GroupKey :: linorder
begin

definition less_eq_GroupKey :: "GroupKey \<Rightarrow> GroupKey \<Rightarrow> bool" where
  "less_eq_GroupKey a b \<longleftrightarrow> (gk_family a, gk_scope a) \<le> (gk_family b, gk_scope b)"

definition less_GroupKey :: "GroupKey \<Rightarrow> GroupKey \<Rightarrow> bool" where
  "less_GroupKey a b \<longleftrightarrow> (gk_family a, gk_scope a) < (gk_family b, gk_scope b)"

instance
  by standard
    (auto simp: less_eq_GroupKey_def less_GroupKey_def less_le_not_le intro: GroupKey.expand)

end

record RawInterval =
  iv_group :: GroupKey
  iv_start :: nat
  iv_end :: nat

definition interval_count :: "RawInterval \<Rightarrow> nat option" where
  "interval_count r = checked_add 128 (iv_end r - iv_start r) 1"

definition requires_scope :: "IpAddress \<Rightarrow> bool" where
  "requires_scope a =
     (case a of
        V4 _ \<Rightarrow> False
      | V6 os \<Rightarrow>
          (let link_local_unicast = (os ! 0 = 0xfe \<and> os ! 1 AND 0xc0 = 0x80);
               local_multicast =
                 (os ! 0 = 0xff \<and> (os ! 1 AND 0x0f = 1 \<or> os ! 1 AND 0x0f = 2))
           in link_local_unicast \<or> local_multicast))"

definition validate_scope :: "IpAddress \<Rightarrow> TargetScope option \<Rightarrow> (TargetError, unit) result" where
  "validate_scope a scope =
     (case (a, requires_scope a, scope) of
        (V6 _, True, None) \<Rightarrow> Err MissingIpv6Scope
      | (V4 _, _, Some _) \<Rightarrow> Err UnexpectedScope
      | (V6 _, False, Some _) \<Rightarrow> Err UnexpectedScope
      | _ \<Rightarrow> Ok ())"

definition TargetEndpoint_new ::
  "IpAddress \<Rightarrow> TargetScope option \<Rightarrow> (TargetError, TargetEndpoint) result" where
  "TargetEndpoint_new a scope =
     rbind (validate_scope a scope) (\<lambda>_. Ok \<lparr>ep_address = a, ep_scope = scope\<rparr>)"

definition address_numeric :: "IpAddress \<Rightarrow> nat \<times> nat" where
  "address_numeric a = (case a of V4 os \<Rightarrow> (4, nat_of_be os) | V6 os \<Rightarrow> (6, nat_of_be os))"

definition numeric_address :: "nat \<Rightarrow> nat \<Rightarrow> IpAddress option" where
  "numeric_address fam v =
     (if fam = 4 then map_option (\<lambda>v. V4 (be_of_nat 4 v)) (try_from 32 v)
      else if fam = 6 then Some (V6 (be_of_nat 16 v))
      else None)"

definition scoped_ranges :: "(nat \<times> nat) list" where
  "scoped_ranges =
     [(nat_of_be ([0xfe, 0x80] @ replicate 14 0), nat_of_be ([0xfe, 0xbf] @ replicate 14 0xff)),
      (nat_of_be ([0xff, 0x01] @ replicate 14 0), nat_of_be ([0xff, 0x01] @ replicate 14 0xff)),
      (nat_of_be ([0xff, 0x02] @ replicate 14 0), nat_of_be ([0xff, 0x02] @ replicate 14 0xff))]"

definition validate_interval_scope ::
  "nat \<Rightarrow> nat \<Rightarrow> nat \<Rightarrow> TargetScope option \<Rightarrow> (TargetError, unit) result" where
  "validate_interval_scope fam s e scope =
     (if fam = 4 then (if scope \<noteq> None then Err UnexpectedScope else Ok ())
      else
        let containing = list_ex (\<lambda>(rs, re). s \<ge> rs \<and> e \<le> re) scoped_ranges;
            overlapping = list_ex (\<lambda>(rs, re). s \<le> re \<and> e \<ge> rs) scoped_ranges
        in if overlapping \<and> \<not> containing then Err CidrCrossesScopeBoundary
           else (case (containing, scope) of
                   (True, None) \<Rightarrow> Err MissingIpv6Scope
                 | (False, Some _) \<Rightarrow> Err UnexpectedScope
                 | _ \<Rightarrow> Ok ()))"

definition range_interval :: "TargetIntervalInput \<Rightarrow> (TargetError, RawInterval) result" where
  "range_interval v =
     (let (start_family, s) = address_numeric (ep_address (range_start v));
          (end_family, e) = address_numeric (ep_address (range_end v))
      in if start_family \<noteq> end_family then Err AddressFamilyMismatch
         else if ep_scope (range_start v) \<noteq> ep_scope (range_end v) then Err ScopeMismatch
         else if s > e then Err ReversedRange
         else rbind (validate_interval_scope start_family s e (ep_scope (range_start v)))
           (\<lambda>_. Ok \<lparr>iv_group = GroupKey start_family (ep_scope (range_start v)), iv_start = s, iv_end = e\<rparr>))"

text \<open>The masks of \<^verbatim>\<open>cidr_interval\<close> are computed on 128-bit words, as in the source.\<close>

definition cidr_mask :: "nat \<Rightarrow> u128" where
  "cidr_mask host_bits = (if host_bits = 128 then 0 else push_bit host_bits (- 1))"

definition family_mask :: "nat \<Rightarrow> u128" where
  "family_mask fam = (if fam = 4 then 0xffffffff else - 1)"

definition cidr_interval :: "TargetCidr \<Rightarrow> (TargetError, RawInterval) result" where
  "cidr_interval v =
     (let (fam, address) = address_numeric (ep_address (network v));
          width = (if fam = 4 then 32 else 128)
      in if prefix_length v > width then Err InvalidPrefixLength
         else
           let host_bits = width - prefix_length v;
               mask = cidr_mask host_bits;
               s = (word_of_nat address :: u128) AND mask AND family_mask fam;
               e = s OR (NOT mask AND family_mask fam)
           in rbind (validate_interval_scope fam (unat s) (unat e) (ep_scope (network v)))
                (\<lambda>_. Ok \<lparr>iv_group = GroupKey fam (ep_scope (network v)), iv_start = unat s, iv_end = unat e\<rparr>))"

definition input_interval :: "TargetInput \<Rightarrow> (TargetError, RawInterval) result" where
  "input_interval input =
     (case input of
        InputAddress v \<Rightarrow>
          rbind (validate_scope (ep_address v) (ep_scope v)) (\<lambda>_.
            let (fam, numeric) = address_numeric (ep_address v)
            in Ok \<lparr>iv_group = GroupKey fam (ep_scope v), iv_start = numeric, iv_end = numeric\<rparr>)
      | InputRange v \<Rightarrow> range_interval v
      | InputCidr v \<Rightarrow> cidr_interval v)"

section \<open>Merging and subtracting\<close>

text \<open>
  The merge loop over intervals in key order. The vector \<^verbatim>\<open>merged\<close> is kept reversed, so
  that its last element is the head of the list.
\<close>

fun merge_step :: "RawInterval list \<Rightarrow> RawInterval \<Rightarrow> RawInterval list" where
  "merge_step [] r = [r]"
| "merge_step (l # ls) r =
     (if iv_group l = iv_group r \<and> iv_start r \<le> saturating_add 128 (iv_end l) 1
      then l\<lparr>iv_end := max (iv_end l) (iv_end r)\<rparr> # ls
      else r # l # ls)"

definition merge_sorted :: "RawInterval list \<Rightarrow> RawInterval list" where
  "merge_sorted rs = rev (foldl merge_step [] rs)"

definition interval_key :: "RawInterval \<Rightarrow> GroupKey \<times> nat \<times> nat" where
  "interval_key r = (iv_group r, iv_start r, iv_end r)"

definition merge_inputs :: "TargetInput list \<Rightarrow> (TargetError, RawInterval list) result" where
  "merge_inputs inputs =
     rbind (rmap input_interval inputs) (\<lambda>rs. Ok (merge_sorted (sort_key interval_key rs)))"

definition push_output ::
  "RawInterval list \<Rightarrow> RawInterval \<Rightarrow> (TargetError, RawInterval list) result" where
  "push_output out v =
     (if length out = MAX_NORMALIZED_TARGET_INTERVALS then Err TooManyNormalizedIntervals
      else Ok (out @ [v]))"

text \<open>
  The inner loop of \<^verbatim>\<open>subtract\<close> over the exclusions from \<^verbatim>\<open>exclusion_index\<close> on: the
  output, the cursor, and whether the include was consumed.
\<close>

fun subtract_inner ::
  "RawInterval \<Rightarrow> RawInterval list \<Rightarrow> nat \<Rightarrow> RawInterval list
     \<Rightarrow> (TargetError, RawInterval list \<times> nat \<times> bool) result" where
  "subtract_inner inc [] cursor out = Ok (out, cursor, False)"
| "subtract_inner inc (x # xs) cursor out =
     (if iv_group x \<noteq> iv_group inc \<or> iv_start x > iv_end inc then Ok (out, cursor, False)
      else
        rbind (if iv_start x > cursor
               then push_output out \<lparr>iv_group = iv_group inc, iv_start = cursor, iv_end = iv_start x - 1\<rparr>
               else Ok out)
          (\<lambda>out'. if iv_end x \<ge> iv_end inc then Ok (out', cursor, True)
                   else subtract_inner inc xs (max cursor (iv_end x + 1)) out'))"

definition skip_exclusion :: "RawInterval \<Rightarrow> RawInterval \<Rightarrow> bool" where
  "skip_exclusion inc x \<longleftrightarrow>
     iv_group x < iv_group inc \<or> (iv_group x = iv_group inc \<and> iv_end x < iv_start inc)"

fun subtract_loop ::
  "RawInterval list \<Rightarrow> RawInterval list \<Rightarrow> RawInterval list
     \<Rightarrow> (TargetError, RawInterval list) result" where
  "subtract_loop [] xs out = Ok out"
| "subtract_loop (inc # incs) xs out =
     (let xs' = dropWhile (skip_exclusion inc) xs
      in rbind (subtract_inner inc xs' (iv_start inc) out) (\<lambda>(out', cursor, consumed).
           rbind (if \<not> consumed \<and> cursor \<le> iv_end inc
                  then push_output out'
                         \<lparr>iv_group = iv_group inc, iv_start = cursor, iv_end = iv_end inc\<rparr>
                  else Ok out')
             (\<lambda>out''. subtract_loop incs xs' out'')))"

definition subtract :: "RawInterval list \<Rightarrow> RawInterval list \<Rightarrow> (TargetError, RawInterval list) result"
  where
  "subtract incs xs = subtract_loop incs xs []"

section \<open>Target sets\<close>

record NormalizedInterval =
  raw :: RawInterval
  family_end :: nat

record TargetSet =
  intervals :: "NormalizedInterval list"
  ipv4_indices :: "nat list"
  ipv6_indices :: "nat list"
  ipv4_count :: nat
  ipv6_count :: nat

text \<open>
  One iteration of the loop of \<^verbatim>\<open>normalize\<close>. The source panics on a family other than
  4 or 6, which conversion never produces; the model's last branch is that unreachable case.
\<close>

definition normalize_step :: "TargetSet \<Rightarrow> RawInterval \<Rightarrow> (TargetError, TargetSet) result" where
  "normalize_step ts r =
     rbind (ok_or (Option.bind (interval_count r) (try_from 64)) TargetCountOverflow) (\<lambda>count.
       let index = length (intervals ts)
       in if gk_family (iv_group r) = 4 then
            rbind (ok_or (checked_add 64 (ipv4_count ts) count) TargetCountOverflow) (\<lambda>total.
              Ok (ts\<lparr>ipv4_count := total,
                     intervals := intervals ts @ [\<lparr>raw = r, family_end = total\<rparr>],
                     ipv4_indices := ipv4_indices ts @ [index]\<rparr>))
          else
            rbind (ok_or (checked_add 64 (ipv6_count ts) count) TargetCountOverflow) (\<lambda>total.
              Ok (ts\<lparr>ipv6_count := total,
                     intervals := intervals ts @ [\<lparr>raw = r, family_end = total\<rparr>],
                     ipv6_indices := ipv6_indices ts @ [index]\<rparr>)))"

fun normalize_loop :: "RawInterval list \<Rightarrow> TargetSet \<Rightarrow> (TargetError, TargetSet) result" where
  "normalize_loop [] ts = Ok ts"
| "normalize_loop (r # rs) ts = rbind (normalize_step ts r) (normalize_loop rs)"

definition empty_target_set :: TargetSet where
  "empty_target_set =
     \<lparr>intervals = [], ipv4_indices = [], ipv6_indices = [], ipv4_count = 0, ipv6_count = 0\<rparr>"

definition normalize :: "TargetInput list \<Rightarrow> TargetInput list \<Rightarrow> (TargetError, TargetSet) result" where
  "normalize includes excludes =
     (if includes = [] then Err TargetEmpty
      else if length includes > MAX_TARGET_INCLUDE_INTERVALS then Err TooManyIncludes
      else if length excludes > MAX_TARGET_EXCLUDE_INTERVALS then Err TooManyExcludes
      else
        rbind (merge_inputs includes) (\<lambda>incs.
        rbind (merge_inputs excludes) (\<lambda>excs.
        rbind (subtract incs excs) (\<lambda>applied.
          if applied = [] then Err TargetEmpty
          else
            rbind (normalize_loop applied empty_target_set) (\<lambda>ts.
            rbind (ok_or (checked_add 64 (ipv4_count ts) (ipv6_count ts)) TargetCountOverflow) (\<lambda>_.
              Ok ts))))))"

definition target_count :: "TargetSet \<Rightarrow> nat" where
  "target_count ts = ipv4_count ts + ipv6_count ts"

definition ts_contains :: "TargetSet \<Rightarrow> TargetEndpoint \<Rightarrow> bool" where
  "ts_contains ts ep =
     (let (fam, numeric) = address_numeric (ep_address ep);
          g = GroupKey fam (ep_scope ep)
      in list_ex (\<lambda>i. iv_group (raw i) = g \<and> iv_start (raw i) \<le> numeric \<and> numeric \<le> iv_end (raw i))
           (intervals ts))"

definition ranges_intersect :: "nat \<Rightarrow> nat \<Rightarrow> nat \<Rightarrow> nat \<Rightarrow> bool" where
  "ranges_intersect s e other_start other_end \<longleftrightarrow> s \<le> other_end \<and> other_start \<le> e"

definition contains_multicast_or_limited_broadcast :: "TargetSet \<Rightarrow> bool" where
  "contains_multicast_or_limited_broadcast ts =
     list_ex (\<lambda>i.
       let s = iv_start (raw i); e = iv_end (raw i); fam = gk_family (iv_group (raw i))
       in if fam = 4 then
            ranges_intersect s e 0xe0000000 0xefffffff \<or> ranges_intersect s e 0xffffffff 0xffffffff
          else if fam = 6 then
            ranges_intersect s e 0xff000000000000000000000000000000 (max_of 128)
          else False)
       (intervals ts)"

definition target_at_family :: "TargetSet \<Rightarrow> nat \<Rightarrow> nat \<Rightarrow> ScanTarget option" where
  "target_at_family ts fam index =
     (if fam \<noteq> 4 \<and> fam \<noteq> 6 then None
      else
        let indices = (if fam = 4 then ipv4_indices ts else ipv6_indices ts);
            position = partition_point (\<lambda>i. family_end (intervals ts ! i) \<le> index) indices
        in if position \<ge> length indices then None
           else
             let interval = intervals ts ! (indices ! position);
                 previous_end =
                   (if position = 0 then 0
                    else family_end (intervals ts ! (indices ! (position - 1))))
             in Option.bind (checked_sub index previous_end) (\<lambda>off.
                Option.bind (checked_add 128 (iv_start (raw interval)) off) (\<lambda>v.
                Option.bind (numeric_address fam v) (\<lambda>a.
                  Some (ScanTarget a (gk_scope (iv_group (raw interval))))))))"


section \<open>What the intervals denote\<close>

definition iv_set :: "RawInterval \<Rightarrow> (GroupKey \<times> nat) set" where
  "iv_set r = {(g, n). g = iv_group r \<and> iv_start r \<le> n \<and> n \<le> iv_end r}"

definition ivs_set :: "RawInterval list \<Rightarrow> (GroupKey \<times> nat) set" where
  "ivs_set rs = (\<Union>r \<in> set rs. iv_set r)"

definition family_max :: "nat \<Rightarrow> nat" where
  "family_max fam = (if fam = 4 then max_of 32 else max_of 128)"

definition iv_ok :: "RawInterval \<Rightarrow> bool" where
  "iv_ok r \<longleftrightarrow> iv_start r \<le> iv_end r \<and> iv_end r \<le> family_max (gk_family (iv_group r)) \<and>
     (gk_family (iv_group r) = 4 \<or> gk_family (iv_group r) = 6)"

definition before :: "RawInterval \<Rightarrow> RawInterval \<Rightarrow> bool" where
  "before a b \<longleftrightarrow> iv_group a < iv_group b \<or> (iv_group a = iv_group b \<and> iv_end a < iv_start b)"

definition ordered_disjoint :: "RawInterval list \<Rightarrow> bool" where
  "ordered_disjoint rs \<longleftrightarrow> sorted_wrt before rs \<and> list_all iv_ok rs"

lemma family_max_le: "family_max fam \<le> max_of 128"
  by (simp add: family_max_def max_of_def)

lemma iv_ok_le_max: "iv_ok r \<Longrightarrow> iv_end r \<le> max_of 128"
  using family_max_le order_trans unfolding iv_ok_def by blast

lemma ivs_set_simps [simp]:
  "ivs_set [] = {}" "ivs_set (r # rs) = iv_set r \<union> ivs_set rs"
  "ivs_set (rs @ rs') = ivs_set rs \<union> ivs_set rs'"
  by (auto simp: ivs_set_def)

lemma ivs_set_cong: "set rs = set rs' \<Longrightarrow> ivs_set rs = ivs_set rs'"
  by (simp add: ivs_set_def)

lemma mem_ivs_set: "(g, n) \<in> ivs_set rs \<longleftrightarrow>
    (\<exists>r \<in> set rs. g = iv_group r \<and> iv_start r \<le> n \<and> n \<le> iv_end r)"
  by (auto simp: ivs_set_def iv_set_def)

lemma before_disjoint: "before a b \<Longrightarrow> iv_set a \<inter> iv_set b = {}"
  by (auto simp: before_def iv_set_def)

lemma before_trans: "iv_start b \<le> iv_end b \<Longrightarrow> before a b \<Longrightarrow> before b c \<Longrightarrow> before a c"
  unfolding before_def by force

subsection \<open>Merging\<close>

definition merge_inv :: "RawInterval list \<Rightarrow> RawInterval list \<Rightarrow> bool" where
  "merge_inv acc rs \<longleftrightarrow> sorted_wrt before (rev acc) \<and> list_all iv_ok acc \<and>
     (\<forall>l ls r. acc = l # ls \<longrightarrow> r \<in> set rs \<longrightarrow>
        iv_group l < iv_group r \<or> (iv_group l = iv_group r \<and> iv_start l \<le> iv_start r))"

lemma key_le_iff:
  "interval_key a \<le> interval_key b \<Longrightarrow>
     iv_group a < iv_group b \<or> (iv_group a = iv_group b \<and> iv_start a \<le> iv_start b)"
  by (auto simp: interval_key_def less_eq_prod_simp order_le_less)

lemma merge_step_inv:
  assumes inv: "merge_inv acc (r # rs)" and ok: "iv_ok r"
    and sorted: "\<forall>s \<in> set rs. interval_key r \<le> interval_key s"
  shows "merge_inv (merge_step acc r) rs \<and> ivs_set (merge_step acc r) = ivs_set acc \<union> iv_set r"
proof (cases acc)
  case Nil
  with ok sorted key_le_iff show ?thesis by (auto simp: merge_inv_def)
next
  case (Cons l ls)
  have l: "iv_ok l" "sorted_wrt before (rev (l # ls))"
    using inv Cons by (auto simp: merge_inv_def)
  have rel: "iv_group l < iv_group r \<or> (iv_group l = iv_group r \<and> iv_start l \<le> iv_start r)"
    using inv Cons by (auto simp: merge_inv_def)
  have rest: "\<And>s. s \<in> set rs \<Longrightarrow>
      iv_group r < iv_group s \<or> (iv_group r = iv_group s \<and> iv_start r \<le> iv_start s)"
    using sorted key_le_iff by blast
  have restl: "\<And>s. s \<in> set rs \<Longrightarrow>
      iv_group l < iv_group s \<or> (iv_group l = iv_group s \<and> iv_start l \<le> iv_start s)"
    using inv Cons by (auto simp: merge_inv_def)
  show ?thesis
  proof (cases "iv_group l = iv_group r \<and> iv_start r \<le> saturating_add 128 (iv_end l) 1")
    case True
    let ?l = "l\<lparr>iv_end := max (iv_end l) (iv_end r)\<rparr>"
    have "iv_start r \<le> iv_end l + 1" using True by (simp add: saturating_add_def)
    with True rel have "iv_set ?l = iv_set l \<union> iv_set r"
      by (auto simp: iv_set_def)
    moreover have "iv_ok ?l" using l(1) ok True by (auto simp: iv_ok_def)
    moreover have "sorted_wrt before (rev (?l # ls))"
      using l(2) by (auto simp: sorted_wrt_append before_def)
    ultimately show ?thesis
      using True Cons inv restl by (auto simp: merge_inv_def)
  next
    case False
    have "before l r"
    proof (cases "iv_group l = iv_group r")
      case True
      have "iv_end r \<le> max_of 128" using ok by (rule iv_ok_le_max)
      with False True ok show ?thesis
        by (auto simp: before_def saturating_add_def iv_ok_def)
    next
      case False
      with rel show ?thesis by (simp add: before_def)
    qed
    then have "sorted_wrt before (rev (r # l # ls))"
      using l before_trans [of l _ r] by (auto simp: sorted_wrt_append iv_ok_def)
    with False Cons inv ok rest show ?thesis by (auto simp: merge_inv_def)
  qed
qed

lemma foldl_merge:
  assumes "merge_inv acc rs" and "list_all iv_ok rs" and "sorted (map interval_key rs)"
  shows "merge_inv (foldl merge_step acc rs) [] \<and>
         ivs_set (foldl merge_step acc rs) = ivs_set acc \<union> ivs_set rs"
  using assms
proof (induction rs arbitrary: acc)
  case Nil
  then show ?case by simp
next
  case (Cons r rs)
  have step: "merge_inv (merge_step acc r) rs \<and> ivs_set (merge_step acc r) = ivs_set acc \<union> iv_set r"
    by (rule merge_step_inv) (use Cons.prems in auto)
  then show ?case using Cons.IH [of "merge_step acc r"] Cons.prems by auto
qed

lemma merge_sorted_correct:
  assumes "list_all iv_ok rs" and "sorted (map interval_key rs)"
  shows "ordered_disjoint (merge_sorted rs) \<and> ivs_set (merge_sorted rs) = ivs_set rs"
proof -
  have "merge_inv [] rs" by (simp add: merge_inv_def)
  from foldl_merge [OF this assms] show ?thesis
    by (auto simp: merge_inv_def merge_sorted_def ordered_disjoint_def list_all_iff ivs_set_def)
qed

subsection \<open>Subtracting\<close>

definition tail_set :: "RawInterval \<Rightarrow> nat \<Rightarrow> (GroupKey \<times> nat) set" where
  "tail_set inc cursor = {(g, n). g = iv_group inc \<and> cursor \<le> n \<and> n \<le> iv_end inc}"

lemma beyond_disjoint:
  "\<forall>y \<in> set xs. iv_group inc < iv_group y \<or> (iv_group y = iv_group inc \<and> iv_end inc < iv_start y)
     \<Longrightarrow> tail_set inc cursor \<inter> ivs_set xs = {}"
  by (fastforce simp: tail_set_def ivs_set_def iv_set_def)

definition gap :: "GroupKey \<Rightarrow> nat \<Rightarrow> nat \<Rightarrow> (GroupKey \<times> nat) set" where
  "gap g cursor s = {(k, n). k = g \<and> cursor \<le> n \<and> n < s}"

lemma gap_cut:
  "ivs_set (if s > cursor then [\<lparr>iv_group = g, iv_start = cursor, iv_end = s - 1\<rparr>] else [])
     = gap g cursor s"
  by (auto simp: gap_def iv_set_def)

text \<open>Removing the first exclusion \<open>x\<close> leaves the gap before it and what lies after it.\<close>

lemma tail_minus_exclusion:
  assumes g: "iv_group x = iv_group inc" and st: "iv_start x \<le> iv_end inc"
    and x: "iv_start x \<le> iv_end x"
    and rest: "\<forall>y \<in> set xs. iv_group y = iv_group inc \<longrightarrow> iv_end x < iv_start y"
  shows "tail_set inc cursor - ivs_set (x # xs) =
    gap (iv_group inc) cursor (iv_start x) \<union> (tail_set inc (max cursor (iv_end x + 1)) - ivs_set xs)"
proof -
  have notin: "(iv_group inc, n) \<notin> ivs_set xs" if "n \<le> iv_end x" for n
  proof
    assume "(iv_group inc, n) \<in> ivs_set xs"
    then obtain y where "y \<in> set xs" "iv_group inc = iv_group y" "iv_start y \<le> n"
      by (auto simp: mem_ivs_set)
    with rest that show False by force
  qed
  have "(iv_group inc, n) \<in> tail_set inc cursor - ivs_set (x # xs) \<longleftrightarrow>
      (iv_group inc, n) \<in> gap (iv_group inc) cursor (iv_start x) \<union>
        (tail_set inc (max cursor (iv_end x + 1)) - ivs_set xs)" for n
    using notin [of n] st x g
    by (cases "n \<le> iv_end x") (auto simp: tail_set_def gap_def iv_set_def)
  moreover have "k = iv_group inc"
    if "(k, n) \<in> tail_set inc c \<union> gap (iv_group inc) cursor (iv_start x)" for k n c
    using that by (auto simp: tail_set_def gap_def)
  ultimately show ?thesis by fast
qed

lemma tail_empty: "iv_end inc < cursor \<Longrightarrow> tail_set inc cursor = {}"
  by (auto simp: tail_set_def)

lemma push_output_Ok: "push_output out v = Ok out' \<Longrightarrow> out' = out @ [v]"
  by (simp add: push_output_def split: if_splits)

lemma subtract_inner_correct:
  assumes "ordered_disjoint xs" and "\<forall>x \<in> set xs. iv_group inc \<le> iv_group x" and "iv_ok inc"
    and "subtract_inner inc xs cursor out = Ok (out', cursor', consumed)"
  shows "\<exists>new. out' = out @ new \<and> ordered_disjoint new \<and> cursor \<le> cursor' \<and>
    (\<forall>r \<in> set new. iv_group r = iv_group inc \<and> cursor \<le> iv_start r \<and> iv_end r \<le> iv_end inc \<and>
        (\<not> consumed \<longrightarrow> iv_end r < cursor')) \<and>
    ivs_set new \<union> (if consumed then {} else tail_set inc cursor') = tail_set inc cursor - ivs_set xs"
  using assms
proof (induction inc xs cursor out rule: subtract_inner.induct)
  case (1 inc cursor out)
  then show ?case by (auto simp: ordered_disjoint_def)
next
  case (2 inc x xs cursor out)
  have x: "iv_ok x" and xs: "ordered_disjoint xs" and after: "\<And>y. y \<in> set xs \<Longrightarrow> before x y"
    and ge: "iv_group inc \<le> iv_group x"
    using "2.prems"(1,2) by (auto simp: ordered_disjoint_def)
  show ?case
  proof (cases "iv_group x \<noteq> iv_group inc \<or> iv_start x > iv_end inc")
    case True
    have "tail_set inc cursor \<inter> ivs_set (x # xs) = {}"
    proof (rule beyond_disjoint)
      have head: "iv_group inc < iv_group x \<or> (iv_group x = iv_group inc \<and> iv_end inc < iv_start x)"
        using True ge by (auto simp: order_le_less)
      have "iv_group inc < iv_group y \<or> (iv_group y = iv_group inc \<and> iv_end inc < iv_start y)"
        if "y \<in> set xs" for y
        using after [OF that] x head by (auto simp: before_def iv_ok_def)
      with head show "\<forall>y \<in> set (x # xs). iv_group inc < iv_group y \<or>
          (iv_group y = iv_group inc \<and> iv_end inc < iv_start y)" by simp
    qed
    then show ?thesis using True "2.prems"(4) by (auto simp: ordered_disjoint_def)
  next
    case False
    then have g: "iv_group x = iv_group inc" and st: "iv_start x \<le> iv_end inc" by auto
    let ?cut = "\<lparr>iv_group = iv_group inc, iv_start = cursor, iv_end = iv_start x - 1\<rparr>"
    let ?pre = "if iv_start x > cursor then [?cut] else []"
    obtain out1 where out1: "(if iv_start x > cursor then push_output out ?cut else Ok out) = Ok out1"
      using "2.prems"(4) False by (auto simp: result_simps)
    then have o1: "out1 = out @ ?pre" by (auto dest: push_output_Ok split: if_splits)
    have cut_ok: "iv_ok ?cut" if "cursor < iv_start x"
      using that "2.prems"(3) st by (auto simp: iv_ok_def)
    have pre: "ordered_disjoint ?pre" using cut_ok by (auto simp: ordered_disjoint_def)
    have rest: "iv_group y = iv_group inc \<longrightarrow> iv_end x < iv_start y" if "y \<in> set xs" for y
      using after [OF that] g by (auto simp: before_def)
    have minus: "tail_set inc cursor - ivs_set (x # xs) = gap (iv_group inc) cursor (iv_start x) \<union>
        (tail_set inc (max cursor (iv_end x + 1)) - ivs_set xs)"
      by (rule tail_minus_exclusion) (use g st x rest in \<open>auto simp: iv_ok_def\<close>)
    show ?thesis
    proof (cases "iv_end x \<ge> iv_end inc")
      case True
      then have res: "out' = out1" "cursor' = cursor" "consumed"
        using "2.prems"(4) False out1 by (auto simp: result_simps)
      have "ivs_set ?pre = tail_set inc cursor - ivs_set (x # xs)"
        unfolding minus gap_cut using True by (simp add: tail_empty)
      moreover have "\<forall>r \<in> set ?pre. iv_group r = iv_group inc \<and> cursor \<le> iv_start r \<and> iv_end r \<le> iv_end inc"
        using st by auto
      ultimately show ?thesis
        using res(2,3) pre unfolding res(1) o1 by (intro exI [of _ ?pre]) (simp only: Un_empty_right, simp)
    next
      case more: False
      let ?c = "max cursor (iv_end x + 1)"
      have rec: "subtract_inner inc xs ?c out1 = Ok (out', cursor', consumed)"
        using "2.prems"(4) False more out1 by (auto simp: result_simps)
      obtain new where new: "out' = out1 @ new" "ordered_disjoint new" "?c \<le> cursor'"
        "\<forall>r \<in> set new. iv_group r = iv_group inc \<and> ?c \<le> iv_start r \<and> iv_end r \<le> iv_end inc \<and>
            (\<not> consumed \<longrightarrow> iv_end r < cursor')"
        "ivs_set new \<union> (if consumed then {} else tail_set inc cursor')
           = tail_set inc ?c - ivs_set xs"
        using "2.IH" [OF _ out1 more _ _ _ rec] False xs "2.prems"(2,3) by auto
      show ?thesis
      proof (intro exI conjI)
        show "out' = out @ (?pre @ new)" by (simp only: new(1) o1 append_assoc)
        show "ordered_disjoint (?pre @ new)"
          using pre new(2,4) x
          by (auto simp: ordered_disjoint_def sorted_wrt_append before_def iv_ok_def)
        show "cursor \<le> cursor'" using new(3) by simp
        show "\<forall>r \<in> set (?pre @ new). iv_group r = iv_group inc \<and> cursor \<le> iv_start r \<and>
            iv_end r \<le> iv_end inc \<and> (\<not> consumed \<longrightarrow> iv_end r < cursor')"
          using new(3,4) st x by (auto simp: iv_ok_def)
        show "ivs_set (?pre @ new) \<union> (if consumed then {} else tail_set inc cursor')
            = tail_set inc cursor - ivs_set (x # xs)"
          unfolding minus new(5) [symmetric] by (simp only: ivs_set_simps(3) gap_cut Un_assoc)
      qed
    qed
  qed
qed

text \<open>One include: exactly its addresses outside the remaining exclusions are appended.\<close>

lemma subtract_include:
  assumes od: "ordered_disjoint xs" and ge: "\<forall>x \<in> set xs. iv_group inc \<le> iv_group x" and ok: "iv_ok inc"
    and inner: "subtract_inner inc xs (iv_start inc) out = Ok (out1, cursor, consumed)"
    and push: "(if \<not> consumed \<and> cursor \<le> iv_end inc
       then push_output out1 \<lparr>iv_group = iv_group inc, iv_start = cursor, iv_end = iv_end inc\<rparr>
       else Ok out1) = Ok out2"
  shows "\<exists>new. out2 = out @ new \<and> ordered_disjoint new \<and> ivs_set new = iv_set inc - ivs_set xs \<and>
    (\<forall>r \<in> set new. iv_group r = iv_group inc \<and> iv_start inc \<le> iv_start r \<and> iv_end r \<le> iv_end inc)"
proof -
  obtain new where new: "out1 = out @ new" "ordered_disjoint new" "iv_start inc \<le> cursor"
    "\<forall>r \<in> set new. iv_group r = iv_group inc \<and> iv_start inc \<le> iv_start r \<and> iv_end r \<le> iv_end inc \<and>
        (\<not> consumed \<longrightarrow> iv_end r < cursor)"
    "ivs_set new \<union> (if consumed then {} else tail_set inc cursor) = tail_set inc (iv_start inc) - ivs_set xs"
    using subtract_inner_correct [OF od ge ok inner] by blast
  have inc: "tail_set inc (iv_start inc) = iv_set inc" by (auto simp: tail_set_def iv_set_def)
  show ?thesis
  proof (cases "\<not> consumed \<and> cursor \<le> iv_end inc")
    case False
    then have "out2 = out1" using push by auto
    moreover have "(if consumed then {} else tail_set inc cursor) = {}"
      using False by (auto simp: tail_empty)
    ultimately show ?thesis using new inc by auto
  next
    case True
    let ?last = "\<lparr>iv_group = iv_group inc, iv_start = cursor, iv_end = iv_end inc\<rparr>"
    have "out2 = out @ (new @ [?last])"
      using True push push_output_Ok new(1) by fastforce
    moreover have "iv_ok ?last" using ok True by (simp add: iv_ok_def)
    then have "ordered_disjoint (new @ [?last])"
      using new(2,4) True by (auto simp: ordered_disjoint_def sorted_wrt_append before_def)
    moreover have "ivs_set (new @ [?last]) = iv_set inc - ivs_set xs"
      using new(5) True unfolding inc by (simp add: tail_set_def iv_set_def)
    moreover have "\<forall>r \<in> set (new @ [?last]).
        iv_group r = iv_group inc \<and> iv_start inc \<le> iv_start r \<and> iv_end r \<le> iv_end inc"
      using new(3,4) by auto
    ultimately show ?thesis by (intro exI [of _ "new @ [?last]"] conjI)
  qed
qed

lemma skip_disjoint:
  assumes "skip_exclusion inc x" and "inc' = inc \<or> before inc inc'" and "iv_ok inc"
  shows "iv_set inc' \<inter> iv_set x = {}"
proof -
  have "(iv_group inc < iv_group inc') \<or> (iv_group inc = iv_group inc' \<and> iv_start inc \<le> iv_start inc')"
    using assms(2,3) by (auto simp: before_def iv_ok_def)
  then have "iv_group x < iv_group inc' \<or> (iv_group x = iv_group inc' \<and> iv_end x < iv_start inc')"
    using assms(1) unfolding skip_exclusion_def by (elim disjE conjE) (auto dest: less_trans)
  then show ?thesis unfolding iv_set_def by (elim disjE conjE) force+
qed

lemma dropWhile_skip:
  assumes "ordered_disjoint xs"
  shows "ordered_disjoint (dropWhile (skip_exclusion inc) xs)"
    and "x \<in> set (dropWhile (skip_exclusion inc) xs) \<Longrightarrow> iv_group inc \<le> iv_group x"
proof -
  let ?d = "dropWhile (skip_exclusion inc) xs"
  have "ordered_disjoint (takeWhile (skip_exclusion inc) xs @ ?d)" using assms by simp
  then show od: "ordered_disjoint ?d"
    unfolding ordered_disjoint_def sorted_wrt_append list_all_append by blast
  assume x: "x \<in> set ?d"
  show "iv_group inc \<le> iv_group x"
  proof (cases ?d)
    case (Cons h t)
    have "\<not> skip_exclusion inc h" using Cons by (simp add: dropWhile_eq_Cons_conv)
    then have "iv_group inc \<le> iv_group h" by (auto simp: skip_exclusion_def)
    moreover have "x = h \<or> before h x" using od x Cons by (auto simp: ordered_disjoint_def)
    ultimately show ?thesis by (auto simp: before_def)
  next
    case Nil
    from x show ?thesis unfolding Nil by simp
  qed
qed

lemma subtract_loop_correct:
  assumes "ordered_disjoint incs" and "ordered_disjoint xs" and "subtract_loop incs xs out = Ok res"
  shows "\<exists>new. res = out @ new \<and> ordered_disjoint new \<and> ivs_set new = ivs_set incs - ivs_set xs \<and>
    (\<forall>r \<in> set new. \<exists>inc \<in> set incs. iv_group r = iv_group inc \<and> iv_start inc \<le> iv_start r \<and> iv_end r \<le> iv_end inc)"
  using assms
proof (induction incs arbitrary: xs out)
  case Nil
  then show ?case by (simp add: ordered_disjoint_def)
next
  case (Cons inc incs)
  let ?d = "dropWhile (skip_exclusion inc) xs"
  have ok: "iv_ok inc" and odi: "ordered_disjoint incs" and after: "\<And>i. i \<in> set incs \<Longrightarrow> before inc i"
    using Cons.prems(1) by (auto simp: ordered_disjoint_def)
  obtain out1 cursor consumed out2 where
    inner: "subtract_inner inc ?d (iv_start inc) out = Ok (out1, cursor, consumed)"
    and push: "(if \<not> consumed \<and> cursor \<le> iv_end inc
       then push_output out1 \<lparr>iv_group = iv_group inc, iv_start = cursor, iv_end = iv_end inc\<rparr>
       else Ok out1) = Ok out2"
    and rest: "subtract_loop incs ?d out2 = Ok res"
    using Cons.prems(3) by (auto simp: result_simps Let_def)
  note od = dropWhile_skip [OF Cons.prems(2), where inc = inc]
  from subtract_include [OF od(1) _ ok inner push] od(2)
  obtain new1 where new1: "out2 = out @ new1" "ordered_disjoint new1" "ivs_set new1 = iv_set inc - ivs_set ?d"
    "\<forall>r \<in> set new1. iv_group r = iv_group inc \<and> iv_start inc \<le> iv_start r \<and> iv_end r \<le> iv_end inc"
    by blast
  from Cons.IH [OF odi od(1) rest]
  obtain new2 where new2: "res = out2 @ new2" "ordered_disjoint new2" "ivs_set new2 = ivs_set incs - ivs_set ?d"
    "\<forall>r \<in> set new2. \<exists>i \<in> set incs. iv_group r = iv_group i \<and> iv_start i \<le> iv_start r \<and> iv_end r \<le> iv_end i"
    by blast
  have "ivs_set xs = ivs_set (takeWhile (skip_exclusion inc) xs) \<union> ivs_set ?d"
    by (metis ivs_set_simps(3) takeWhile_dropWhile_id)
  moreover have "ivs_set (inc # incs) \<inter> ivs_set (takeWhile (skip_exclusion inc) xs) = {}"
    using skip_disjoint [OF _ _ ok] after unfolding ivs_set_def by (force dest: set_takeWhileD)
  ultimately have "ivs_set (new1 @ new2) = ivs_set (inc # incs) - ivs_set xs"
    unfolding ivs_set_simps(3) new1(3) new2(3) by auto
  moreover have "before a b" if ab: "a \<in> set new1" "b \<in> set new2" for a b
  proof -
    obtain i where i: "i \<in> set incs" "iv_group b = iv_group i" "iv_start i \<le> iv_start b"
      using new2(4) ab(2) by blast
    have a: "iv_group a = iv_group inc" "iv_end a \<le> iv_end inc" using new1(4) ab(1) by auto
    show ?thesis using after [OF i(1)] a i(2,3) by (auto simp: before_def)
  qed
  then have "ordered_disjoint (new1 @ new2)"
    using new1(2) new2(2) by (auto simp: ordered_disjoint_def sorted_wrt_append)
  moreover have "\<forall>r \<in> set (new1 @ new2). \<exists>i \<in> set (inc # incs).
      iv_group r = iv_group i \<and> iv_start i \<le> iv_start r \<and> iv_end r \<le> iv_end i"
    using new1(4) new2(4) by auto
  moreover have "res = out @ (new1 @ new2)" by (simp add: new1(1) new2(1))
  ultimately show ?case by (intro exI [of _ "new1 @ new2"] conjI)
qed

lemma subtract_correct:
  assumes "ordered_disjoint incs" and "ordered_disjoint xs" and "subtract incs xs = Ok res"
  shows "ordered_disjoint res \<and> ivs_set res = ivs_set incs - ivs_set xs"
  using subtract_loop_correct [OF assms(1,2)] assms(3) by (force simp: subtract_def)

end
