(* ===== verification/Target_Properties.thy ===== *)
theory Target_Properties
  imports Targets
begin

text \<open>
  Correctness of \<^verbatim>\<open>target.rs\<close>: what each input denotes, that normalisation computes
  includes minus exclusions as an ordered list of disjoint intervals, and that lazy
  decoding enumerates every target of a family exactly once.
\<close>

section \<open>What an input denotes\<close>

fun endpoint_wf :: "TargetInput \<Rightarrow> bool" where
  "endpoint_wf (InputAddress v) \<longleftrightarrow> ip_wf (ep_address v)"
| "endpoint_wf (InputCidr v) \<longleftrightarrow> ip_wf (ep_address (network v))"
| "endpoint_wf (InputRange v) \<longleftrightarrow> ip_wf (ep_address (range_start v)) \<and> ip_wf (ep_address (range_end v))"

definition family_width :: "nat \<Rightarrow> nat" where
  "family_width fam = (if fam = 4 then 32 else 128)"

text \<open>
  Independent of masks: a CIDR block is the set of addresses that agree with the network
  address in everything above the host bits.
\<close>

fun input_set :: "TargetInput \<Rightarrow> (GroupKey \<times> nat) set" where
  "input_set (InputAddress v) =
     (let (fam, n) = address_numeric (ep_address v) in {(GroupKey fam (ep_scope v), n)})"
| "input_set (InputRange v) =
     (let (fam, s) = address_numeric (ep_address (range_start v));
          (_, e) = address_numeric (ep_address (range_end v))
      in {(g, n). g = GroupKey fam (ep_scope (range_start v)) \<and> s \<le> n \<and> n \<le> e})"
| "input_set (InputCidr v) =
     (let (fam, a) = address_numeric (ep_address (network v));
          h = family_width fam - prefix_length v
      in {(g, n). g = GroupKey fam (ep_scope (network v)) \<and> n div 2 ^ h = a div 2 ^ h})"

lemma address_numeric_bounds:
  assumes "ip_wf a" and "address_numeric a = (fam, n)"
  shows "fam = 4 \<or> fam = 6" and "n < 2 ^ family_width fam" and "n \<le> family_max fam"
proof -
  show fam: "fam = 4 \<or> fam = 6" using assms by (auto simp: address_numeric_def split: IpAddress.splits)
  show "n < 2 ^ family_width fam"
  proof (cases a)
    case (V4 os)
    with assms nat_of_be_less [of os] show ?thesis by (simp add: address_numeric_def family_width_def)
  next
    case (V6 os)
    with assms nat_of_be_less [of os] show ?thesis by (simp add: address_numeric_def family_width_def)
  qed
  then show "n \<le> family_max fam" by (auto simp: family_max_def family_width_def le_max_of_iff)
qed

lemma cidr_mask_eq: "h \<le> 128 \<Longrightarrow> cidr_mask h = NOT (mask h)"
  by (cases "h = 128") (auto simp: cidr_mask_def intro!: bit_word_eqI simp: bit_simps)

lemma family_mask_eq: "family_mask fam = mask (family_width fam)"
  by (simp add: family_mask_def family_width_def mask_numeral)

text \<open>The mask computation of \<^verbatim>\<open>cidr_interval\<close> in arithmetic.\<close>

lemma cidr_masks:
  fixes w :: u128
  assumes h: "h \<le> k" and k: "k \<le> 128" and a: "a < 2 ^ k" and w: "w = word_of_nat a"
  defines "s \<equiv> w AND NOT (mask h) AND mask k"
  shows "unat s = a div 2 ^ h * 2 ^ h"
    and "unat (s OR (NOT (NOT (mask h)) AND mask k)) = a div 2 ^ h * 2 ^ h + (2 ^ h - 1)"
proof -
  have a128: "a < 2 ^ 128"
    using a power_increasing [OF k, of "2::nat"] by linarith
  have uw: "unat w = a" using a128 by (simp add: w unat_of_nat)
  have "take_bit k w = w"
    using a by (simp add: w flip: of_nat_take_bit) (simp add: take_bit_nat_eq_self)
  then have "w AND mask k = w" by (simp add: take_bit_eq_mask)
  then have "s = w AND NOT (mask h)" unfolding s_def by (metis and.assoc and.commute)
  also have "\<dots> = push_bit h (drop_bit h w)" by (auto simp: bit_eq_iff bit_simps)
  finally have s: "s = push_bit h (drop_bit h w)" .
  have le: "a div 2 ^ h * 2 ^ h < 2 ^ 128" using a128 by (rule le_less_trans [rotated]) simp
  show us: "unat s = a div 2 ^ h * 2 ^ h"
    unfolding s unsigned_push_bit_eq unsigned_drop_bit_eq
    using le a128 by (simp add: uw push_bit_eq_mult drop_bit_eq_div take_bit_eq_mod)
  have "s OR (NOT (NOT (mask h)) AND mask k) = s OR mask h"
    using h by (auto simp: bit_eq_iff bit_simps)
  moreover have "unat (mask h :: u128) = mask h"
    unfolding take_bit_minus_one_eq_mask [symmetric] unsigned_take_bit_eq unsigned_minus_1_eq_mask
    using h k by (simp add: min_def)
  moreover have "unat s OR mask h = unat s + mask h"
  proof (rule disjunctive_add_eq_or [symmetric])
    show "unat s AND mask h = 0" unfolding us take_bit_eq_mask [symmetric] by (simp add: take_bit_eq_mod)
  qed
  ultimately show "unat (s OR (NOT (NOT (mask h)) AND mask k)) = a div 2 ^ h * 2 ^ h + (2 ^ h - 1)"
    by (simp add: unsigned_or_eq us mask_eq_exp_minus_1)
qed

lemma div_eq_iff_between:
  fixes n :: nat
  assumes "0 < d"
  shows "n div d = q \<longleftrightarrow> q * d \<le> n \<and> n \<le> q * d + (d - 1)"
proof
  assume "n div d = q"
  moreover have "n = n div d * d + n mod d" and "n mod d < d" using assms by simp_all
  ultimately show "q * d \<le> n \<and> n \<le> q * d + (d - 1)" by (metis add_le_cancel_left less_Suc_eq_le le_add1 Suc_pred' assms)
next
  assume "q * d \<le> n \<and> n \<le> q * d + (d - 1)"
  then have "q * d \<le> n" "n < Suc q * d" using assms by auto
  then show "n div d = q" by (simp add: div_nat_eqI mult.commute)
qed

lemma cidr_interval_correct:
  assumes wf: "ip_wf (ep_address (network v))" and ok: "cidr_interval v = Ok r"
  shows "iv_ok r \<and> iv_set r = input_set (InputCidr v)"
proof -
  obtain fam a where num: "address_numeric (ep_address (network v)) = (fam, a)" by force
  note bounds = address_numeric_bounds [OF wf num]
  let ?h = "family_width fam - prefix_length v" and ?w = "word_of_nat a :: u128"
  have fw: "family_width fam \<le> 128" by (simp add: family_width_def)
  define s where "s = ?w AND NOT (mask ?h) AND mask (family_width fam)"
  define e where "e = s OR (NOT (NOT (mask ?h)) AND mask (family_width fam))"
  note masks = cidr_masks [OF _ fw bounds(2) refl, of ?h, folded s_def, folded e_def]
  have r: "r = \<lparr>iv_group = GroupKey fam (ep_scope (network v)), iv_start = unat s, iv_end = unat e\<rparr>"
    using ok fw unfolding cidr_interval_def Let_def num e_def s_def
    by (auto simp: result_simps cidr_mask_eq family_mask_eq simp flip: family_width_def split: if_splits)
  have se: "unat s = a div 2 ^ ?h * 2 ^ ?h" "unat e = a div 2 ^ ?h * 2 ^ ?h + (2 ^ ?h - 1)"
    using masks by simp_all
  have "unat e < 2 ^ family_width fam"
  proof -
    have "a div 2 ^ ?h < 2 ^ (family_width fam - ?h)"
      using bounds(2) by (simp add: less_mult_imp_div_less flip: power_add)
    then have "Suc (a div 2 ^ ?h) * 2 ^ ?h \<le> 2 ^ (family_width fam - ?h) * 2 ^ ?h"
      by (intro mult_le_mono1) simp
    also have "\<dots> = 2 ^ family_width fam" by (simp flip: power_add)
    finally have "a div 2 ^ ?h * 2 ^ ?h + 2 ^ ?h \<le> 2 ^ family_width fam" by simp
    moreover have "0 < (2::nat) ^ ?h" by simp
    ultimately show ?thesis unfolding se(2) by linarith
  qed
  then have "unat e \<le> family_max fam"
    by (simp add: family_max_def family_width_def le_max_of_iff split: if_splits)
  moreover have "unat s \<le> unat e" unfolding se by (rule le_add1)
  ultimately have "iv_ok r" using bounds(1) unfolding r iv_ok_def by simp
  moreover have "iv_set r = input_set (InputCidr v)"
    unfolding r iv_set_def by (simp add: num se div_eq_iff_between Let_def)
  ultimately show ?thesis ..
qed

lemma input_interval_correct:
  assumes wf: "endpoint_wf i" and ok: "input_interval i = Ok r"
  shows "iv_ok r \<and> iv_set r = input_set i"
proof (cases i)
  case (InputAddress v)
  obtain fam a where num: "address_numeric (ep_address v) = (fam, a)" by force
  then show ?thesis
    using ok wf InputAddress address_numeric_bounds [OF _ num]
    by (auto simp: input_interval_def result_simps iv_ok_def iv_set_def)
next
  case (InputCidr v)
  then show ?thesis using assms cidr_interval_correct by (auto simp: input_interval_def)
next
  case (InputRange v)
  obtain fam s where s: "address_numeric (ep_address (range_start v)) = (fam, s)" by force
  obtain fam' e where e: "address_numeric (ep_address (range_end v)) = (fam', e)" by force
  show ?thesis
    using ok wf InputRange address_numeric_bounds [OF _ s] address_numeric_bounds [OF _ e]
    by (auto simp: input_interval_def range_interval_def s e result_simps iv_ok_def iv_set_def
        split: if_splits)
qed

definition inputs_set :: "TargetInput list \<Rightarrow> (GroupKey \<times> nat) set" where
  "inputs_set is = (\<Union>i \<in> set is. input_set i)"

lemma rmap_inputs_correct:
  assumes "list_all endpoint_wf is" and "rmap input_interval is = Ok rs"
  shows "list_all iv_ok rs \<and> ivs_set rs = inputs_set is"
  using assms(1) assms(2) [unfolded rmap_Ok_iff] unfolding inputs_set_def
proof (induction "is" arbitrary: rs)
  case (Cons i "is")
  then obtain r rs' where "rs = r # rs'" "input_interval i = Ok r"
    "list_all2 (\<lambda>x y. input_interval x = Ok y) is rs'" by (auto simp: list_all2_Cons1)
  with Cons input_interval_correct [of i r] show ?case by simp
qed simp

lemma merge_inputs_correct:
  assumes "list_all endpoint_wf is" and "merge_inputs is = Ok rs"
  shows "ordered_disjoint rs \<and> ivs_set rs = inputs_set is"
proof -
  obtain rs0 where rs0: "rmap input_interval is = Ok rs0"
    and rs: "rs = merge_sorted (sort_key interval_key rs0)"
    using assms(2) by (auto simp: merge_inputs_def result_simps)
  note ok = rmap_inputs_correct [OF assms(1) rs0]
  have "ivs_set (sort_key interval_key rs0) = ivs_set rs0" by (rule ivs_set_cong) simp
  moreover have "list_all iv_ok (sort_key interval_key rs0)" using ok by (simp add: list_all_iff)
  ultimately show ?thesis
    using merge_sorted_correct [of "sort_key interval_key rs0"] ok rs by simp
qed

section \<open>Counting and indexing\<close>

definition iv_count :: "RawInterval \<Rightarrow> nat" where
  "iv_count r = iv_end r - iv_start r + 1"

definition fam_raws :: "nat \<Rightarrow> RawInterval list \<Rightarrow> RawInterval list" where
  "fam_raws fam rs = [r \<leftarrow> rs. gk_family (iv_group r) = fam]"

text \<open>The index vector of one family: its intervals in order with running totals.\<close>

definition family_index ::
  "NormalizedInterval list \<Rightarrow> nat list \<Rightarrow> nat \<Rightarrow> RawInterval list \<Rightarrow> bool" where
  "family_index ivs idxs cnt raws \<longleftrightarrow>
     (\<forall>i \<in> set idxs. i < length ivs) \<and>
     map (\<lambda>i. raw (ivs ! i)) idxs = raws \<and>
     map (\<lambda>i. family_end (ivs ! i)) idxs = running_totals (map iv_count raws) \<and>
     cnt = sum_list (map iv_count raws)"

definition ts_ok :: "TargetSet \<Rightarrow> bool" where
  "ts_ok ts \<longleftrightarrow>
     ordered_disjoint (map raw (intervals ts)) \<and>
     family_index (intervals ts) (ipv4_indices ts) (ipv4_count ts) (fam_raws 4 (map raw (intervals ts))) \<and>
     family_index (intervals ts) (ipv6_indices ts) (ipv6_count ts) (fam_raws 6 (map raw (intervals ts))) \<and>
     target_count ts \<le> max_of 64"

definition ts_set :: "TargetSet \<Rightarrow> (GroupKey \<times> nat) set" where
  "ts_set ts = ivs_set (map raw (intervals ts))"

lemma running_totals_snoc: "running_totals (ns @ [n]) = running_totals ns @ [sum_list ns + n]"
  by (rule nth_equalityI) (auto simp: nth_running_totals nth_append prefix_sum_def less_Suc_eq)

lemma family_index_other:
  "family_index ivs idxs cnt raws \<Longrightarrow> family_index (ivs @ [x]) idxs cnt raws"
  unfolding family_index_def by (auto simp: nth_append cong: map_cong)

lemma family_index_same:
  assumes "family_index ivs idxs cnt raws" and "t = cnt + iv_count r"
  shows "family_index (ivs @ [\<lparr>raw = r, family_end = t\<rparr>]) (idxs @ [length ivs]) t (raws @ [r])"
  using family_index_other [OF assms(1), of "\<lparr>raw = r, family_end = t\<rparr>"] assms
  unfolding family_index_def by (auto simp: running_totals_snoc)

definition rep :: "TargetSet \<Rightarrow> RawInterval list \<Rightarrow> bool" where
  "rep ts rs \<longleftrightarrow> map raw (intervals ts) = rs \<and>
     family_index (intervals ts) (ipv4_indices ts) (ipv4_count ts) (fam_raws 4 rs) \<and>
     family_index (intervals ts) (ipv6_indices ts) (ipv6_count ts) (fam_raws 6 rs)"

lemma rep_empty: "rep empty_target_set []"
  by (simp add: rep_def empty_target_set_def fam_raws_def family_index_def running_totals_def)

lemma interval_count_Some: "interval_count r = Some c \<longleftrightarrow> c = iv_count r \<and> c \<le> max_of 128"
  by (auto simp: interval_count_def iv_count_def result_simps)

lemma normalize_step_rep:
  assumes "rep ts rs" and "iv_ok r" and "normalize_step ts r = Ok ts'"
  shows "rep ts' (rs @ [r])"
proof -
  have fam: "gk_family (iv_group r) = 4 \<or> gk_family (iv_group r) = 6"
    using assms(2) by (simp add: iv_ok_def)
  have ic: "Option.bind (interval_count r) (try_from 64) = Some (iv_count r)"
    using assms(3) by (auto simp: normalize_step_def result_simps bind_eq_Some_conv interval_count_Some)
  show ?thesis
  proof (cases "gk_family (iv_group r) = 4")
    case True
    with assms(3) ic have ts': "ts' = ts\<lparr>ipv4_count := ipv4_count ts + iv_count r,
        intervals := intervals ts @ [\<lparr>raw = r, family_end = ipv4_count ts + iv_count r\<rparr>],
        ipv4_indices := ipv4_indices ts @ [length (intervals ts)]\<rparr>"
      by (auto simp: normalize_step_def result_simps Let_def)
    show ?thesis
      using assms(1) True unfolding ts' rep_def
      by (auto simp: fam_raws_def intro: family_index_same [OF _ refl] family_index_other)
  next
    case False
    with assms(3) ic have ts': "ts' = ts\<lparr>ipv6_count := ipv6_count ts + iv_count r,
        intervals := intervals ts @ [\<lparr>raw = r, family_end = ipv6_count ts + iv_count r\<rparr>],
        ipv6_indices := ipv6_indices ts @ [length (intervals ts)]\<rparr>"
      by (auto simp: normalize_step_def result_simps Let_def)
    show ?thesis
      using assms(1) False fam unfolding ts' rep_def
      by (auto simp: fam_raws_def intro: family_index_same [OF _ refl] family_index_other)
  qed
qed

lemma normalize_loop_rep:
  "rep ts rs \<Longrightarrow> list_all iv_ok rs' \<Longrightarrow> normalize_loop rs' ts = Ok ts' \<Longrightarrow> rep ts' (rs @ rs')"
proof (induction rs' arbitrary: ts rs)
  case (Cons r rs')
  then obtain ts1 where "normalize_step ts r = Ok ts1" "normalize_loop rs' ts1 = Ok ts'"
    by (auto simp: result_simps)
  with Cons normalize_step_rep [of ts rs r ts1] show ?case by fastforce
qed simp

lemma normalize_rep:
  assumes "list_all endpoint_wf includes" and "list_all endpoint_wf excludes"
    and "normalize includes excludes = Ok ts"
  shows "ts_ok ts \<and> intervals ts \<noteq> [] \<and> ts_set ts = inputs_set includes - inputs_set excludes"
proof -
  obtain incs excs applied where
    m: "merge_inputs includes = Ok incs" "merge_inputs excludes = Ok excs"
    and sub: "subtract incs excs = Ok applied" and ne: "applied \<noteq> []"
    and loop: "normalize_loop applied empty_target_set = Ok ts"
    and total: "ipv4_count ts + ipv6_count ts \<le> max_of 64"
    using assms(3) by (auto simp: normalize_def result_simps split: if_splits)
  note incs = merge_inputs_correct [OF assms(1) m(1)] and excs = merge_inputs_correct [OF assms(2) m(2)]
  have app: "ordered_disjoint applied" "ivs_set applied = inputs_set includes - inputs_set excludes"
    using subtract_correct [OF _ _ sub] incs excs by auto
  then have "rep ts applied"
    using normalize_loop_rep [OF rep_empty _ loop] by (simp add: ordered_disjoint_def)
  then show ?thesis
    using app ne total by (auto simp: rep_def ts_ok_def ts_set_def target_count_def)
qed

lemma ordered_disjoint_nth:
  assumes "ordered_disjoint rs" and "b < length rs" and "c < length rs" and "b \<noteq> c"
  shows "iv_set (rs ! b) \<inter> iv_set (rs ! c) = {}"
proof (cases "b < c")
  case True
  then have "before (rs ! b) (rs ! c)"
    using assms by (simp add: ordered_disjoint_def sorted_wrt_iff_nth_less)
  then show ?thesis by (rule before_disjoint)
next
  case False
  then have "before (rs ! c) (rs ! b)"
    using assms by (simp add: ordered_disjoint_def sorted_wrt_iff_nth_less)
  then have "iv_set (rs ! c) \<inter> iv_set (rs ! b) = {}" by (rule before_disjoint)
  then show ?thesis by blast
qed

definition nth_address :: "RawInterval list \<Rightarrow> nat \<times> nat \<Rightarrow> GroupKey \<times> nat" where
  "nth_address rs = (\<lambda>(b, off). (iv_group (rs ! b), iv_start (rs ! b) + off))"

lemma nth_address_mem:
  assumes "ordered_disjoint rs" and "b < length rs"
  shows "off < iv_count (rs ! b) \<longleftrightarrow> nth_address rs (b, off) \<in> iv_set (rs ! b)"
proof -
  have "iv_start (rs ! b) \<le> iv_end (rs ! b)"
    using assms by (simp add: ordered_disjoint_def list_all_length iv_ok_def)
  then show ?thesis by (auto simp: nth_address_def iv_set_def iv_count_def)
qed

lemma nth_address_bij:
  assumes od: "ordered_disjoint rs"
  shows "bij_betw (nth_address rs) {(b, off). b < length rs \<and> off < map iv_count rs ! b} (ivs_set rs)"
    (is "bij_betw _ ?D _")
proof (rule bij_betw_imageI)
  show "inj_on (nth_address rs) ?D"
  proof (rule inj_onI)
    fix x y assume "x \<in> ?D" "y \<in> ?D" and eq: "nth_address rs x = nth_address rs y"
    then obtain b i c j where x: "x = (b, i)" "b < length rs" "i < iv_count (rs ! b)"
      and y: "y = (c, j)" "c < length rs" "j < iv_count (rs ! c)" by auto
    have "nth_address rs x \<in> iv_set (rs ! b)" "nth_address rs x \<in> iv_set (rs ! c)"
      using nth_address_mem [OF od] x y eq by auto
    then have "b = c" using ordered_disjoint_nth [OF od x(2) y(2)] by auto
    then show "x = y" using eq x y by (simp add: nth_address_def)
  qed
  show "nth_address rs ` ?D = ivs_set rs"
  proof
    show "nth_address rs ` ?D \<subseteq> ivs_set rs"
      using nth_address_mem [OF od] by (force simp: ivs_set_def intro!: bexI [OF _ nth_mem])
    show "ivs_set rs \<subseteq> nth_address rs ` ?D"
    proof
      fix p assume "p \<in> ivs_set rs"
      then obtain b where b: "b < length rs" "p \<in> iv_set (rs ! b)"
        by (auto simp: ivs_set_def in_set_conv_nth)
      then have p: "p = nth_address rs (b, snd p - iv_start (rs ! b))"
        by (auto simp: nth_address_def iv_set_def)
      then have "snd p - iv_start (rs ! b) < iv_count (rs ! b)"
        using nth_address_mem [OF od b(1)] b(2) by simp
      with b(1) show "p \<in> nth_address rs ` ?D"
        by (intro image_eqI [where f = "nth_address rs", OF p]) simp
    qed
  qed
qed

text \<open>The address at a flat index of an ordered list of intervals.\<close>

definition flat_address :: "RawInterval list \<Rightarrow> nat \<Rightarrow> GroupKey \<times> nat" where
  "flat_address rs i =
     (let ns = map iv_count rs; b = block_of ns i in nth_address rs (b, i - prefix_sum ns b))"

lemma flat_address_bij:
  assumes "ordered_disjoint rs"
  shows "bij_betw (flat_address rs) {..<sum_list (map iv_count rs)} (ivs_set rs)"
proof -
  let ?ns = "map iv_count rs"
  have "bij_betw (\<lambda>i. (block_of ?ns i, i - prefix_sum ?ns (block_of ?ns i)))
      {..<sum_list ?ns} {(b, off). b < length rs \<and> off < ?ns ! b}"
    using block_offset_bij [of ?ns] by simp
  from bij_betw_trans [OF this nth_address_bij [OF assms]]
  show ?thesis by (simp add: flat_address_def [abs_def] o_def Let_def)
qed

lemma card_ivs_set: "ordered_disjoint rs \<Longrightarrow> card (ivs_set rs) = sum_list (map iv_count rs)"
  using bij_betw_same_card [OF flat_address_bij] by simp

lemma fam_raws_ordered: "ordered_disjoint rs \<Longrightarrow> ordered_disjoint (fam_raws fam rs)"
  by (auto simp: ordered_disjoint_def fam_raws_def sorted_wrt_filter list_all_iff)

lemma ivs_set_fam_raws: "ivs_set (fam_raws fam rs) = {p \<in> ivs_set rs. gk_family (fst p) = fam}"
  by (auto simp: ivs_set_def fam_raws_def iv_set_def)

definition family_count :: "TargetSet \<Rightarrow> nat \<Rightarrow> nat" where
  "family_count ts fam = (if fam = 4 then ipv4_count ts else ipv6_count ts)"

definition target_of :: "nat \<Rightarrow> GroupKey \<times> nat \<Rightarrow> ScanTarget" where
  "target_of fam = (\<lambda>(g, n). ScanTarget (if fam = 4 then V4 (be_of_nat 4 n) else V6 (be_of_nat 16 n)) (gk_scope g))"

lemma numeric_address_Some:
  assumes "fam = 4 \<or> fam = 6" and "n \<le> family_max fam"
  shows "numeric_address fam n = Some (target_address (target_of fam (g, n)))"
  using assms by (auto simp: numeric_address_def family_max_def target_of_def try_from_def)

text \<open>Lazy decoding computes the address at the flat index of the family's intervals.\<close>

lemma target_at_family_flat:
  assumes ok: "ts_ok ts" and fam: "fam = 4 \<or> fam = 6"
  defines "rs \<equiv> fam_raws fam (map raw (intervals ts))"
  shows "target_at_family ts fam i =
    (if i < family_count ts fam then Some (target_of fam (flat_address rs i)) else None)"
proof -
  let ?idx = "if fam = 4 then ipv4_indices ts else ipv6_indices ts"
  let ?ns = "map iv_count rs" and ?P = "\<lambda>k. family_end (intervals ts ! k) \<le> i"
  have fi: "family_index (intervals ts) ?idx (family_count ts fam) rs"
    using ok fam by (auto simp: ts_ok_def rs_def family_count_def)
  then have maps: "map (\<lambda>k. raw (intervals ts ! k)) ?idx = rs"
      "map (\<lambda>k. family_end (intervals ts ! k)) ?idx = running_totals ?ns"
    and cnt: "family_count ts fam = sum_list ?ns"
    by (simp_all add: family_index_def)
  have len: "length ?idx = length rs" using arg_cong [OF maps(1), of length] by simp
  have raws: "raw (intervals ts ! (?idx ! k)) = rs ! k" if "k < length rs" for k
    using that len by (metis maps(1) nth_map)
  have ends: "family_end (intervals ts ! (?idx ! k)) = prefix_sum ?ns (Suc k)" if "k < length rs" for k
    using that len nth_running_totals [of k ?ns] by (metis length_map maps(2) nth_map)
  have pp: "partition_point ?P ?idx = block_of ?ns i"
    unfolding block_of_def maps(2) [symmetric] by (simp add: partition_point_map o_def)
  have od: "ordered_disjoint rs" unfolding rs_def using ok by (simp add: fam_raws_ordered ts_ok_def)
  show ?thesis
  proof (cases "i < family_count ts fam")
    case False
    then have "block_of ?ns i = length rs" using block_of_beyond [of ?ns i] cnt by simp
    then show ?thesis using False fam pp len by (simp add: target_at_family_def Let_def)
  next
    case True
    define b where "b = block_of ?ns i"
    define off where "off = i - prefix_sum ?ns b"
    have b: "b < length rs" "prefix_sum ?ns b \<le> i" "i < prefix_sum ?ns (Suc b)"
      using block_of_bounds [of i ?ns] True cnt by (auto simp: b_def)
    have prev: "(if b = 0 then 0 else family_end (intervals ts ! (?idx ! (b - 1)))) = prefix_sum ?ns b"
      using b(1) ends [of "b - 1"] by simp
    have flat: "flat_address rs i = (iv_group (rs ! b), iv_start (rs ! b) + off)"
      by (simp add: flat_address_def nth_address_def b_def off_def Let_def)
    have "off < iv_count (rs ! b)" using b prefix_sum_Suc [of b ?ns] by (simp add: off_def)
    then have mem: "nth_address rs (b, off) \<in> iv_set (rs ! b)"
      using nth_address_mem [OF od b(1)] by blast
    have rb: "iv_ok (rs ! b)" "gk_family (iv_group (rs ! b)) = fam"
      using od b(1) nth_mem [OF b(1)]
      by (auto simp: ordered_disjoint_def list_all_length rs_def fam_raws_def)
    have le: "iv_start (rs ! b) + off \<le> family_max fam"
      using mem rb by (auto simp: nth_address_def iv_set_def iv_ok_def)
    have na: "numeric_address fam (iv_start (rs ! b) + off)
        = Some (target_address (target_of fam (flat_address rs i)))"
      unfolding flat by (rule numeric_address_Some [OF fam le])
    have ca: "checked_add 128 (iv_start (rs ! b)) off = Some (iv_start (rs ! b) + off)"
      using le family_max_le [of fam] by (simp add: checked_add_def)
    have cs: "checked_sub i (prefix_sum ?ns b) = Some off" using b(2) by (simp add: checked_sub_def off_def)
    have "target_at_family ts fam i
        = Some (ScanTarget (target_address (target_of fam (flat_address rs i))) (gk_scope (iv_group (rs ! b))))"
      using fam b(1) unfolding target_at_family_def Let_def pp b_def [symmetric] prev
      by (simp add: len raws cs ca na)
    then show ?thesis using True by (simp add: flat target_of_def)
  qed
qed

lemma target_of_inj: "inj_on (target_of fam) {(g, n). gk_family g = fam \<and> n \<le> family_max fam}"
proof (rule inj_onI, clarsimp)
  fix g n g' n'
  assume fam: "fam = gk_family g" "gk_family g' = gk_family g"
    and le: "n \<le> family_max (gk_family g)" "n' \<le> family_max (gk_family g)"
    and eq: "target_of (gk_family g) (g, n) = target_of (gk_family g) (g', n')"
  have scope: "gk_scope g = gk_scope g'" using eq by (simp add: target_of_def)
  have "n < 256 ^ 4" "n' < 256 ^ 4" if "gk_family g = 4"
    using le that by (simp_all add: family_max_def max_of_def)
  moreover have "n < 256 ^ 16" "n' < 256 ^ 16" if "gk_family g \<noteq> 4"
    using le that by (simp_all add: family_max_def max_of_def)
  ultimately have "n = n'"
    using eq unfolding target_of_def
    by (cases "gk_family g = 4") (auto dest!: arg_cong [where f = nat_of_be] simp: nat_of_be_of_nat)
  then show "g = g' \<and> n = n'" using scope fam by (simp add: GroupKey.expand)
qed

lemma ivs_set_bounds:
  "list_all iv_ok rs \<Longrightarrow> (g, n) \<in> ivs_set rs \<Longrightarrow> n \<le> family_max (gk_family g) \<and> (gk_family g = 4 \<or> gk_family g = 6)"
  by (fastforce simp: mem_ivs_set iv_ok_def list_all_iff)

lemma target_at_family_bij:
  assumes ok: "ts_ok ts" and fam: "fam = 4 \<or> fam = 6"
  shows "bij_betw (target_at_family ts fam) {..<family_count ts fam}
    (Some ` target_of fam ` {p \<in> ts_set ts. gk_family (fst p) = fam})"
proof -
  let ?rs = "fam_raws fam (map raw (intervals ts))"
  have od: "ordered_disjoint ?rs" using ok by (simp add: fam_raws_ordered ts_ok_def)
  have cnt: "family_count ts fam = sum_list (map iv_count ?rs)"
    using ok fam by (auto simp: ts_ok_def family_index_def family_count_def)
  have set: "ivs_set ?rs = {p \<in> ts_set ts. gk_family (fst p) = fam}"
    by (simp add: ivs_set_fam_raws ts_set_def)
  have "ivs_set ?rs \<subseteq> {(g, n). gk_family g = fam \<and> n \<le> family_max fam}"
    using ivs_set_bounds [of ?rs] od unfolding ordered_disjoint_def by (auto simp: ivs_set_fam_raws)
  then have "inj_on (target_of fam) (ivs_set ?rs)" using target_of_inj inj_on_subset by blast
  then have "bij_betw (Some \<circ> target_of fam) (ivs_set ?rs) (Some ` target_of fam ` ivs_set ?rs)"
    by (auto simp: bij_betw_def inj_on_def image_comp)
  from bij_betw_trans [OF flat_address_bij [OF od] this]
  have "bij_betw (\<lambda>i. Some (target_of fam (flat_address ?rs i))) {..<family_count ts fam}
      (Some ` target_of fam ` ivs_set ?rs)"
    by (simp add: cnt o_def)
  then show ?thesis
    unfolding set using target_at_family_flat [OF ok fam]
    by (subst bij_betw_cong [where g = "\<lambda>i. Some (target_of fam (flat_address ?rs i))"]) simp_all
qed

lemma sum_list_fam_raws:
  "list_all iv_ok rs \<Longrightarrow> sum_list (map iv_count rs)
     = sum_list (map iv_count (fam_raws 4 rs)) + sum_list (map iv_count (fam_raws 6 rs))"
  by (induction rs) (auto simp: fam_raws_def iv_ok_def)

lemma ts_card:
  assumes "ts_ok ts"
  shows "card (ts_set ts) = target_count ts"
proof -
  let ?rs = "map raw (intervals ts)"
  have "list_all iv_ok ?rs" using assms by (simp add: ts_ok_def ordered_disjoint_def)
  from sum_list_fam_raws [OF this] show ?thesis
    using assms card_ivs_set [of ?rs]
    by (simp add: ts_ok_def ts_set_def family_index_def target_count_def)
qed

text \<open>The targets a set of pairs stands for.\<close>

definition targets_in :: "nat \<Rightarrow> (GroupKey \<times> nat) set \<Rightarrow> ScanTarget set" where
  "targets_in fam S = {ScanTarget a sc |a sc.
     ip_wf a \<and> fst (address_numeric a) = fam \<and> (GroupKey fam sc, snd (address_numeric a)) \<in> S}"

lemma target_of_address:
  assumes "fam = 4 \<or> fam = 6" and "n \<le> family_max fam"
  shows "ip_wf (target_address (target_of fam (g, n)))"
    and "address_numeric (target_address (target_of fam (g, n))) = (fam, n)"
  using assms nat_of_be_of_nat [of n 4] nat_of_be_of_nat [of n 16]
  by (auto simp: target_of_def address_numeric_def family_max_def max_of_def)

lemma target_of_numeric:
  "ip_wf a \<Longrightarrow> address_numeric a = (fam, n) \<Longrightarrow> target_of fam (GroupKey fam sc, n) = ScanTarget a sc"
  using be_of_nat_of_be [of "octets a"]
  by (cases a) (auto simp: target_of_def address_numeric_def)

lemma targets_in_image:
  assumes "list_all iv_ok rs" and fam: "fam = 4 \<or> fam = 6"
  shows "target_of fam ` {p \<in> ivs_set rs. gk_family (fst p) = fam} = targets_in fam (ivs_set rs)"
    (is "?L = ?R")
proof
  show "?L \<subseteq> ?R"
  proof
    fix t assume "t \<in> ?L"
    then obtain g n where p: "(g, n) \<in> ivs_set rs" "gk_family g = fam" "t = target_of fam (g, n)" by auto
    have n: "n \<le> family_max fam" using ivs_set_bounds [OF assms(1) p(1)] p(2) by simp
    have "GroupKey fam (target_scope t) = g"
      using p by (auto simp: target_of_def intro: GroupKey.expand)
    then show "t \<in> ?R"
      using target_of_address [OF fam n, of g] p unfolding targets_in_def
      by (intro CollectI exI [of _ "target_address t"] exI [of _ "target_scope t"]) simp
  qed
  show "?R \<subseteq> ?L"
  proof
    fix t assume "t \<in> ?R"
    then obtain a sc n where t: "t = ScanTarget a sc" "ip_wf a" "address_numeric a = (fam, n)"
      "(GroupKey fam sc, n) \<in> ivs_set rs" unfolding targets_in_def by force
    then have "t = target_of fam (GroupKey fam sc, n)" by (simp add: target_of_numeric)
    moreover have "(GroupKey fam sc, n) \<in> {p \<in> ivs_set rs. gk_family (fst p) = fam}" using t(4) by simp
    ultimately show "t \<in> ?L" by blast
  qed
qed

section \<open>Properties\<close>

definition example_endpoint :: "u8 \<Rightarrow> TargetEndpoint" where
  "example_endpoint x = \<lparr>ep_address = V4 [10, 0, 0, x], ep_scope = None\<rparr>"

definition example_includes :: "TargetInput list" where
  "example_includes =
     [InputAddress (example_endpoint 9),
      InputCidr \<lparr>network = example_endpoint 2, prefix_length = 30\<rparr>]"

definition example_excludes :: "TargetInput list" where
  "example_excludes = [InputRange \<lparr>range_start = example_endpoint 1, range_end = example_endpoint 2\<rparr>]"

definition example_targets :: TargetSet where
  "example_targets =
     \<lparr>intervals =
        [\<lparr>raw = \<lparr>iv_group = GroupKey 4 None, iv_start = 167772160, iv_end = 167772160\<rparr>, family_end = 1\<rparr>,
         \<lparr>raw = \<lparr>iv_group = GroupKey 4 None, iv_start = 167772163, iv_end = 167772163\<rparr>, family_end = 2\<rparr>,
         \<lparr>raw = \<lparr>iv_group = GroupKey 4 None, iv_start = 167772169, iv_end = 167772169\<rparr>, family_end = 3\<rparr>],
      ipv4_indices = [0, 1, 2], ipv6_indices = [], ipv4_count = 3, ipv6_count = 0\<rparr>"

lemma example_intervals:
  "input_interval (InputAddress (example_endpoint 9))
     = Ok \<lparr>iv_group = GroupKey 4 None, iv_start = 167772169, iv_end = 167772169\<rparr>"
  "input_interval (InputCidr \<lparr>network = example_endpoint 2, prefix_length = 30\<rparr>)
     = Ok \<lparr>iv_group = GroupKey 4 None, iv_start = 167772160, iv_end = 167772163\<rparr>"
  "input_interval (InputRange \<lparr>range_start = example_endpoint 1, range_end = example_endpoint 2\<rparr>)
     = Ok \<lparr>iv_group = GroupKey 4 None, iv_start = 167772161, iv_end = 167772162\<rparr>"
  by (simp_all add: input_interval_def validate_scope_def requires_scope_def example_endpoint_def
      address_numeric_def cidr_interval_def range_interval_def validate_interval_scope_def Let_def
      cidr_mask_def family_mask_def mask_numeral)

lemma example_normalize: "normalize example_includes example_excludes = Ok example_targets"
  by (simp add: normalize_def example_includes_def example_excludes_def bounds_defs merge_inputs_def
      example_intervals interval_key_def less_eq_prod_simp merge_sorted_def saturating_add_def
      max_of_def subtract_def skip_exclusion_def push_output_def normalize_step_def interval_count_def
      checked_add_def try_from_def empty_target_set_def example_targets_def)

lemma example_wf: "list_all endpoint_wf example_includes" "list_all endpoint_wf example_excludes"
  by (simp_all add: example_includes_def example_excludes_def example_endpoint_def)

lemma example_counts: "target_count example_targets = 3" "family_count example_targets 4 = 3"
  by (simp_all add: target_count_def family_count_def example_targets_def)

lemma ranges_intersect_iff:
  "s \<le> e \<Longrightarrow> a \<le> b \<Longrightarrow> ranges_intersect s e a b \<longleftrightarrow> (\<exists>n. s \<le> n \<and> n \<le> e \<and> a \<le> n \<and> n \<le> b)"
  unfolding ranges_intersect_def by (auto intro: exI [of _ "max s a"])

text \<open>IPv4 multicast (224.0.0.0/4) or limited broadcast, or IPv6 multicast (ff00::/8).\<close>

definition multicast :: "nat \<Rightarrow> nat \<Rightarrow> bool" where
  "multicast fam n \<longleftrightarrow>
     fam = 4 \<and> (n div 2 ^ 28 = 0xe \<or> n = 0xffffffff) \<or> fam = 6 \<and> n div 2 ^ 120 = 0xff"

lemma multicast_iff:
  "multicast fam n \<longleftrightarrow>
     fam = 4 \<and> (0xe0000000 \<le> n \<and> n \<le> 0xefffffff \<or> n = 0xffffffff) \<or>
     fam = 6 \<and> 0xff000000000000000000000000000000 \<le> n \<and> n \<le> max_of 128"
  by (simp add: multicast_def div_eq_iff_between max_of_def)

lemma interval_multicast:
  assumes "s \<le> e"
  shows "(if fam = 4 then ranges_intersect s e 0xe0000000 0xefffffff \<or> ranges_intersect s e 0xffffffff 0xffffffff
      else if fam = 6 then ranges_intersect s e 0xff000000000000000000000000000000 (max_of 128)
      else False) \<longleftrightarrow> (\<exists>n. s \<le> n \<and> n \<le> e \<and> multicast fam n)"
proof -
  have "(0xff000000000000000000000000000000::nat) \<le> max_of 128" by (simp add: max_of_def)
  note ri = ranges_intersect_iff [OF assms] and ri6 = ranges_intersect_iff [OF assms this]
  show ?thesis
  proof (cases "fam = 4")
    case True
    have "ranges_intersect s e 0xe0000000 0xefffffff \<longleftrightarrow> (\<exists>n. s \<le> n \<and> n \<le> e \<and> 0xe0000000 \<le> n \<and> n \<le> 0xefffffff)"
      by (rule ri) simp
    moreover have "ranges_intersect s e 0xffffffff 0xffffffff \<longleftrightarrow> s \<le> 0xffffffff \<and> 0xffffffff \<le> e"
      by (auto simp: ranges_intersect_def)
    ultimately show ?thesis using True by (auto simp: multicast_iff)
  next
    case False
    then show ?thesis by (auto simp: multicast_iff ri6)
  qed
qed

text \<open>
  C22. A target set that \<^verbatim>\<open>normalize\<close> returns is an ordered list of disjoint
  intervals that denotes exactly the included addresses that are not excluded. It is not
  empty, and its reported count is the number of these addresses and fits in 64 bits.
\<close>

theorem normalize_denotes:
  assumes "list_all endpoint_wf includes" and "list_all endpoint_wf excludes"
    and "normalize includes excludes = Ok ts"
  shows "ordered_disjoint (map raw (intervals ts)) \<and>
    ts_set ts = inputs_set includes - inputs_set excludes \<and> ts_set ts \<noteq> {} \<and>
    card (ts_set ts) = target_count ts \<and> target_count ts \<le> max_of 64"
proof -
  note rep = normalize_rep [OF assms]
  then have ok: "ts_ok ts" and ne: "intervals ts \<noteq> []" by simp_all
  then obtain i where i: "i \<in> set (intervals ts)" by (cases "intervals ts") auto
  then have "(iv_group (raw i), iv_start (raw i)) \<in> ts_set ts"
    using ok by (fastforce simp: ts_set_def mem_ivs_set ts_ok_def ordered_disjoint_def list_all_iff iv_ok_def)
  with rep ts_card [OF ok] show ?thesis by (auto simp: ts_ok_def)
qed

theorem normalize_denotes_witness:
  "ordered_disjoint (map raw (intervals example_targets)) \<and>
   ts_set example_targets = inputs_set example_includes - inputs_set example_excludes \<and>
   ts_set example_targets \<noteq> {} \<and> card (ts_set example_targets) = 3"
  using normalize_denotes [OF example_wf example_normalize] unfolding example_counts by blast

text \<open>
  C23. Lazy decoding enumerates the targets of a family: \<^verbatim>\<open>target_at_family\<close> maps the
  indices below the family's count one to one onto the addresses of that family that are
  included and not excluded, and answers nothing beyond.
\<close>

theorem target_at_family_enumerates:
  assumes wf: "list_all endpoint_wf includes" "list_all endpoint_wf excludes"
    and norm: "normalize includes excludes = Ok ts" and fam: "fam = 4 \<or> fam = 6"
  shows "bij_betw (target_at_family ts fam) {..<family_count ts fam}
      (Some ` targets_in fam (inputs_set includes - inputs_set excludes)) \<and>
    (\<forall>i. target_at_family ts fam i = None \<longleftrightarrow> family_count ts fam \<le> i)"
proof -
  note rep = normalize_rep [OF wf norm]
  then have ok: "ts_ok ts" by simp
  then have "list_all iv_ok (map raw (intervals ts))" by (simp add: ts_ok_def ordered_disjoint_def)
  from targets_in_image [OF this fam] rep
  have "target_of fam ` {p \<in> ts_set ts. gk_family (fst p) = fam}
      = targets_in fam (inputs_set includes - inputs_set excludes)"
    by (simp add: ts_set_def)
  with target_at_family_bij [OF ok fam] target_at_family_flat [OF ok fam] show ?thesis by simp
qed

theorem target_at_family_enumerates_witness:
  "bij_betw (target_at_family example_targets 4) {..<3}
     (Some ` targets_in 4 (inputs_set example_includes - inputs_set example_excludes)) \<and>
   target_at_family example_targets 4 3 = None"
  using target_at_family_enumerates [OF example_wf example_normalize, of 4]
  unfolding example_counts by simp

text \<open>
  C31. The membership test and the multicast guard are exact: \<^verbatim>\<open>contains\<close> holds of an
  endpoint iff it is included and not excluded, and the guard holds iff some such address
  is an IPv4 multicast address, the limited broadcast address or an IPv6 multicast address.
\<close>

theorem target_tests_exact:
  assumes wf: "list_all endpoint_wf includes" "list_all endpoint_wf excludes"
    and norm: "normalize includes excludes = Ok ts"
  defines "S \<equiv> inputs_set includes - inputs_set excludes"
  shows "(\<forall>ep. ts_contains ts ep \<longleftrightarrow>
       (GroupKey (fst (address_numeric (ep_address ep))) (ep_scope ep),
        snd (address_numeric (ep_address ep))) \<in> S) \<and>
    (contains_multicast_or_limited_broadcast ts \<longleftrightarrow> (\<exists>(g, n) \<in> S. multicast (gk_family g) n))"
proof -
  note rep = normalize_rep [OF wf norm]
  have S: "S = ivs_set (map raw (intervals ts))" using rep by (simp add: S_def ts_set_def)
  have ok: "list_all iv_ok (map raw (intervals ts))"
    using rep by (simp add: ts_ok_def ordered_disjoint_def)
  have "ts_contains ts ep \<longleftrightarrow> (GroupKey (fst (address_numeric (ep_address ep))) (ep_scope ep),
      snd (address_numeric (ep_address ep))) \<in> S" for ep
    unfolding S by (force simp: ts_contains_def mem_ivs_set list_ex_iff Let_def split: prod.splits)
  moreover have "contains_multicast_or_limited_broadcast ts \<longleftrightarrow>
      (\<exists>i \<in> set (intervals ts). \<exists>n. iv_start (raw i) \<le> n \<and> n \<le> iv_end (raw i) \<and>
         multicast (gk_family (iv_group (raw i))) n)"
    unfolding contains_multicast_or_limited_broadcast_def list_ex_iff Let_def
    by (rule bex_cong [OF refl], rule interval_multicast)
      (use ok in \<open>auto simp: list_all_iff iv_ok_def\<close>)
  then have "contains_multicast_or_limited_broadcast ts \<longleftrightarrow> (\<exists>(g, n) \<in> S. multicast (gk_family g) n)"
    unfolding S by (auto simp: ivs_set_def iv_set_def)
  ultimately show ?thesis by blast
qed

theorem target_tests_exact_witness:
  "ts_contains example_targets (example_endpoint 9) \<and>
   (GroupKey 4 None, 167772169) \<in> inputs_set example_includes - inputs_set example_excludes \<and>
   \<not> (\<exists>(g, n) \<in> inputs_set example_includes - inputs_set example_excludes. multicast (gk_family g) n)"
proof -
  note tests = target_tests_exact [OF example_wf example_normalize]
  have c: "ts_contains example_targets (example_endpoint 9)"
    "\<not> contains_multicast_or_limited_broadcast example_targets"
    by (simp_all add: ts_contains_def contains_multicast_or_limited_broadcast_def example_targets_def
        example_endpoint_def address_numeric_def ranges_intersect_def)
  with tests have "(GroupKey (fst (address_numeric (ep_address (example_endpoint 9)))) (ep_scope (example_endpoint 9)),
      snd (address_numeric (ep_address (example_endpoint 9))))
      \<in> inputs_set example_includes - inputs_set example_excludes" by blast
  then have "(GroupKey 4 None, 167772169) \<in> inputs_set example_includes - inputs_set example_excludes"
    by (simp add: example_endpoint_def address_numeric_def)
  with c tests show ?thesis by blast
qed

section \<open>The two scope checks\<close>

lemma octet_link_local: "(b :: u8) AND 0xc0 = 0x80 \<longleftrightarrow> 0x80 \<le> unat b \<and> unat b \<le> 0xbf"
proof -
  have "(0xc0 :: u8) = NOT (mask 6)" by code_simp
  then have "b AND 0xc0 = b AND NOT (mask 6)" by simp
  also have "\<dots> = push_bit 6 (drop_bit 6 b)" by (auto simp: bit_eq_iff bit_simps)
  finally have eq: "b AND 0xc0 = push_bit 6 (drop_bit 6 b)" .
  have lt: "unat b < 256" using unsigned_less [of b, where ?'a = nat] by simp
  then have "unat b div 64 * 64 < 256" by (rule le_less_trans [rotated]) simp
  with lt have "unat (b AND 0xc0) = unat b div 64 * 64"
    unfolding eq unsigned_push_bit_eq unsigned_drop_bit_eq
    by (simp add: push_bit_eq_mult drop_bit_eq_div take_bit_eq_mod)
  moreover have "b AND 0xc0 = 0x80 \<longleftrightarrow> unat (b AND 0xc0) = unat (0x80 :: u8)"
    by (simp only: word_unat_eq_iff)
  ultimately have "b AND 0xc0 = 0x80 \<longleftrightarrow> unat b div 64 = 2" by simp
  then show ?thesis using div_eq_iff_between [of 64 "unat b" 2] by simp
qed

text \<open>The first two octets decide the interval check for a single address.\<close>

definition head16 :: "u8 list \<Rightarrow> nat" where
  "head16 os = unat (os ! 0) * 256 + unat (os ! 1)"

lemma nat_of_be_head16:
  assumes "length os = 16"
  shows "nat_of_be os div 2 ^ 112 = head16 os"
proof -
  obtain a b rest where os: "os = a # b # rest" "length rest = 14"
    using assms by (auto simp: numeral_eq_Suc length_Suc_conv)
  then have "nat_of_be rest < 256 ^ 14" using nat_of_be_less [of rest] by simp
  then have "(head16 os * 2 ^ 112 + nat_of_be rest) div 2 ^ 112 = head16 os" by simp
  then show ?thesis using os by (simp add: head16_def algebra_simps)
qed

lemma nat_of_be_replicate: "nat_of_be (replicate k 0) = 0" "Suc (nat_of_be (replicate k 255)) = 256 ^ k"
  by (induction k) auto

lemma block_between:
  fixes n :: nat
  assumes "0 < d"
  shows "a * d \<le> n \<and> n \<le> b * d + (d - 1) \<longleftrightarrow> a \<le> n div d \<and> n div d \<le> b"
proof -
  have "n \<le> b * d + (d - 1) \<longleftrightarrow> n < Suc b * d" using assms by auto
  also have "\<dots> \<longleftrightarrow> n div d \<le> b"
    using assms by (simp only: div_less_iff_less_mult [symmetric] less_Suc_eq_le)
  finally show ?thesis using assms by (simp add: less_eq_div_iff_mult_less_eq)
qed

lemma scoped_ranges_head16:
  assumes "length os = 16"
  shows "list_ex (\<lambda>(rs, re). nat_of_be os \<ge> rs \<and> nat_of_be os \<le> re) scoped_ranges \<longleftrightarrow>
    (0xfe80 \<le> head16 os \<and> head16 os \<le> 0xfebf) \<or> head16 os = 0xff01 \<or> head16 os = 0xff02"
proof -
  let ?n = "nat_of_be os"
  have rep: "nat_of_be (replicate 14 0) = 0" "nat_of_be (replicate 14 255) = 2 ^ 112 - 1"
    using nat_of_be_replicate [of 14] by simp_all
  have range: "nat_of_be ([a, b] @ replicate 14 0) \<le> ?n \<and> ?n \<le> nat_of_be ([c, d] @ replicate 14 255) \<longleftrightarrow>
      head16 [a, b] \<le> head16 os \<and> head16 os \<le> head16 [c, d]" for a b c d
    using block_between [of "2 ^ 112" "head16 [a, b]" ?n "head16 [c, d]"] rep
    unfolding nat_of_be_head16 [OF assms]
    by (simp add: head16_def algebra_simps)
  show ?thesis
    unfolding scoped_ranges_def list_ex_iff list.set bex_simps prod.case range by (auto simp: head16_def)
qed

lemma head16_between:
  assumes "hi < 256"
  shows "c * 256 + lo \<le> head16 os \<and> head16 os \<le> c * 256 + hi \<longleftrightarrow>
    unat (os ! 0) = c \<and> lo \<le> unat (os ! 1) \<and> unat (os ! 1) \<le> hi"
proof -
  have y: "unat (os ! 1) < 256" using unsigned_less [of "os ! 1", where ?'a = nat] by simp
  show ?thesis
  proof (cases "unat (os ! 0) = c")
    case True
    then show ?thesis by (simp add: head16_def)
  next
    case False
    then have "unat (os ! 0) * 256 + 256 \<le> c * 256 \<or> c * 256 + 256 \<le> unat (os ! 0) * 256" by linarith
    then have "\<not> (c * 256 + lo \<le> head16 os \<and> head16 os \<le> c * 256 + hi)"
      using y assms unfolding head16_def by linarith
    with False show ?thesis by blast
  qed
qed

lemma requires_scope_head16:
  assumes "length os = 16"
  shows "requires_scope (V6 os) \<longleftrightarrow>
    (0xfe80 \<le> head16 os \<and> head16 os \<le> 0xfebf) \<or>
    (os ! 0 = 0xff \<and> (os ! 1 AND 0x0f = 1 \<or> os ! 1 AND 0x0f = 2))"
proof -
  have "0xfe80 \<le> head16 os \<and> head16 os \<le> 0xfebf \<longleftrightarrow>
      unat (os ! 0) = 0xfe \<and> 0x80 \<le> unat (os ! 1) \<and> unat (os ! 1) \<le> 0xbf"
    using head16_between [of 191 254 128 os] by simp
  moreover have "os ! 0 = 0xfe \<longleftrightarrow> unat (os ! 0) = 0xfe" by (simp add: word_unat_eq_iff)
  ultimately show ?thesis by (auto simp: requires_scope_def octet_link_local)
qed

text \<open>A multicast address of interface or link scope whose flag bits are not all zero.\<close>

definition flagged_local_multicast :: "u8 list \<Rightarrow> bool" where
  "flagged_local_multicast os \<longleftrightarrow>
     os ! 0 = 0xff \<and> (os ! 1 AND 0x0f = 1 \<or> os ! 1 AND 0x0f = 2) \<and> os ! 1 \<noteq> 1 \<and> os ! 1 \<noteq> 2"

lemma is_ok_address_input:
  "is_ok (input_interval (InputAddress \<lparr>ep_address = V6 os, ep_scope = sc\<rparr>))
     \<longleftrightarrow> (requires_scope (V6 os) \<longleftrightarrow> sc \<noteq> None)"
  by (cases sc; cases "requires_scope (V6 os)")
    (auto simp: input_interval_def validate_scope_def address_numeric_def)

lemma is_ok_host_cidr:
  assumes "length os = 16"
  shows "is_ok (input_interval (InputCidr \<lparr>network = \<lparr>ep_address = V6 os, ep_scope = sc\<rparr>, prefix_length = 128\<rparr>))
     \<longleftrightarrow> (list_ex (\<lambda>(rs, re). nat_of_be os \<ge> rs \<and> nat_of_be os \<le> re) scoped_ranges \<longleftrightarrow> sc \<noteq> None)"
proof -
  have "nat_of_be os < 2 ^ 128" using nat_of_be_less [of os] assms by simp
  then have u: "unat (word_of_nat (nat_of_be os) :: u128) = nat_of_be os" by (simp add: unat_of_nat)
  have m: "cidr_mask 0 = - 1" "family_mask 6 = - 1" by (simp_all add: cidr_mask_def family_mask_def)
  have "(\<lambda>(rs, re). nat_of_be os \<le> re \<and> rs \<le> nat_of_be os) = (\<lambda>(rs, re). nat_of_be os \<ge> rs \<and> nat_of_be os \<le> re)"
    by auto
  then show ?thesis
    by (cases sc; cases "list_ex (\<lambda>(rs, re). nat_of_be os \<ge> rs \<and> nat_of_be os \<le> re) scoped_ranges")
      (simp_all add: input_interval_def cidr_interval_def address_numeric_def m u Let_def
        validate_interval_scope_def)
qed

text \<open>
  C32. An IPv6 host written as an address and the same host written as a /128 block are
  accepted with the same zone identifiers, except for interface- or link-scoped multicast
  addresses with a non-zero flag nibble: for these the address form demands a zone and the
  block form refuses one.
\<close>

theorem scope_checks_agree_iff:
  assumes "length os = 16"
  shows "(\<forall>sc. is_ok (input_interval (InputAddress \<lparr>ep_address = V6 os, ep_scope = sc\<rparr>)) \<longleftrightarrow>
      is_ok (input_interval (InputCidr
        \<lparr>network = \<lparr>ep_address = V6 os, ep_scope = sc\<rparr>, prefix_length = 128\<rparr>)))
    \<longleftrightarrow> \<not> flagged_local_multicast os"
proof -
  have heads: "head16 os = 0xff01 \<longleftrightarrow> os ! 0 = 0xff \<and> os ! 1 = 1"
    "head16 os = 0xff02 \<longleftrightarrow> os ! 0 = 0xff \<and> os ! 1 = 2"
    using head16_between [of 1 255 1 os]
      head16_between [of 2 255 2 os]
    by (auto simp: word_unat_eq_iff)
  have unicast: "os ! 0 \<noteq> 0xff" if "0xfe80 \<le> head16 os" "head16 os \<le> 0xfebf"
    using head16_between [of 191 254 128 os] that by auto
  have "(\<forall>sc. is_ok (input_interval (InputAddress \<lparr>ep_address = V6 os, ep_scope = sc\<rparr>)) \<longleftrightarrow>
      is_ok (input_interval (InputCidr
        \<lparr>network = \<lparr>ep_address = V6 os, ep_scope = sc\<rparr>, prefix_length = 128\<rparr>)))
    \<longleftrightarrow> (requires_scope (V6 os) \<longleftrightarrow>
         list_ex (\<lambda>(rs, re). nat_of_be os \<ge> rs \<and> nat_of_be os \<le> re) scoped_ranges)"
    unfolding is_ok_address_input is_ok_host_cidr [OF assms] by blast
  also have "\<dots> \<longleftrightarrow> \<not> flagged_local_multicast os"
    unfolding requires_scope_head16 [OF assms] scoped_ranges_head16 [OF assms] heads
    using unicast by (auto simp: flagged_local_multicast_def)
  finally show ?thesis .
qed

theorem scope_checks_agree_iff_witness:
  "\<exists>sc. is_ok (input_interval (InputAddress
        \<lparr>ep_address = V6 ([0xff, 0x12] @ replicate 13 0 @ [1]), ep_scope = sc\<rparr>)) \<noteq>
      is_ok (input_interval (InputCidr
        \<lparr>network = \<lparr>ep_address = V6 ([0xff, 0x12] @ replicate 13 0 @ [1]), ep_scope = sc\<rparr>, prefix_length = 128\<rparr>))"
  using scope_checks_agree_iff [of "[0xff, 0x12] @ replicate 13 0 @ [1]"]
  by (simp add: flagged_local_multicast_def)

end
