(* ===== verification/Effects.thy ===== *)
theory Effects
  imports Engine_Types
begin

text \<open>
  Stateful, fallible code. An action maps a state to a result and the state it leaves
  behind; an error keeps the changes made before it, as an early return through
  \<^verbatim>\<open>?\<close> does. A Rust panic is the separate fault \<open>Panic\<close>. Loops over a collected
  list of identifiers carry the \<^verbatim>\<open>break\<close> and \<^verbatim>\<open>continue\<close> of their body as a value.
  The second half is a weakest-precondition calculus for actions.
\<close>

named_theorems wp_simps "weakest preconditions of the action combinators"

section \<open>Actions\<close>

datatype Fault = Engine EngineError | Panic

type_synonym ('w, 'a) action = "'w \<Rightarrow> (Fault, 'a) result \<times> 'w"

definition sret :: "'a \<Rightarrow> ('w, 'a) action" where
  "sret a = (\<lambda>w. (Ok a, w))"

definition sfail :: "Fault \<Rightarrow> ('w, 'a) action" where
  "sfail e = (\<lambda>w. (Err e, w))"

definition sbind :: "('w, 'a) action \<Rightarrow> ('a \<Rightarrow> ('w, 'b) action) \<Rightarrow> ('w, 'b) action" where
  "sbind m f = (\<lambda>w. case m w of (Inl e, w') \<Rightarrow> (Err e, w') | (Inr a, w') \<Rightarrow> f a w')"

definition sthen :: "('w, unit) action \<Rightarrow> ('w, 'b) action \<Rightarrow> ('w, 'b) action" where
  "sthen m n = sbind m (\<lambda>_. n)"

definition sget :: "('w \<Rightarrow> 'a) \<Rightarrow> ('w, 'a) action" where
  "sget f = (\<lambda>w. (Ok (f w), w))"

definition smod :: "('w \<Rightarrow> 'w) \<Rightarrow> ('w, unit) action" where
  "smod f = (\<lambda>w. (Ok (), f w))"

abbreviation throw :: "EngineError \<Rightarrow> ('w, 'a) action" where
  "throw e \<equiv> sfail (Engine e)"

text \<open>\<^verbatim>\<open>ok_or(error)?\<close>, \<^verbatim>\<open>expect\<close>, \<^verbatim>\<open>?\<close> on a pure result, and \<^verbatim>\<open>if\<close> without \<^verbatim>\<open>else\<close>.\<close>

definition ok_or_throw :: "'a option \<Rightarrow> EngineError \<Rightarrow> ('w, 'a) action" where
  "ok_or_throw x e = (case x of None \<Rightarrow> throw e | Some a \<Rightarrow> sret a)"

definition expect :: "'a option \<Rightarrow> ('w, 'a) action" where
  "expect x = (case x of None \<Rightarrow> sfail Panic | Some a \<Rightarrow> sret a)"

definition slift :: "(EngineError, 'a) result \<Rightarrow> ('w, 'a) action" where
  "slift r = (case r of Inl e \<Rightarrow> throw e | Inr a \<Rightarrow> sret a)"

definition swhen :: "bool \<Rightarrow> ('w, unit) action \<Rightarrow> ('w, unit) action" where
  "swhen b m = (if b then m else sret ())"

text \<open>A loop over a list; the body answers whether to go on (\<open>True\<close>) or to break.\<close>

fun sloop :: "('a \<Rightarrow> ('w, bool) action) \<Rightarrow> 'a list \<Rightarrow> ('w, unit) action" where
  "sloop body [] = sret ()"
| "sloop body (x # xs) = sbind (body x) (\<lambda>go. if go then sloop body xs else sret ())"

fun sfor :: "('a \<Rightarrow> ('w, unit) action) \<Rightarrow> 'a list \<Rightarrow> ('w, unit) action" where
  "sfor body [] = sret ()"
| "sfor body (x # xs) = sthen (body x) (sfor body xs)"

section \<open>Weakest preconditions\<close>

text \<open>
  \<open>wp E m Q w\<close>: from \<open>w\<close>, the action either succeeds in a state that satisfies \<open>Q\<close> or
  fails with a fault and a state that satisfy \<open>E\<close>.
\<close>

definition wp :: "(Fault \<Rightarrow> 'w \<Rightarrow> bool) \<Rightarrow> ('w, 'a) action \<Rightarrow> ('a \<Rightarrow> 'w \<Rightarrow> bool) \<Rightarrow> 'w \<Rightarrow> bool" where
  "wp E m Q w = (case m w of (Inl e, w') \<Rightarrow> E e w' | (Inr a, w') \<Rightarrow> Q a w')"

lemma wp_sret [wp_simps]: "wp E (sret a) Q w = Q a w"
  by (simp add: wp_def sret_def)

lemma wp_sfail [wp_simps]: "wp E (sfail e) Q w = E e w"
  by (simp add: wp_def sfail_def)

lemma wp_sbind [wp_simps]: "wp E (sbind m f) Q w = wp E m (\<lambda>a. wp E (f a) Q) w"
  by (simp add: wp_def sbind_def split: prod.splits sum.splits)

lemma wp_sthen [wp_simps]: "wp E (sthen m n) Q w = wp E m (\<lambda>_. wp E n Q) w"
  by (simp add: sthen_def wp_sbind)

lemma wp_sget [wp_simps]: "wp E (sget f) Q w = Q (f w) w"
  by (simp add: wp_def sget_def)

lemma wp_smod [wp_simps]: "wp E (smod f) Q w = Q () (f w)"
  by (simp add: wp_def smod_def)

lemma wp_ok_or_throw [wp_simps]:
  "wp E (ok_or_throw x e) Q w = (case x of None \<Rightarrow> E (Engine e) w | Some a \<Rightarrow> Q a w)"
  by (simp add: ok_or_throw_def wp_sret wp_sfail split: option.splits)

lemma wp_expect [wp_simps]:
  "wp E (expect x) Q w = (case x of None \<Rightarrow> E Panic w | Some a \<Rightarrow> Q a w)"
  by (simp add: expect_def wp_sret wp_sfail split: option.splits)

lemma wp_slift [wp_simps]:
  "wp E (slift r) Q w = (case r of Inl e \<Rightarrow> E (Engine e) w | Inr a \<Rightarrow> Q a w)"
  by (simp add: slift_def wp_sret wp_sfail split: sum.splits)

lemma wp_if [wp_simps]: "wp E (if b then m else n) Q w = (if b then wp E m Q w else wp E n Q w)"
  by simp

lemma wp_swhen [wp_simps]: "wp E (swhen b m) Q w = (if b then wp E m Q w else Q () w)"
  by (simp add: swhen_def wp_sret)

lemma wp_mono:
  assumes "wp E m Q w" and "\<And>a w'. Q a w' \<Longrightarrow> Q' a w'" and "\<And>e w'. E e w' \<Longrightarrow> E' e w'"
  shows "wp E' m Q' w"
  using assms by (auto simp: wp_def split: prod.splits sum.splits)

lemma wp_cons: "wp E m Q w \<Longrightarrow> (\<And>a w'. Q a w' \<Longrightarrow> Q' a w') \<Longrightarrow> wp E m Q' w"
  by (rule wp_mono)

lemma wp_conj: "wp E m Q w \<Longrightarrow> wp E m Q' w \<Longrightarrow> wp E m (\<lambda>a w'. Q a w' \<and> Q' a w') w"
  by (auto simp: wp_def split: prod.splits sum.splits)

text \<open>Loop rules: an invariant indexed by the identifiers still to visit.\<close>

lemma wp_sloop:
  assumes "I xs w"
    and step: "\<And>x xs w. I (x # xs) w \<Longrightarrow> wp E (body x) (\<lambda>go w'. if go then I xs w' else J w') w"
    and fin: "\<And>w. I [] w \<Longrightarrow> J w"
  shows "wp E (sloop body xs) (\<lambda>_. J) w"
  using assms(1)
proof (induction xs arbitrary: w)
  case Nil
  then show ?case by (simp add: wp_simps fin)
next
  case (Cons x xs)
  have "wp E (body x) (\<lambda>go w'. if go then I xs w' else J w') w" by (rule step) (rule Cons.prems)
  then show ?case
    by (simp add: wp_simps) (erule wp_cons, auto simp: Cons.IH wp_simps)
qed

lemma wp_sfor:
  assumes "I xs w"
    and step: "\<And>x xs w. I (x # xs) w \<Longrightarrow> wp E (body x) (\<lambda>_. I xs) w"
    and fin: "\<And>w. I [] w \<Longrightarrow> J w"
  shows "wp E (sfor body xs) (\<lambda>_. J) w"
  using assms(1)
proof (induction xs arbitrary: w)
  case Nil
  then show ?case by (simp add: wp_simps fin)
next
  case (Cons x xs)
  have "wp E (body x) (\<lambda>_. I xs) w" by (rule step) (rule Cons.prems)
  then show ?case by (simp add: wp_simps) (erule wp_cons, rule Cons.IH)
qed

end
