(* ===== verification/Ordered_Map.thy ===== *)
theory Ordered_Map
  imports Prelude "HOL-Library.Multiset"
begin

text \<open>
  The standard library's ordered containers as the crates use them. A \<^verbatim>\<open>BTreeMap\<close>
  is an association list sorted by key, so that iteration order is key order, as the
  source relies on when it takes a bounded prefix of \<^verbatim>\<open>iter()\<close>. The interface
  the clients use is the locale \<open>ordered_map\<close>; it is interpreted on the list
  operations. On top of it stands the reference-count map
  (\<^verbatim>\<open>increment\<close>/\<^verbatim>\<open>decrement\<close> of \<^verbatim>\<open>scheduler.rs\<close>) with the locale
  \<open>counter_map\<close>.
\<close>

section \<open>Sorted association lists\<close>

type_synonym ('k, 'v) btree = "('k \<times> 'v) list"

definition bt_get :: "('k, 'v) btree \<Rightarrow> 'k \<Rightarrow> 'v option" where
  "bt_get m k = map_of m k"

fun bt_insert :: "'k::linorder \<Rightarrow> 'v \<Rightarrow> ('k, 'v) btree \<Rightarrow> ('k, 'v) btree" where
  "bt_insert k v [] = [(k, v)]"
| "bt_insert k v ((k', v') # m) =
     (if k < k' then (k, v) # (k', v') # m
      else if k = k' then (k, v) # m
      else (k', v') # bt_insert k v m)"

definition bt_remove :: "'k \<Rightarrow> ('k, 'v) btree \<Rightarrow> ('k, 'v) btree" where
  "bt_remove k m = filter (\<lambda>e. fst e \<noteq> k) m"

definition bt_retain :: "('k \<Rightarrow> 'v \<Rightarrow> bool) \<Rightarrow> ('k, 'v) btree \<Rightarrow> ('k, 'v) btree" where
  "bt_retain P m = filter (\<lambda>e. P (fst e) (snd e)) m"

text \<open>Assignment through \<^verbatim>\<open>get_mut\<close>: nothing happens when the key is absent.\<close>

definition bt_adjust :: "'k \<Rightarrow> ('v \<Rightarrow> 'v) \<Rightarrow> ('k, 'v) btree \<Rightarrow> ('k, 'v) btree" where
  "bt_adjust k f m = map (\<lambda>e. if fst e = k then (fst e, f (snd e)) else e) m"

definition bt_wf :: "('k::linorder, 'v) btree \<Rightarrow> bool" where
  "bt_wf m \<longleftrightarrow> sorted_wrt (<) (map fst m)"

abbreviation bt_keys :: "('k, 'v) btree \<Rightarrow> 'k list" where "bt_keys m \<equiv> map fst m"
abbreviation bt_values :: "('k, 'v) btree \<Rightarrow> 'v list" where "bt_values m \<equiv> map snd m"
abbreviation bt_contains :: "('k, 'v) btree \<Rightarrow> 'k \<Rightarrow> bool" where
  "bt_contains m k \<equiv> bt_get m k \<noteq> None"

lemma bt_wf_distinct: "bt_wf m \<Longrightarrow> distinct (bt_keys m)"
  by (simp add: bt_wf_def strict_sorted_iff)

lemma bt_get_empty [btree_simps, simp]: "bt_get [] k = None"
  by (simp add: bt_get_def)

lemma bt_wf_Nil [btree_simps, simp]: "bt_wf []"
  by (simp add: bt_wf_def)

lemma bt_get_insert [btree_simps, simp]:
  "bt_get (bt_insert k v m) k' = (if k' = k then Some v else bt_get m k')"
  by (induction k v m rule: bt_insert.induct) (auto simp: bt_get_def)

lemma bt_get_remove [btree_simps, simp]:
  "bt_get (bt_remove k m) k' = (if k' = k then None else bt_get m k')"
  by (induction m) (auto simp: bt_get_def bt_remove_def)

lemma bt_get_adjust [btree_simps, simp]:
  "bt_get (bt_adjust k f m) k' = (if k' = k then map_option f (bt_get m k) else bt_get m k')"
  by (induction m) (auto simp: bt_get_def bt_adjust_def)

lemma bt_get_retain [btree_simps]:
  "bt_wf m \<Longrightarrow> bt_get (bt_retain P m) k =
     (case bt_get m k of None \<Rightarrow> None | Some v \<Rightarrow> if P k v then Some v else None)"
proof (induction m)
  case Nil
  then show ?case by (simp add: bt_retain_def)
next
  case (Cons e m)
  obtain k' v' where e: "e = (k', v')" by (cases e)
  have wf: "bt_wf m" and above: "\<And>x. x \<in> set m \<Longrightarrow> k' < fst x"
    using Cons.prems e by (auto simp: bt_wf_def)
  have absent: "map_of (filter (\<lambda>e. P (fst e) (snd e)) m) k' = None"
    using above by (force simp: map_of_eq_None_iff)
  show ?case
    using Cons.IH [OF wf] e absent by (auto simp: bt_get_def bt_retain_def)
qed

lemma bt_keys_adjust [btree_simps, simp]: "bt_keys (bt_adjust k f m) = bt_keys m"
  by (simp add: bt_adjust_def comp_def if_distrib cong: if_cong)

lemma bt_length_adjust [btree_simps, simp]: "length (bt_adjust k f m) = length m"
  by (simp add: bt_adjust_def)

lemma bt_set_keys_insert [btree_simps, simp]:
  "set (bt_keys (bt_insert k v m)) = insert k (set (bt_keys m))"
  by (induction k v m rule: bt_insert.induct) auto

lemma bt_wf_insert [btree_simps, simp]: "bt_wf m \<Longrightarrow> bt_wf (bt_insert k v m)"
proof (induction k v m rule: bt_insert.induct)
  case (1 k v)
  then show ?case by (simp add: bt_wf_def)
next
  case (2 k v k' v' m)
  have wf: "bt_wf m" and above: "\<And>x. x \<in> set (bt_keys m) \<Longrightarrow> k' < x"
    using "2.prems" by (auto simp: bt_wf_def)
  consider "k < k'" | "k = k'" | "k' < k" by (rule linorder_cases)
  then show ?case
  proof cases
    case 1
    with above have "\<And>x. x \<in> set (bt_keys m) \<Longrightarrow> k < x" using less_trans by blast
    with 1 "2.prems" show ?thesis by (auto simp: bt_wf_def)
  next
    case 2
    with "2.prems" show ?thesis by (auto simp: bt_wf_def)
  next
    case 3
    have ins: "bt_wf (bt_insert k v m)" by (rule "2.IH") (use 3 wf in auto)
    have "\<forall>x \<in> set (bt_keys (bt_insert k v m)). k' < x"
      unfolding bt_set_keys_insert using above 3 by auto
    moreover have "bt_insert k v ((k', v') # m) = (k', v') # bt_insert k v m"
      using 3 by auto
    ultimately show ?thesis using ins by (simp add: bt_wf_def)
  qed
qed

lemma bt_wf_filter [btree_simps, simp]: "bt_wf m \<Longrightarrow> bt_wf (filter P m)"
  by (induction m) (auto simp: bt_wf_def)

lemma bt_wf_remove [btree_simps, simp]: "bt_wf m \<Longrightarrow> bt_wf (bt_remove k m)"
  by (simp add: bt_remove_def)

lemma bt_wf_retain [btree_simps, simp]: "bt_wf m \<Longrightarrow> bt_wf (bt_retain P m)"
  by (simp add: bt_retain_def)

lemma bt_wf_adjust [btree_simps, simp]: "bt_wf (bt_adjust k f m) \<longleftrightarrow> bt_wf m"
  by (simp add: bt_wf_def)

lemma bt_get_Some_mem: "bt_get m k = Some v \<Longrightarrow> (k, v) \<in> set m"
  by (simp add: bt_get_def map_of_SomeD)

lemma bt_mem_get: "bt_wf m \<Longrightarrow> (k, v) \<in> set m \<longleftrightarrow> bt_get m k = Some v"
  by (simp add: bt_get_def bt_wf_distinct)

lemma bt_get_None_iff: "bt_get m k = None \<longleftrightarrow> k \<notin> set (bt_keys m)"
  by (simp add: bt_get_def map_of_eq_None_iff image_iff)

lemma bt_contains_iff: "bt_contains m k \<longleftrightarrow> k \<in> set (bt_keys m)"
  by (simp add: bt_get_None_iff)

lemma bt_keys_remove: "bt_keys (bt_remove k m) = removeAll k (bt_keys m)"
  by (induction m) (auto simp: bt_remove_def)

lemma bt_keys_filter_distinct: "distinct (bt_keys m) \<Longrightarrow> distinct (bt_keys (filter P m))"
  by (induction m) auto

lemma bt_mset_insert:
  "bt_wf m \<Longrightarrow> bt_get m k = None \<Longrightarrow> mset (bt_insert k v m) = add_mset (k, v) (mset m)"
proof (induction k v m rule: bt_insert.induct)
  case (1 k v)
  then show ?case by simp
next
  case (2 k v k' v' m)
  have "bt_wf m" using "2.prems" by (simp add: bt_wf_def)
  moreover have "bt_get m k = None" and "k \<noteq> k'"
    using "2.prems" by (auto simp: bt_get_def split: if_splits)
  ultimately show ?case using "2.IH" by auto
qed

lemma bt_mset_remove:
  "bt_wf m \<Longrightarrow> bt_get m k = Some v \<Longrightarrow> mset m = add_mset (k, v) (mset (bt_remove k m))"
proof (induction m)
  case Nil
  then show ?case by simp
next
  case (Cons e m)
  obtain k' v' where e: "e = (k', v')" by (cases e)
  have wf: "bt_wf m" and above: "\<And>x. x \<in> set m \<Longrightarrow> k' < fst x"
    using Cons.prems(1) e by (auto simp: bt_wf_def)
  show ?case
  proof (cases "k' = k")
    case True
    then have "v' = v" using Cons.prems(2) e by (simp add: bt_get_def)
    moreover have "bt_remove k m = m"
      using above True by (auto simp: bt_remove_def filter_id_conv)
    ultimately show ?thesis using e True by (simp add: bt_remove_def)
  next
    case False
    then have "bt_get m k = Some v" using Cons.prems(2) e by (simp add: bt_get_def)
    with Cons.IH wf False e show ?thesis by (auto simp: bt_remove_def)
  qed
qed

lemma bt_length_insert:
  "bt_wf m \<Longrightarrow> bt_get m k = None \<Longrightarrow> length (bt_insert k v m) = Suc (length m)"
  using arg_cong [OF bt_mset_insert [of m k v], of size] by simp

lemma bt_length_remove:
  "bt_wf m \<Longrightarrow> bt_get m k = Some v \<Longrightarrow> length m = Suc (length (bt_remove k m))"
  using arg_cong [OF bt_mset_remove [of m k v], of size] by simp

lemma bt_remove_absent: "bt_get m k = None \<Longrightarrow> bt_remove k m = m"
  by (auto simp: bt_remove_def bt_get_None_iff filter_id_conv)

section \<open>The ordered-map interface\<close>

locale ordered_map =
  fixes empty :: "'m"
    and insert :: "'k::linorder \<Rightarrow> 'v \<Rightarrow> 'm \<Rightarrow> 'm"
    and remove :: "'k \<Rightarrow> 'm \<Rightarrow> 'm"
    and get :: "'m \<Rightarrow> 'k \<Rightarrow> 'v option"
    and entries :: "'m \<Rightarrow> ('k \<times> 'v) list"
    and wf :: "'m \<Rightarrow> bool"
  assumes wf_empty: "wf empty"
    and wf_insert: "wf m \<Longrightarrow> wf (insert k v m)"
    and wf_remove: "wf m \<Longrightarrow> wf (remove k m)"
    and get_empty: "get empty k = None"
    and get_insert: "wf m \<Longrightarrow> get (insert k v m) = (get m)(k := Some v)"
    and get_remove: "wf m \<Longrightarrow> get (remove k m) = (get m)(k := None)"
    and entries_sorted: "wf m \<Longrightarrow> sorted_wrt (<) (map fst (entries m))"
    and entries_get: "wf m \<Longrightarrow> (k, v) \<in> set (entries m) \<longleftrightarrow> get m k = Some v"
begin

lemma distinct_keys: "wf m \<Longrightarrow> distinct (map fst (entries m))"
  by (rule strict_sorted_iff [THEN iffD1, THEN conjunct2]) (rule entries_sorted)

lemma dom_get: "wf m \<Longrightarrow> dom (get m) = fst ` set (entries m)"
proof (rule set_eqI)
  fix k
  assume "wf m"
  then have "get m k = Some v \<longleftrightarrow> (k, v) \<in> set (entries m)" for v
    by (rule entries_get [symmetric])
  then show "k \<in> dom (get m) \<longleftrightarrow> k \<in> fst ` set (entries m)"
    by (force simp: dom_def)
qed

text \<open>Two maps with the same lookups iterate over the same entries in the same order.\<close>

lemma entries_determined:
  assumes "wf m" and "wf m'" and "get m = get m'"
  shows "entries m = entries m'"
proof -
  have set: "set (entries m) = set (entries m')"
    using assms by (auto simp: entries_get)
  have keys: "map fst (entries m) = map fst (entries m')"
    by (rule strict_sorted_equal)
      (simp_all add: set assms entries_sorted)
  have "inj_on fst (set (entries m'))"
    using distinct_keys [OF assms(2)] by (simp add: distinct_map)
  with set have "inj_on fst (set (entries m) \<union> set (entries m'))" by simp
  with keys show ?thesis by (rule map_inj_on)
qed

end

interpretation btree_map: ordered_map "[]" bt_insert bt_remove bt_get "\<lambda>m. m" bt_wf
  by unfold_locales (auto simp: fun_eq_iff bt_wf_def [symmetric] bt_mem_get)

section \<open>Reference counts\<close>

text \<open>
  \<^verbatim>\<open>increment\<close> and \<^verbatim>\<open>decrement\<close>: a count that reaches zero is removed, and
  decrementing an absent key is the reservation-invariant failure (\<open>None\<close>).
\<close>

definition increment :: "('k::linorder, nat) btree \<Rightarrow> 'k \<Rightarrow> ('k, nat) btree" where
  "increment counts key =
     bt_insert key ((case bt_get counts key of None \<Rightarrow> 0 | Some n \<Rightarrow> n) + 1) counts"

definition decrement :: "('k::linorder, nat) btree \<Rightarrow> 'k \<Rightarrow> ('k, nat) btree option" where
  "decrement counts key =
     (case bt_get counts key of
        None \<Rightarrow> None
      | Some value \<Rightarrow>
          (case checked_sub value 1 of
             None \<Rightarrow> None
           | Some value' \<Rightarrow>
               Some (if value' = 0 then bt_remove key counts
                     else bt_insert key value' counts)))"

definition count_of :: "('k, nat) btree \<Rightarrow> 'k \<Rightarrow> nat" where
  "count_of counts key = (case bt_get counts key of None \<Rightarrow> 0 | Some n \<Rightarrow> n)"

definition counts_wf :: "('k::linorder, nat) btree \<Rightarrow> bool" where
  "counts_wf counts \<longleftrightarrow> bt_wf counts \<and> (\<forall>k. bt_get counts k \<noteq> Some 0)"

lemma count_of_increment:
  "count_of (increment c k) k' = count_of c k' + (if k' = k then 1 else 0)"
  by (auto simp: count_of_def increment_def split: option.splits)

lemma decrement_Some:
  "counts_wf c \<Longrightarrow> 0 < count_of c k \<Longrightarrow> \<exists>c'. decrement c k = Some c'"
  by (auto simp: counts_wf_def count_of_def decrement_def checked_sub_def split: option.splits)

lemma count_of_decrement:
  "decrement c k = Some c' \<Longrightarrow>
     count_of c' k' = (if k' = k then count_of c k - 1 else count_of c k') \<and> 0 < count_of c k"
  by (auto simp: count_of_def decrement_def checked_sub_def split: option.splits if_splits)

lemma counts_wf_increment: "counts_wf c \<Longrightarrow> counts_wf (increment c k)"
  by (auto simp: counts_wf_def increment_def)

lemma counts_wf_decrement: "counts_wf c \<Longrightarrow> decrement c k = Some c' \<Longrightarrow> counts_wf c'"
  by (auto simp: counts_wf_def decrement_def split: option.splits if_splits)

lemma counts_wf_Nil [simp]: "counts_wf []"
  by (simp add: counts_wf_def)

lemma count_of_Nil [simp]: "count_of [] k = 0"
  by (simp add: count_of_def)

text \<open>
  The interface a bounded admission policy relies on: counts behave as a multiset of the
  keys currently held, and releasing a held key never fails.
\<close>

locale counter_map =
  fixes zero :: "'c"
    and incr :: "'c \<Rightarrow> 'k \<Rightarrow> 'c"
    and decr :: "'c \<Rightarrow> 'k \<Rightarrow> 'c option"
    and cnt :: "'c \<Rightarrow> 'k \<Rightarrow> nat"
    and wf :: "'c \<Rightarrow> bool"
  assumes wf_zero: "wf zero"
    and cnt_zero: "cnt zero k = 0"
    and wf_incr: "wf c \<Longrightarrow> wf (incr c k)"
    and cnt_incr: "cnt (incr c k) k' = cnt c k' + (if k' = k then 1 else 0)"
    and decr_Some: "wf c \<Longrightarrow> 0 < cnt c k \<Longrightarrow> \<exists>c'. decr c k = Some c'"
    and decr_wf: "wf c \<Longrightarrow> decr c k = Some c' \<Longrightarrow> wf c'"
    and cnt_decr: "decr c k = Some c' \<Longrightarrow>
        cnt c' k' = (if k' = k then cnt c k - 1 else cnt c k') \<and> 0 < cnt c k"
begin

definition holds :: "'c \<Rightarrow> 'k multiset \<Rightarrow> bool" where
  "holds c M \<longleftrightarrow> wf c \<and> (\<forall>k. cnt c k = count M k)"

lemma holds_zero: "holds zero {#}"
  by (simp add: holds_def wf_zero cnt_zero)

lemma holds_incr: "holds c M \<Longrightarrow> holds (incr c k) (add_mset k M)"
  by (auto simp: holds_def wf_incr cnt_incr)

lemma holds_decr:
  assumes "holds c (add_mset k M)"
  obtains c' where "decr c k = Some c'" and "holds c' M"
proof -
  from assms have "wf c" and "0 < cnt c k" by (simp_all add: holds_def)
  then obtain c' where c': "decr c k = Some c'" using decr_Some by blast
  moreover have "holds c' M"
    using assms c' cnt_decr [OF c'] decr_wf [OF _ c'] by (auto simp: holds_def)
  ultimately show thesis by (rule that)
qed

lemma holds_pos: "holds c M \<Longrightarrow> k \<in># M \<Longrightarrow> 0 < cnt c k"
  by (simp add: holds_def)

end

interpretation counts: counter_map "[]" increment decrement count_of counts_wf
proof unfold_locales
  fix c :: "('k::linorder, nat) btree" and k k' c'
  assume "decrement c k = Some c'"
  then show "count_of c' k' = (if k' = k then count_of c k - 1 else count_of c k') \<and> 0 < count_of c k"
    by (rule count_of_decrement)
qed (auto simp: count_of_increment counts_wf_increment decrement_Some intro: counts_wf_decrement)

end
