(* ===== verification/Permutation.thy ===== *)
theory Permutation
  imports Engine_Types "HOL-Library.While_Combinator"
begin

text \<open>
  \<^verbatim>\<open>permutation.rs\<close>: the affine permutation \<open>i \<mapsto> (multiplier * i + offset) mod length\<close>
  that visits every logical probe exactly once without storing indices. The multiplier
  comes from \<^verbatim>\<open>splitmix64\<close> and is moved to the next value coprime to the length by a
  loop that is not obviously finite; it is modelled with \<open>while_option\<close>, so that a
  diverging loop is \<open>None\<close>, and proved to return.
\<close>

section \<open>The generator and the greatest common divisor\<close>

definition splitmix64_finish :: "u64 \<Rightarrow> u64" where
  "splitmix64_finish s =
     (let v1 = (s XOR drop_bit 30 s) * 0xbf58476d1ce4e5b9;
          v2 = (v1 XOR drop_bit 27 v1) * 0x94d049bb133111eb
      in v2 XOR drop_bit 31 v2)"

text \<open>The mutable state is returned next to the value.\<close>

definition splitmix64 :: "u64 \<Rightarrow> u64 \<times> u64" where
  "splitmix64 state =
     (let state' = state + 0x9e3779b97f4a7c15 in (splitmix64_finish state', state'))"

fun gcd_loop :: "nat \<Rightarrow> nat \<Rightarrow> nat" where
  "gcd_loop left right = (if right = 0 then left else gcd_loop right (left mod right))"

declare gcd_loop.simps [simp del]

lemma gcd_loop_eq: "gcd_loop left right = gcd left right"
proof (induction left right rule: gcd_loop.induct)
  case (1 left right)
  show ?case
  proof (cases "right = 0")
    case True
    then show ?thesis by (simp add: gcd_loop.simps)
  next
    case False
    with 1 show ?thesis by (simp add: gcd_loop.simps [of left right] gcd_red_nat [of left right])
  qed
qed

section \<open>Construction\<close>

record SeededPermutation =
  perm_length :: nat
  multiplier :: nat
  offset :: nat
  perm_seed :: SchedulingSeed

definition next_multiplier :: "nat \<Rightarrow> nat \<Rightarrow> nat" where
  "next_multiplier len m = (if m + 1 = len then 1 else m + 1)"

definition find_multiplier :: "nat \<Rightarrow> nat \<Rightarrow> nat option" where
  "find_multiplier len m = while_option (\<lambda>m. gcd_loop m len \<noteq> 1) (next_multiplier len) m"

text \<open>\<open>None\<close> is a call that does not return.\<close>

definition SeededPermutation_new ::
  "nat \<Rightarrow> SchedulingSeed \<Rightarrow> (EngineError, SeededPermutation) result option" where
  "SeededPermutation_new len seed =
     (if len = 0 then Some (Err (EnginePlan NoProbes))
      else if len = 1
      then Some (Ok \<lparr>perm_length = len, multiplier = 0, offset = 0, perm_seed = seed\<rparr>)
      else
        let (r1, state1) = splitmix64 (word_of_nat (seed_value seed));
            off = unat r1 mod len;
            (r2, state2) = splitmix64 state1;
            m0 = unat r2 mod len;
            m1 = (if m0 = 0 then 1 else m0)
        in map_option
             (\<lambda>m. Ok \<lparr>perm_length = len, multiplier = m, offset = off, perm_seed = seed\<rparr>)
             (find_multiplier len m1))"

text \<open>\<^verbatim>\<open>from_entropy\<close>: the seed comes from the injected entropy source.\<close>

definition from_entropy ::
  "nat \<Rightarrow> (EngineError, nat) result \<Rightarrow> bool
     \<Rightarrow> (EngineError, SeededPermutation) result option" where
  "from_entropy len scheduling_seed report =
     (case scheduling_seed of
        Inl e \<Rightarrow> Some (Err e)
      | Inr value \<Rightarrow> SeededPermutation_new len (Generated value report))"

definition reported_seed :: "SeededPermutation \<Rightarrow> nat option" where
  "reported_seed p = seed_reported (perm_seed p)"

definition permute :: "SeededPermutation \<Rightarrow> nat \<Rightarrow> nat option" where
  "permute p ordinal =
     (if ordinal \<ge> perm_length p then None
      else if perm_length p = 1 then Some 0
      else try_from 64 ((multiplier p * ordinal + offset p) mod perm_length p))"

section \<open>Correctness\<close>

definition perm_ok :: "SeededPermutation \<Rightarrow> bool" where
  "perm_ok p \<longleftrightarrow> 0 < perm_length p \<and> perm_length p \<le> max_of 64 \<and>
     (perm_length p = 1 \<or>
      multiplier p < perm_length p \<and> offset p < perm_length p \<and>
      coprime (multiplier p) (perm_length p))"

lemma find_multiplier_returns:
  assumes "0 < m" and "m < len"
  shows "\<exists>r. find_multiplier len m = Some r \<and> 0 < r \<and> r < len \<and> coprime r len"
proof -
  let ?inv = "\<lambda>m. 0 < m \<and> m < len"
  let ?dist = "\<lambda>m. if m = 1 then 0 else len - m"
  have dec: "?inv (next_multiplier len s) \<and> ?dist (next_multiplier len s) < ?dist s"
    if "?inv s" and "gcd_loop s len \<noteq> 1" for s
  proof -
    from that(2) have "s \<noteq> 1" by (auto simp: gcd_loop_eq)
    with that(1) show ?thesis by (auto simp: next_multiplier_def)
  qed
  have "\<exists>r. find_multiplier len m = Some r"
    unfolding find_multiplier_def
    by (rule measure_while_option_Some [where P = ?inv and f = ?dist]) (use assms dec in auto)
  then obtain r where r: "find_multiplier len m = Some r" by blast
  have "?inv r"
    by (rule while_option_rule [where P = ?inv, OF _ r [unfolded find_multiplier_def]])
      (use assms dec in auto)
  moreover have "gcd_loop r len = 1"
    using while_option_stop [OF r [unfolded find_multiplier_def]] by simp
  ultimately show ?thesis using r by (auto simp: gcd_loop_eq coprime_iff_gcd_eq_1)
qed

lemma SeededPermutation_new_ok:
  assumes "0 < len" and "len \<le> max_of 64"
  shows "\<exists>p. SeededPermutation_new len seed = Some (Ok p) \<and> perm_ok p \<and>
           perm_length p = len \<and> perm_seed p = seed"
proof (cases "len = 1")
  case True
  with assms show ?thesis by (simp add: SeededPermutation_new_def perm_ok_def)
next
  case False
  obtain r1 state1 where s1: "splitmix64 (word_of_nat (seed_value seed)) = (r1, state1)"
    by (cases "splitmix64 (word_of_nat (seed_value seed))")
  obtain r2 state2 where s2: "splitmix64 state1 = (r2, state2)" by (cases "splitmix64 state1")
  let ?m = "if unat r2 mod len = 0 then 1 else unat r2 mod len"
  have "0 < ?m" and "?m < len" using False assms by auto
  then obtain r where "find_multiplier len ?m = Some r" and "0 < r" "r < len" "coprime r len"
    using find_multiplier_returns by blast
  with False assms s1 s2 show ?thesis
    by (simp add: SeededPermutation_new_def perm_ok_def)
qed

lemma permute_eq:
  assumes "perm_ok p" and "i < perm_length p"
  shows "permute p i = Some (if perm_length p = 1 then 0
                             else (multiplier p * i + offset p) mod perm_length p)"
proof -
  have "(multiplier p * i + offset p) mod perm_length p < perm_length p"
    using assms by (simp add: perm_ok_def)
  then have "(multiplier p * i + offset p) mod perm_length p \<le> max_of 64"
    using assms(1) by (simp add: perm_ok_def)
  with assms show ?thesis by (simp add: permute_def try_from_def)
qed

lemma permute_less:
  assumes "perm_ok p" and "permute p i = Some j"
  shows "i < perm_length p" and "j < perm_length p"
proof -
  show "i < perm_length p"
    using assms(2) by (simp add: permute_def split: if_splits)
  with assms show "j < perm_length p"
    by (auto simp: permute_eq perm_ok_def split: if_splits)
qed

lemma affine_inject:
  fixes m n c i j :: nat
  assumes "coprime m n" and "i \<le> j" and "j < n" and "(m * i + c) mod n = (m * j + c) mod n"
  shows "i = j"
proof -
  have "m * i + c \<le> m * j + c" using assms(2) by simp
  then have "n dvd (m * j + c) - (m * i + c)"
    using assms(4) mod_eq_dvd_iff_nat by metis
  then have "n dvd m * (j - i)" by (simp add: diff_mult_distrib2)
  then have "n dvd j - i"
    using assms(1) by (simp add: coprime_dvd_mult_right_iff coprime_commute)
  with assms(2,3) show ?thesis by (auto dest: dvd_imp_le)
qed

lemma permute_inject:
  assumes ok: "perm_ok p" and i: "permute p i = Some k" and j: "permute p j = Some k"
  shows "i = j"
proof -
  let ?n = "perm_length p"
  have less: "i < ?n" "j < ?n" using permute_less ok i j by blast+
  show ?thesis
  proof (cases "?n = 1")
    case True
    with less show ?thesis by simp
  next
    case False
    with ok have co: "coprime (multiplier p) ?n" by (simp add: perm_ok_def)
    have eq: "(multiplier p * i + offset p) mod ?n = (multiplier p * j + offset p) mod ?n"
      using i j less ok False by (simp add: permute_eq)
    show ?thesis
      using affine_inject [OF co _ less(2) eq] affine_inject [OF co _ less(1) eq [symmetric]]
      by linarith
  qed
qed

text \<open>No intermediate value of \<^verbatim>\<open>permute\<close> leaves the 128-bit range.\<close>

lemma permute_no_overflow:
  assumes "perm_ok p" and "i < perm_length p" and "perm_length p \<noteq> 1"
  shows "multiplier p * i + offset p \<le> max_of 128"
proof -
  have n: "perm_length p \<le> 2 ^ 64 - 1" using assms(1) by (simp add: perm_ok_def max_of_def)
  have "multiplier p * i \<le> (2 ^ 64 - 1) * (2 ^ 64 - 1)"
    using assms n by (intro mult_mono) (auto simp: perm_ok_def)
  moreover have "offset p \<le> 2 ^ 64 - 1" using assms n by (simp add: perm_ok_def)
  ultimately show ?thesis by (simp add: max_of_def)
qed

definition perm_image :: "SeededPermutation \<Rightarrow> nat \<Rightarrow> nat set" where
  "perm_image p c = {k. \<exists>i<c. permute p i = Some k}"

lemma perm_image_0 [simp]: "perm_image p 0 = {}"
  by (simp add: perm_image_def)

lemma perm_image_Suc:
  "permute p c = Some k \<Longrightarrow> perm_image p (Suc c) = insert k (perm_image p c)"
  by (auto simp: perm_image_def less_Suc_eq)

lemma perm_image_fresh:
  "perm_ok p \<Longrightarrow> permute p c = Some k \<Longrightarrow> k \<notin> perm_image p c"
  using permute_inject by (fastforce simp: perm_image_def)

lemma perm_image_full:
  assumes "perm_ok p"
  shows "perm_image p (perm_length p) = {..<perm_length p}"
proof (rule card_subset_eq)
  show "finite {..<perm_length p}" by simp
  show sub: "perm_image p (perm_length p) \<subseteq> {..<perm_length p}"
    using assms permute_less by (auto simp: perm_image_def)
  have eq: "perm_image p (perm_length p) = (\<lambda>i. the (permute p i)) ` {..<perm_length p}"
    using assms by (force simp: perm_image_def permute_eq image_def)
  have "inj_on (\<lambda>i. the (permute p i)) {..<perm_length p}"
    using permute_inject [OF assms] assms by (intro inj_onI) (metis lessThan_iff option.sel permute_eq)
  then show "card (perm_image p (perm_length p)) = card {..<perm_length p}"
    unfolding eq by (simp add: card_image)
qed

text \<open>
  C21. For every non-empty logical product that fits in 64 bits and every seed, building
  the permutation returns (its coprimality loop terminates), and the permutation it
  builds maps the ordinals \<open>0 \<dots> length - 1\<close> one-to-one onto themselves, while every
  ordinal beyond the end is refused.
\<close>

theorem permutation_bijective:
  assumes "0 < len" and "len \<le> max_of 64"
  shows "\<exists>p. SeededPermutation_new len seed = Some (Ok p) \<and>
           bij_betw (\<lambda>i. the (permute p i)) {..<len} {..<len} \<and>
           (\<forall>i<len. permute p i \<noteq> None) \<and> (\<forall>i\<ge>len. permute p i = None)"
proof -
  obtain p where p: "SeededPermutation_new len seed = Some (Ok p)" "perm_ok p" "perm_length p = len"
    using SeededPermutation_new_ok [OF assms] by blast
  have img: "(\<lambda>i. the (permute p i)) ` {..<len} = {..<len}"
  proof -
    have "(\<lambda>i. the (permute p i)) ` {..<len} = perm_image p len"
      using p by (force simp: perm_image_def permute_eq image_def)
    then show ?thesis using perm_image_full [OF p(2)] p(3) by simp
  qed
  have "inj_on (\<lambda>i. the (permute p i)) {..<len}"
    using p img by (intro eq_card_imp_inj_on) auto
  with img have "bij_betw (\<lambda>i. the (permute p i)) {..<len} {..<len}"
    by (simp add: bij_betw_def)
  moreover have "\<forall>i\<ge>len. permute p i = None" using p by (simp add: permute_def)
  moreover have "\<forall>i<len. permute p i \<noteq> None" using p by (simp add: permute_eq)
  ultimately show ?thesis using p(1) by blast
qed

theorem permutation_bijective_witness:
  "0 < (12::nat) \<and> (12::nat) \<le> max_of 64 \<and>
   (\<exists>p. SeededPermutation_new 12 (Explicit 7) = Some (Ok p) \<and>
      bij_betw (\<lambda>i. the (permute p i)) {..<12} {..<12})"
  using permutation_bijective [of 12 "Explicit 7"] by (auto simp: max_of_def)

end
