(* ===== verification/Timing.thy ===== *)
theory Timing
  imports Engine_Types
begin

text \<open>
  \<^verbatim>\<open>timing.rs\<close>: the fixed-point token bucket that limits emission and the RFC-6298-style
  round-trip estimator. Every operation returns the mutated state beside its result; an
  error leaves the state as the source leaves it.
\<close>

section \<open>Token bucket\<close>

definition TOKEN_SCALE :: nat where "TOKEN_SCALE = 1000000"

record TokenBucket =
  bucket_rate :: nat
  capacity_scaled :: nat
  tokens_scaled :: nat
  last_refill :: MonotonicTime

definition TokenBucket_new ::
  "nat \<Rightarrow> nat \<Rightarrow> MonotonicTime \<Rightarrow> (ConfigError, TokenBucket) result" where
  "TokenBucket_new rate brst now =
     (if rate = 0 \<or> rate > MAX_TRANSMIT_RATE_PER_SECOND then Err InvalidRate
      else if brst = 0 \<or> brst > MAX_OUTSTANDING_PROBES then Err InvalidBurst
      else let capacity = brst * TOKEN_SCALE
           in Ok \<lparr>bucket_rate = rate, capacity_scaled = capacity, tokens_scaled = capacity,
                  last_refill = now\<rparr>)"

definition refill :: "MonotonicTime \<Rightarrow> TokenBucket \<Rightarrow> (EngineError, TokenBucket) result" where
  "refill now b =
     (case elapsed_since now (last_refill b) of
        None \<Rightarrow> Err ClockRegressed
      | Some elapsed \<Rightarrow>
          let added = elapsed * bucket_rate b
          in Ok (b\<lparr>tokens_scaled :=
                     min (saturating_add 128 (tokens_scaled b) added) (capacity_scaled b),
                   last_refill := now\<rparr>))"

definition try_take ::
  "MonotonicTime \<Rightarrow> TokenBucket \<Rightarrow> (EngineError, bool) result \<times> TokenBucket" where
  "try_take now b =
     (case refill now b of
        Inl e \<Rightarrow> (Err e, b)
      | Inr b' \<Rightarrow>
          if tokens_scaled b' < TOKEN_SCALE then (Ok False, b')
          else (Ok True, b'\<lparr>tokens_scaled := tokens_scaled b' - TOKEN_SCALE\<rparr>))"

definition next_ready ::
  "MonotonicTime \<Rightarrow> TokenBucket \<Rightarrow> (EngineError, MonotonicTime) result \<times> TokenBucket" where
  "next_ready now b =
     (case refill now b of
        Inl e \<Rightarrow> (Err e, b)
      | Inr b' \<Rightarrow>
          if tokens_scaled b' \<ge> TOKEN_SCALE then (Ok now, b')
          else
            let deficit = TOKEN_SCALE - tokens_scaled b';
                micros = div_ceil deficit (bucket_rate b')
            in (case try_from 64 micros of
                  None \<Rightarrow> (Err DeadlineOverflow, b')
                | Some m \<Rightarrow> (ok_or (time_add now m) DeadlineOverflow, b')))"

definition bucket_ok :: "TokenBucket \<Rightarrow> bool" where
  "bucket_ok b \<longleftrightarrow>
     0 < bucket_rate b \<and> bucket_rate b \<le> MAX_TRANSMIT_RATE_PER_SECOND \<and>
     TOKEN_SCALE \<le> capacity_scaled b \<and>
     capacity_scaled b \<le> MAX_OUTSTANDING_PROBES * TOKEN_SCALE \<and>
     tokens_scaled b \<le> capacity_scaled b \<and> last_refill b \<le> max_of 64"

lemma TokenBucket_new_ok:
  "TokenBucket_new rate brst now = Ok b \<Longrightarrow> now \<le> max_of 64 \<Longrightarrow>
     bucket_ok b \<and> last_refill b = now \<and> tokens_scaled b = capacity_scaled b \<and>
     capacity_scaled b = brst * TOKEN_SCALE \<and> bucket_rate b = rate"
  by (auto simp: TokenBucket_new_def bucket_ok_def Let_def split: if_splits)

text \<open>
  The 128-bit saturation never acts: the exact sum fits, so refilling adds exactly
  \<open>elapsed * rate\<close> up to the capacity.
\<close>

lemma refill_exact:
  assumes "bucket_ok b" and "last_refill b \<le> now" and "now \<le> max_of 64"
  shows "refill now b =
    Ok (b\<lparr>tokens_scaled := min (tokens_scaled b + (now - last_refill b) * bucket_rate b)
                            (capacity_scaled b),
         last_refill := now\<rparr>)"
proof -
  have "(now - last_refill b) * bucket_rate b \<le> (2 ^ 64 - 1) * 1000000"
    using assms by (intro mult_mono) (auto simp: bucket_ok_def bounds_defs max_of_def)
  moreover have "tokens_scaled b \<le> 262144 * 1000000"
    using assms(1) by (auto simp: bucket_ok_def bounds_defs TOKEN_SCALE_def)
  ultimately have "tokens_scaled b + (now - last_refill b) * bucket_rate b \<le> max_of 128"
    by (simp add: max_of_def)
  then show ?thesis
    using assms(2) by (simp add: refill_def elapsed_since_def checked_sub_def saturating_add_def
        Let_def)
qed

lemma refill_regressed: "now < last_refill b \<Longrightarrow> refill now b = Err ClockRegressed"
  by (simp add: refill_def elapsed_since_def checked_sub_def)

lemma refill_ok:
  assumes "bucket_ok b" and "now \<le> max_of 64" and "refill now b = Ok b'"
  shows "bucket_ok b' \<and> last_refill b' = now \<and> bucket_rate b' = bucket_rate b \<and>
         capacity_scaled b' = capacity_scaled b"
proof -
  have "last_refill b \<le> now"
    using assms(3) refill_regressed [of now b] by fastforce
  with assms show ?thesis by (auto simp: refill_exact bucket_ok_def)
qed

lemma try_take_ok:
  assumes "bucket_ok b" and "now \<le> max_of 64" and "try_take now b = (Ok r, b')"
  shows "bucket_ok b' \<and> last_refill b' = now \<and> bucket_rate b' = bucket_rate b \<and>
         capacity_scaled b' = capacity_scaled b"
proof -
  obtain b1 where r: "refill now b = Ok b1"
    using assms(3) by (auto simp: try_take_def split: sum.splits)
  have "b' = b1 \<or> b' = b1\<lparr>tokens_scaled := tokens_scaled b1 - TOKEN_SCALE\<rparr>"
    using assms(3) r by (auto simp: try_take_def split: if_splits)
  with refill_ok [OF assms(1,2) r] show ?thesis by (auto simp: bucket_ok_def)
qed

text \<open>
  A run of \<^verbatim>\<open>try_take\<close> calls at the given instants: the answers, and the bucket they
  leave; the run stops at the first error.
\<close>

fun take_run ::
  "MonotonicTime list \<Rightarrow> TokenBucket \<Rightarrow> (EngineError, bool list) result \<times> TokenBucket" where
  "take_run [] b = (Ok [], b)"
| "take_run (t # ts) b =
     (case try_take t b of
        (Inl e, b') \<Rightarrow> (Err e, b')
      | (Inr r, b') \<Rightarrow>
          (case take_run ts b' of
             (Inl e, b'') \<Rightarrow> (Err e, b'')
           | (Inr rs, b'') \<Rightarrow> (Ok (r # rs), b'')))"

definition granted :: "bool list \<Rightarrow> nat" where
  "granted rs = length (filter id rs)"

lemma granted_simps [simp]: "granted [] = 0" "granted (r # rs) = (if r then 1 else 0) + granted rs"
  by (simp_all add: granted_def)

lemma try_take_budget:
  assumes "bucket_ok b" and "now \<le> max_of 64" and "try_take now b = (Ok r, b')"
  shows "last_refill b \<le> now" and
    "tokens_scaled b' + (if r then TOKEN_SCALE else 0)
       \<le> tokens_scaled b + (now - last_refill b) * bucket_rate b"
proof -
  show le: "last_refill b \<le> now"
    using assms(3) refill_regressed [of now b] by (fastforce simp: try_take_def)
  show "tokens_scaled b' + (if r then TOKEN_SCALE else 0)
       \<le> tokens_scaled b + (now - last_refill b) * bucket_rate b"
    using assms le by (auto simp: try_take_def refill_exact split: if_splits)
qed

lemma take_run_budget:
  assumes "bucket_ok b" and "\<forall>t \<in> set ts. t \<le> max_of 64" and "take_run ts b = (Ok rs, b')"
  shows "last_refill b \<le> last_refill b' \<and>
    tokens_scaled b' + granted rs * TOKEN_SCALE
      \<le> tokens_scaled b + (last_refill b' - last_refill b) * bucket_rate b"
  using assms
proof (induction ts arbitrary: b rs)
  case Nil
  then show ?case by simp
next
  case (Cons t ts)
  obtain r b1 where take: "try_take t b = (Ok r, b1)"
    using Cons.prems(3) by (auto split: prod.splits sum.splits)
  obtain rs1 where run: "take_run ts b1 = (Ok rs1, b')" and rs: "rs = r # rs1"
    using Cons.prems(3) take by (auto split: prod.splits sum.splits)
  have t: "t \<le> max_of 64" using Cons.prems(2) by simp
  have b1: "bucket_ok b1" "last_refill b1 = t" "bucket_rate b1 = bucket_rate b"
    using try_take_ok [OF Cons.prems(1) t take] by auto
  have IH: "t \<le> last_refill b' \<and> tokens_scaled b' + granted rs1 * TOKEN_SCALE
      \<le> tokens_scaled b1 + (last_refill b' - t) * bucket_rate b"
    using Cons.IH [OF b1(1) _ run] Cons.prems(2) b1 by simp
  have step: "last_refill b \<le> t" and
    budget: "tokens_scaled b1 + (if r then TOKEN_SCALE else 0)
       \<le> tokens_scaled b + (t - last_refill b) * bucket_rate b"
    using try_take_budget [OF Cons.prems(1) t take] by auto
  have "(last_refill b' - last_refill b) * bucket_rate b
      = (last_refill b' - t) * bucket_rate b + (t - last_refill b) * bucket_rate b"
    using IH step by (simp add: add_mult_distrib [symmetric])
  then show ?case using IH step budget rs by (auto split: if_splits)
qed

text \<open>
  C26. Over any sequence of calls on a fresh bucket, the number of granted frames never
  exceeds the burst plus the rate times the elapsed time: with \<open>burst\<close> tokens and
  \<open>rate\<close> frames per second, after \<open>d\<close> microseconds at most \<open>burst + rate * d / 10\<^sup>6\<close>
  frames have been granted. The clock may be read at any non-decreasing instants.
\<close>

theorem token_bucket_rate_limit:
  assumes "TokenBucket_new rate brst start = Ok b" and "start \<le> max_of 64"
    and "\<forall>t \<in> set ts. t \<le> max_of 64"
    and "take_run ts b = (Ok rs, b')"
  shows "granted rs * 1000000 \<le> brst * 1000000 + (last_refill b' - start) * rate"
proof -
  have b: "bucket_ok b" "last_refill b = start" "bucket_rate b = rate"
    "tokens_scaled b = brst * TOKEN_SCALE"
    using TokenBucket_new_ok [OF assms(1,2)] by auto
  show ?thesis
    using take_run_budget [OF b(1) assms(3,4)] b(2-) by (simp add: TOKEN_SCALE_def)
qed

theorem token_bucket_rate_limit_witness:
  "\<exists>b b'. TokenBucket_new 2 1 0 = Ok b \<and>
     take_run [0, 0, 500000] b = (Ok [True, False, True], b') \<and>
     granted [True, False, True] * 1000000 \<le> 1 * 1000000 + (last_refill b' - 0) * 2"
proof -
  let ?b = "\<lparr>bucket_rate = 2, capacity_scaled = 1000000, tokens_scaled = 1000000,
              last_refill = 0\<rparr>"
  let ?b' = "\<lparr>bucket_rate = 2, capacity_scaled = 1000000, tokens_scaled = 0,
              last_refill = 500000\<rparr>"
  have b: "TokenBucket_new 2 1 0 = Ok ?b"
    by (simp add: TokenBucket_new_def bounds_defs TOKEN_SCALE_def)
  have run: "take_run [0, 0, 500000] ?b = (Ok [True, False, True], ?b')"
    by (simp add: try_take_def refill_def elapsed_since_def checked_sub_def saturating_add_def
        TOKEN_SCALE_def max_of_def)
  have "granted [True, False, True] * 1000000 \<le> 1 * 1000000 + (last_refill ?b' - 0) * 2"
    by (rule token_bucket_rate_limit [OF b _ _ run]) (simp_all add: max_of_def)
  with b run show ?thesis by blast
qed

text \<open>The instant a bucket names is the first one from \<open>now\<close> on at which it has a token.\<close>

lemma next_ready_first:
  assumes "next_ready now b = (Ok ready, b')" and "0 < bucket_rate b" and "TOKEN_SCALE \<le> capacity_scaled b"
  shows "now \<le> ready" and "fst (try_take ready b') = Ok True"
    and "now \<le> u \<Longrightarrow> fst (try_take u b') = Ok True \<Longrightarrow> ready \<le> u"
proof -
  obtain b1 where r: "refill now b = Ok b1" using assms(1) by (auto simp: next_ready_def split: sum.splits)
  have b1: "last_refill b1 = now" "bucket_rate b1 = bucket_rate b" "capacity_scaled b1 = capacity_scaled b"
    using r by (auto simp: refill_def Let_def split: option.splits)
  let ?k = "div_ceil (TOKEN_SCALE - tokens_scaled b1) (bucket_rate b1)"
  have b': "b' = b1" and ready: "ready = (if TOKEN_SCALE \<le> tokens_scaled b1 then now else now + ?k)"
    using assms(1) r
    by (auto simp: next_ready_def Let_def result_simps time_add_def split: if_splits option.splits)
  show "now \<le> ready" by (simp add: ready)
  have rate: "0 < bucket_rate b1" and cap: "TOKEN_SCALE \<le> capacity_scaled b1" using assms(2,3) b1 by simp_all
  have take: "fst (try_take v b') = Ok True \<longleftrightarrow> TOKEN_SCALE \<le> tokens_scaled b1 + (v - now) * bucket_rate b1" if "now \<le> v" for v
  proof -
    have "TOKEN_SCALE \<le> max_of 128" by (simp add: TOKEN_SCALE_def max_of_def)
    then show ?thesis
      using that b1(1) cap by (auto simp: b' try_take_def refill_def elapsed_since_def checked_sub_def saturating_add_def Let_def)
  qed
  have key: "TOKEN_SCALE \<le> tokens_scaled b1 + (v - now) * bucket_rate b1 \<longleftrightarrow> ready \<le> v" if "now \<le> v" for v
  proof (cases "TOKEN_SCALE \<le> tokens_scaled b1")
    case False
    have "TOKEN_SCALE - tokens_scaled b1 \<le> (v - now) * bucket_rate b1 \<longleftrightarrow> ?k \<le> v - now"
      using div_ceil_least(1) [OF rate, of "TOKEN_SCALE - tokens_scaled b1"] mult_le_mono1 [of ?k "v - now" "bucket_rate b1"]
        div_ceil_least(2) [OF rate, of "TOKEN_SCALE - tokens_scaled b1" "v - now"] by (meson order_trans)
    then show ?thesis using False that by (auto simp: ready)
  qed (use that in \<open>simp add: ready\<close>)
  show "fst (try_take ready b') = Ok True" using take [of ready] key [of ready] by (simp add: ready)
  show "ready \<le> u" if "now \<le> u" "fst (try_take u b') = Ok True" using take [of u] key [of u] that by simp
qed

text \<open>
  C27. \<^verbatim>\<open>next_ready\<close> is the exact earliest token boundary: a bucket asked at \<open>now\<close>
  that is told to wait until \<open>ready\<close> grants a token at every instant from \<open>ready\<close> on
  and refuses one at every instant from \<open>now\<close> up to \<open>ready\<close>.
\<close>

theorem next_ready_exact:
  assumes "bucket_ok b" and "now \<le> max_of 64" and "next_ready now b = (Ok ready, b')"
    and "now \<le> t" and "t \<le> max_of 64"
  shows "fst (try_take t b') = Ok (ready \<le> t) \<and> now \<le> ready"
proof -
  obtain b1 where r: "refill now b = Ok b1"
    using assms(3) by (auto simp: next_ready_def split: sum.splits)
  have b1: "bucket_ok b1" "last_refill b1 = now" using refill_ok [OF assms(1,2) r] by auto
  have cap: "TOKEN_SCALE \<le> capacity_scaled b1" and rate: "0 < bucket_rate b1"
    using b1(1) by (auto simp: bucket_ok_def)
  let ?k = "div_ceil (TOKEN_SCALE - tokens_scaled b1) (bucket_rate b1)"
  have b': "b' = b1"
    using assms(3) r by (auto simp: next_ready_def Let_def split: if_splits option.splits)
  have ready: "ready = (if TOKEN_SCALE \<le> tokens_scaled b1 then now else now + ?k)"
    using assms(3) r
    by (auto simp: next_ready_def Let_def result_simps time_add_def split: if_splits option.splits)
  have later: "now \<le> ready" by (simp add: ready)
  have take: "fst (try_take t b') = Ok (TOKEN_SCALE \<le>
      min (tokens_scaled b1 + (t - now) * bucket_rate b1) (capacity_scaled b1))"
    using b1 assms(4,5) by (auto simp: b' try_take_def refill_exact)
  have "TOKEN_SCALE \<le> min (tokens_scaled b1 + (t - now) * bucket_rate b1) (capacity_scaled b1)
      \<longleftrightarrow> ready \<le> t"
  proof (cases "TOKEN_SCALE \<le> tokens_scaled b1")
    case True
    with cap assms(4) show ?thesis by (simp add: ready)
  next
    case False
    have "TOKEN_SCALE - tokens_scaled b1 \<le> (t - now) * bucket_rate b1 \<longleftrightarrow> ?k \<le> t - now"
    proof
      assume "TOKEN_SCALE - tokens_scaled b1 \<le> (t - now) * bucket_rate b1"
      then show "?k \<le> t - now" by (rule div_ceil_least(2) [OF rate])
    next
      assume "?k \<le> t - now"
      then have "?k * bucket_rate b1 \<le> (t - now) * bucket_rate b1" by (rule mult_le_mono1)
      with div_ceil_least(1) [OF rate] show
        "TOKEN_SCALE - tokens_scaled b1 \<le> (t - now) * bucket_rate b1"
        by (rule order_trans)
    qed
    with False cap assms(4) show ?thesis by (auto simp: ready)
  qed
  with take later show ?thesis by simp
qed

theorem next_ready_exact_witness:
  "\<exists>b b'. bucket_ok b \<and> next_ready 0 b = (Ok 333334, b') \<and>
     fst (try_take 333333 b') = Ok False \<and> fst (try_take 333334 b') = Ok True"
proof -
  let ?b = "\<lparr>bucket_rate = 3, capacity_scaled = 1000000, tokens_scaled = 0, last_refill = 0\<rparr>"
  have ok: "bucket_ok ?b" by (simp add: bucket_ok_def bounds_defs TOKEN_SCALE_def)
  have nr: "next_ready 0 ?b = (Ok 333334, ?b)"
    by (simp add: next_ready_def refill_def elapsed_since_def checked_sub_def saturating_add_def
        TOKEN_SCALE_def Let_def try_from_def div_ceil_def time_add_def checked_add_def max_of_def)
  have "fst (try_take 333333 ?b) = Ok (333334 \<le> (333333::nat)) \<and> 0 \<le> (333334::nat)"
    by (rule next_ready_exact [OF ok _ nr]) (simp_all add: max_of_def)
  moreover have "fst (try_take 333334 ?b) = Ok (333334 \<le> (333334::nat)) \<and> 0 \<le> (333334::nat)"
    by (rule next_ready_exact [OF ok _ nr]) (simp_all add: max_of_def)
  ultimately show ?thesis using ok nr by auto
qed

section \<open>Round-trip estimator\<close>

record RttEstimator =
  smoothed :: "ScanDuration option"
  variation :: ScanDuration
  samples :: nat

definition RttEstimator_default :: RttEstimator where
  "RttEstimator_default = \<lparr>smoothed = None, variation = 0, samples = 0\<rparr>"

definition observe :: "ScanDuration \<Rightarrow> RttEstimator \<Rightarrow> RttEstimator" where
  "observe sample e =
     (if sample = 0 then e
      else
        let e' = (case smoothed e of
                    None \<Rightarrow> e\<lparr>smoothed := Some sample, variation := sample div 2\<rparr>
                  | Some sm \<Rightarrow>
                      let difference = abs_diff sm sample
                      in e\<lparr>variation :=
                              saturating_add 64 (saturating_mul 64 (variation e) 3) difference div 4,
                            smoothed :=
                              Some (saturating_add 64 (saturating_mul 64 sm 7) sample div 8)\<rparr>)
        in e'\<lparr>samples := saturating_add 64 (samples e') 1\<rparr>)"

definition rtt_timeout ::
  "TimingMode \<Rightarrow> ScanDuration \<Rightarrow> ScanDuration \<Rightarrow> ScanDuration \<Rightarrow> RttEstimator
     \<Rightarrow> (ConfigError, ScanDuration) result" where
  "rtt_timeout mode fallback minimum maximum e =
     (if fallback = 0 \<or> minimum = 0 \<or> minimum > fallback \<or> fallback > maximum
      then Err InvalidTimeout
      else if mode = FixedRate then Ok fallback
      else case smoothed e of
             None \<Rightarrow> Ok fallback
           | Some sm \<Rightarrow>
               let value = saturating_add 64 sm (saturating_mul 64 (variation e) 4)
               in Ok (max minimum (min value maximum)))"

text \<open>
  \<^verbatim>\<open>timeout_for\<close> of \<^verbatim>\<open>scheduler.rs\<close>: exponential backoff over the estimate, at most
  the configured maximum. The shift is bounded by 31, so \<^verbatim>\<open>1_u32 << shift\<close> is exact.
\<close>

definition timeout_for ::
  "SchedulerConfig \<Rightarrow> RttEstimator \<Rightarrow> nat \<Rightarrow> (EngineError, ScanDuration) result" where
  "timeout_for c e prior_transmissions =
     (case rtt_timeout (timing_mode c) (initial_timeout c) (minimum_timeout c) (maximum_timeout c) e of
        Inl err \<Rightarrow> Err (EngineConfig err)
      | Inr base \<Rightarrow>
          let shift = min prior_transmissions 31
          in Ok (min (saturating_mul 64 base (2 ^ shift)) (maximum_timeout c)))"

fun observe_all :: "ScanDuration list \<Rightarrow> RttEstimator \<Rightarrow> RttEstimator" where
  "observe_all [] e = e"
| "observe_all (x # xs) e = observe_all xs (observe x e)"

text \<open>
  An estimate within the samples: the smoothed round trip lies between the smallest and the
  largest one, and the variation is at most their distance, or half the largest sample, with
  which it starts. The estimate is computed without saturation when eight times the largest
  sample fits 64 bits.
\<close>

definition rtt_within :: "nat \<Rightarrow> nat \<Rightarrow> RttEstimator \<Rightarrow> bool" where
  "rtt_within lo hi e \<longleftrightarrow>
     (case smoothed e of None \<Rightarrow> True
      | Some sm \<Rightarrow> lo \<le> sm \<and> sm \<le> hi \<and> variation e \<le> max (hi - lo) (hi div 2))"

lemma observe_within:
  assumes "rtt_within lo hi e" and x: "x \<noteq> 0 \<Longrightarrow> lo \<le> x \<and> x \<le> hi" and "8 * hi \<le> max_of 64"
  shows "rtt_within lo hi (observe x e)"
proof (cases "x = 0 \<or> smoothed e = None")
  case True
  then show ?thesis using assms(1) x by (auto simp: rtt_within_def observe_def Let_def div_le_mono le_max_iff_disj)
next
  case False
  then obtain sm where sm: "smoothed e = Some sm" and nz: "x \<noteq> 0" by auto
  let ?v = "variation e" and ?m = "max (hi - lo) (hi div 2)"
  have b: "lo \<le> sm" "sm \<le> hi" "?v \<le> ?m" "lo \<le> x" "x \<le> hi"
    using assms(1) x nz sm by (auto simp: rtt_within_def)
  have d: "abs_diff sm x \<le> hi - lo" using b by (auto simp: abs_diff_def)
  have "?m \<le> hi" by simp
  then have fit: "sm * 7 + x \<le> max_of 64" "?v * 3 + abs_diff sm x \<le> max_of 64"
    using b d assms(3) by linarith+
  have "saturating_add 64 (saturating_mul 64 sm 7) x = sm * 7 + x"
    "saturating_add 64 (saturating_mul 64 ?v 3) (abs_diff sm x) = ?v * 3 + abs_diff sm x"
    using fit by (simp_all add: saturating_add_def saturating_mul_def)
  then have e': "smoothed (observe x e) = Some ((sm * 7 + x) div 8)"
    "variation (observe x e) = (?v * 3 + abs_diff sm x) div 4"
    using sm nz by (simp_all add: observe_def Let_def)
  have "?v * 3 + abs_diff sm x \<le> ?m * 4" using b(3) d by linarith
  moreover have "lo \<le> (sm * 7 + x) div 8" "(sm * 7 + x) div 8 \<le> hi" using b by linarith+
  ultimately show ?thesis unfolding rtt_within_def e' by (auto simp: less_eq_div_iff_mult_less_eq)
qed

lemma observe_all_within:
  "rtt_within lo hi e \<Longrightarrow> \<forall>x \<in> set xs. x \<noteq> 0 \<longrightarrow> lo \<le> x \<and> x \<le> hi \<Longrightarrow> 8 * hi \<le> max_of 64 \<Longrightarrow>
     rtt_within lo hi (observe_all xs e)"
  by (induction xs arbitrary: e) (auto simp: observe_within)

lemma observe_all_smoothed: "smoothed (observe_all xs e) = None \<longleftrightarrow> smoothed e = None \<and> (\<forall>x \<in> set xs. x = 0)"
  by (induction xs arbitrary: e) (auto simp: observe_def Let_def split: option.splits)

lemma rtt_timeout_range:
  assumes "rtt_timeout mode fallback minimum maximum e = Ok d"
  shows "minimum \<le> d \<and> d \<le> maximum"
  using assms by (auto simp: rtt_timeout_def Let_def split: if_splits option.splits)

lemma timeout_for_Ok:
  assumes "config_ok c"
  shows "\<exists>d. timeout_for c e n = Ok d \<and> minimum_timeout c \<le> d \<and> d \<le> maximum_timeout c"
proof -
  obtain base where base:
    "rtt_timeout (timing_mode c) (initial_timeout c) (minimum_timeout c) (maximum_timeout c) e = Ok base"
    using assms
    by (cases "smoothed e"; cases "timing_mode c") (auto simp: config_ok_def rtt_timeout_def Let_def)
  have range: "minimum_timeout c \<le> base" "base \<le> maximum_timeout c"
    using rtt_timeout_range [OF base] by auto
  have "maximum_timeout c \<le> max_of 64"
    using assms by (simp add: config_ok_def bounds_defs max_of_def)
  moreover have "base * 1 \<le> base * 2 ^ min n 31" by (intro mult_le_mono2) simp
  then have "minimum_timeout c \<le> base * 2 ^ min n 31" using range(1) by linarith
  ultimately show ?thesis
    using base range by (simp add: timeout_for_def saturating_mul_def Let_def)
qed

text \<open>
  C28. Under a validated configuration the retransmission timeout always exists, stays
  within the configured minimum and maximum whatever round-trip samples were observed,
  never shrinks as more transmissions go unanswered, and in fixed-rate mode starts at the
  configured initial timeout.
\<close>

theorem backoff_bounded_monotone:
  assumes "config_validate c = Ok c'"
  shows "\<exists>d d'. timeout_for c e n = Ok d \<and> timeout_for c e (Suc n) = Ok d' \<and>
           minimum_timeout c \<le> d \<and> d \<le> d' \<and> d' \<le> maximum_timeout c \<and>
           (timing_mode c = FixedRate \<longrightarrow> timeout_for c e 0 = Ok (initial_timeout c))"
proof -
  have ok: "config_ok c" using assms by (simp add: config_validate_Ok_iff)
  obtain d where d: "timeout_for c e n = Ok d" "minimum_timeout c \<le> d"
    using timeout_for_Ok [OF ok] by blast
  obtain d' where d': "timeout_for c e (Suc n) = Ok d'" "d' \<le> maximum_timeout c"
    using timeout_for_Ok [OF ok] by blast
  have pow: "(2::nat) ^ min n 31 \<le> 2 ^ min (Suc n) 31" by (intro power_increasing) auto
  obtain base where "d = min (saturating_mul 64 base (2 ^ min n 31)) (maximum_timeout c)"
    and "d' = min (saturating_mul 64 base (2 ^ min (Suc n) 31)) (maximum_timeout c)"
    using d(1) d'(1) by (auto simp: timeout_for_def Let_def split: sum.splits)
  moreover have "base * 2 ^ min n 31 \<le> base * 2 ^ min (Suc n) 31"
    using pow by (rule mult_le_mono2)
  ultimately have "d \<le> d'" unfolding saturating_mul_def by linarith
  moreover have "timing_mode c = FixedRate \<longrightarrow> timeout_for c e 0 = Ok (initial_timeout c)"
    using ok by (auto simp: timeout_for_def rtt_timeout_def config_ok_def saturating_mul_def
        bounds_defs max_of_def)
  ultimately show ?thesis using d d' by blast
qed

definition example_config :: SchedulerConfig where
  "example_config =
     \<lparr>rate_per_second = 1000, burst = 4, max_outstanding = 8, max_retransmissions = 1,
      initial_timeout = 100, minimum_timeout = 10, maximum_timeout = 1000,
      session_deadline_after = 100000, late_grace = 50, max_grace_entries = 16,
      max_per_target = 4, max_per_prefix = 8, timing_mode = FixedRate,
      discovery_silence = SilenceUnknown, tcp_reset_cleanup = False\<rparr>"

lemma example_config_valid: "config_validate example_config = Ok example_config"
  by (simp add: config_validate_def example_config_def bounds_defs)

theorem backoff_bounded_monotone_witness:
  "config_validate example_config = Ok example_config \<and>
   (\<exists>d d'. timeout_for example_config RttEstimator_default 1 = Ok d \<and>
      timeout_for example_config RttEstimator_default (Suc 1) = Ok d' \<and> 10 \<le> d \<and> d \<le> d' \<and> d' \<le> 1000)"
  using backoff_bounded_monotone [OF example_config_valid, of RttEstimator_default 1]
    example_config_valid
  by (auto simp: example_config_def)

text \<open>
  C29. The estimator never leaves the range of what was measured: if the non-zero samples lie
  between \<open>lo\<close> and \<open>hi\<close> and one of them was seen, then the smoothed round trip exists and
  lies between \<open>lo\<close> and \<open>hi\<close>, and its variation is at most \<open>max (hi - lo) (hi div 2)\<close>, for
  every sequence of samples; so an adaptive timeout is at least \<open>lo\<close> and at most
  \<open>hi + 4 * max (hi - lo) (hi div 2)\<close>, each clamped to the configured bounds.
\<close>

theorem rtt_estimate_bounded:
  assumes "\<forall>x \<in> set xs. x \<noteq> 0 \<longrightarrow> lo \<le> x \<and> x \<le> hi" and "\<exists>x \<in> set xs. x \<noteq> 0" and "8 * hi \<le> max_of 64"
    and "e = observe_all xs RttEstimator_default"
  shows "(\<exists>sm. smoothed e = Some sm \<and> lo \<le> sm \<and> sm \<le> hi) \<and> variation e \<le> max (hi - lo) (hi div 2) \<and>
    (\<forall>fallback minimum maximum d. rtt_timeout Adaptive fallback minimum maximum e = Ok d \<longrightarrow>
       max minimum (min lo maximum) \<le> d \<and> d \<le> max minimum (min (hi + 4 * max (hi - lo) (hi div 2)) maximum))"
proof -
  let ?m = "max (hi - lo) (hi div 2)"
  have "rtt_within lo hi e" unfolding assms(4)
    by (rule observe_all_within) (use assms in \<open>auto simp: rtt_within_def RttEstimator_default_def\<close>)
  moreover have "smoothed e \<noteq> None" using assms(2) by (simp add: assms(4) observe_all_smoothed)
  ultimately obtain sm where sm: "smoothed e = Some sm" "lo \<le> sm" "sm \<le> hi" "variation e \<le> ?m"
    by (auto simp: rtt_within_def)
  let ?t = "saturating_add 64 sm (saturating_mul 64 (variation e) 4)"
  have "?t \<le> sm + variation e * 4"
    by (simp add: saturating_add_def saturating_mul_def min_le_iff_disj)
  then have hi: "?t \<le> hi + 4 * ?m" using sm(3,4) by linarith
  have "sm \<le> max_of 64" using sm(3) assms(3) by linarith
  then have lo: "lo \<le> ?t" using sm(2) by (simp add: saturating_add_def)
  have "d = max minimum (min ?t maximum)" if "rtt_timeout Adaptive fallback minimum maximum e = Ok d"
    for fallback minimum maximum d
    using that sm(1) by (simp add: rtt_timeout_def Let_def split: if_splits)
  then show ?thesis using sm lo hi by (fastforce simp: max_def min_def)
qed

theorem rtt_estimate_bounded_witness:
  "\<exists>sm. smoothed (observe_all [40, 0, 80] RttEstimator_default) = Some sm \<and> 40 \<le> sm \<and> sm \<le> 80"
proof -
  have "(8::nat) * 80 \<le> max_of 64" by (simp add: max_of_def)
  then show ?thesis
    using rtt_estimate_bounded [of "[40, 0, 80]" 40 80 "observe_all [40, 0, 80] RttEstimator_default"] by simp
qed

end
