(* ===== verification/Udp_Programme.thy ===== *)
theory Udp_Programme
  imports Engine_Types
begin

text \<open>
  \<^verbatim>\<open>udp_programme.rs\<close>: the immutable list of physical request variants behind one
  logical UDP probe, per address family, and the lazy selection of the variants that apply
  to a destination port.
\<close>

section \<open>Variants and programmes\<close>

datatype UdpVariantEligibility =
    AnyPort
  | DestinationPort ProbePort
  | DestinationPortRange ProbePort ProbePort
  | UnmappedFallback
  | AfterProgrammeFallback

record UdpProbeVariant =
  catalogue_probe_id :: "ProbeVariantId option"
  request_index :: nat
  maximum_metadata_bytes :: nat
  service_family :: "nat option"
  eligibility :: UdpVariantEligibility

datatype UdpProbeStrategy = AdaptiveStrategy | Exhaustive

definition UdpProbeVariant_new ::
  "ProbeVariantId option \<Rightarrow> nat \<Rightarrow> nat \<Rightarrow> (PlanError, UdpProbeVariant) result" where
  "UdpProbeVariant_new cid index max_bytes =
     (if max_bytes > MAX_UDP_VARIANT_METADATA_BYTES then Err InvalidUdpMetadataReservation
      else Ok \<lparr>catalogue_probe_id = cid, request_index = index, maximum_metadata_bytes = max_bytes,
               service_family = None, eligibility = AnyPort\<rparr>)"

definition with_eligibility :: "UdpVariantEligibility \<Rightarrow> UdpProbeVariant \<Rightarrow> UdpProbeVariant" where
  "with_eligibility e v = v\<lparr>eligibility := e\<rparr>"

definition with_service_family :: "nat \<Rightarrow> UdpProbeVariant \<Rightarrow> UdpProbeVariant" where
  "with_service_family f v = v\<lparr>service_family := Some f\<rparr>"

record UdpProbeProgramme =
  ipv4 :: "UdpProbeVariant list"
  ipv6 :: "UdpProbeVariant list"
  strategy :: UdpProbeStrategy

fun eligibility_range :: "UdpVariantEligibility \<Rightarrow> (nat \<times> nat) option" where
  "eligibility_range (DestinationPort p) = Some (p, p)"
| "eligibility_range (DestinationPortRange s e) = Some (s, e)"
| "eligibility_range _ = None"

definition eligibility_overlaps :: "UdpVariantEligibility \<Rightarrow> UdpVariantEligibility \<Rightarrow> bool" where
  "eligibility_overlaps l r =
     (case (eligibility_range l, eligibility_range r) of
        (Some (ls, le), Some (rs, re)) \<Rightarrow> ls \<le> re \<and> rs \<le> le
      | _ \<Rightarrow> True)"

fun reversed_range :: "UdpVariantEligibility \<Rightarrow> bool" where
  "reversed_range (DestinationPortRange s e) \<longleftrightarrow> s > e"
| "reversed_range _ \<longleftrightarrow> False"

text \<open>The loop of \<^verbatim>\<open>validate_family\<close>; \<open>prior\<close> is the slice before the current index.\<close>

fun validate_variants ::
  "UdpProbeVariant list \<Rightarrow> UdpProbeVariant list \<Rightarrow> (PlanError, unit) result" where
  "validate_variants prior [] = Ok ()"
| "validate_variants prior (v # vs) =
     (if maximum_metadata_bytes v > MAX_UDP_VARIANT_METADATA_BYTES
      then Err InvalidUdpMetadataReservation
      else if reversed_range (eligibility v) then Err InvalidUdpPortRange
      else if catalogue_probe_id v \<noteq> None \<and>
              list_ex (\<lambda>q. eligibility_overlaps (eligibility q) (eligibility v))
                [q \<leftarrow> prior. catalogue_probe_id q = catalogue_probe_id v]
      then Err DuplicateUdpVariant
      else validate_variants (prior @ [v]) vs)"

definition validate_family :: "UdpProbeVariant list \<Rightarrow> (PlanError, unit) result" where
  "validate_family vs =
     (if length vs > MAX_UDP_PROBE_VARIANTS then Err TooManyUdpVariants
      else validate_variants [] vs)"

definition UdpProbeProgramme_new ::
  "UdpProbeVariant list \<Rightarrow> UdpProbeVariant list \<Rightarrow> (PlanError, UdpProbeProgramme) result" where
  "UdpProbeProgramme_new v4 v6 =
     rbind (validate_family v4) (\<lambda>_. rbind (validate_family v6) (\<lambda>_.
       Ok \<lparr>ipv4 = v4, ipv6 = v6, strategy = Exhaustive\<rparr>))"

definition with_strategy :: "UdpProbeStrategy \<Rightarrow> UdpProbeProgramme \<Rightarrow> UdpProbeProgramme" where
  "with_strategy s p = p\<lparr>strategy := s\<rparr>"

definition single_variant :: UdpProbeVariant where
  "single_variant = \<lparr>catalogue_probe_id = None, request_index = 0, maximum_metadata_bytes = 0,
     service_family = None, eligibility = AnyPort\<rparr>"

definition single_programme :: UdpProbeProgramme where
  "single_programme =
     \<lparr>ipv4 = [single_variant], ipv6 = [single_variant], strategy = Exhaustive\<rparr>"

section \<open>Selection\<close>

definition variants_for :: "UdpProbeProgramme \<Rightarrow> IpAddress \<Rightarrow> UdpProbeVariant list" where
  "variants_for p a = (case a of V4 _ \<Rightarrow> ipv4 p | V6 _ \<Rightarrow> ipv6 p)"

fun maps_port :: "UdpVariantEligibility \<Rightarrow> ProbePort \<Rightarrow> bool" where
  "maps_port (DestinationPort v) q \<longleftrightarrow> v = q"
| "maps_port (DestinationPortRange s e) q \<longleftrightarrow> s \<le> q \<and> q \<le> e"
| "maps_port _ q \<longleftrightarrow> False"

definition variant_matches ::
  "UdpProbeProgramme \<Rightarrow> IpAddress \<Rightarrow> ProbePort \<Rightarrow> UdpProbeVariant \<Rightarrow> bool"
  where
  "variant_matches p a q v =
     (let has_mapped = list_ex (\<lambda>c. maps_port (eligibility c) q) (variants_for p a)
      in case eligibility v of
           AnyPort \<Rightarrow> True
         | AfterProgrammeFallback \<Rightarrow> True
         | DestinationPort x \<Rightarrow> x = q
         | DestinationPortRange s e \<Rightarrow> s \<le> q \<and> q \<le> e
         | UnmappedFallback \<Rightarrow> \<not> has_mapped)"

definition maximum_metadata_bytes_for :: "UdpProbeProgramme \<Rightarrow> IpAddress \<Rightarrow> nat" where
  "maximum_metadata_bytes_for p a = fold max (map maximum_metadata_bytes (variants_for p a)) 0"

definition variant_count_for :: "UdpProbeProgramme \<Rightarrow> IpAddress \<Rightarrow> ProbePort \<Rightarrow> nat" where
  "variant_count_for p a q = length [v \<leftarrow> variants_for p a. variant_matches p a q v]"

definition variant_at_for ::
  "UdpProbeProgramme \<Rightarrow> IpAddress \<Rightarrow> ProbePort \<Rightarrow> nat \<Rightarrow> UdpProbeVariant option" where
  "variant_at_for p a q i =
     (let sel = [v \<leftarrow> variants_for p a. variant_matches p a q v]
      in if i < length sel then Some (sel ! i) else None)"

definition maximum_metadata_bytes_for_port ::
  "UdpProbeProgramme \<Rightarrow> IpAddress \<Rightarrow> ProbePort \<Rightarrow> nat" where
  "maximum_metadata_bytes_for_port p a q =
     fold max (map maximum_metadata_bytes [v \<leftarrow> variants_for p a. variant_matches p a q v]) 0"

fun programme_scan ::
  "UdpProbeVariant list \<Rightarrow> nat \<Rightarrow> UdpVariantEligibility option
     \<Rightarrow> nat \<times> UdpVariantEligibility option" where
  "programme_scan [] count first = (count, first)"
| "programme_scan (v # vs) count first =
     programme_scan vs (count + 1)
       (case first of None \<Rightarrow> Some (eligibility v) | Some e \<Rightarrow> Some e)"

definition requires_logical_programme :: "UdpProbeProgramme \<Rightarrow> IpAddress \<Rightarrow> ProbePort \<Rightarrow> bool" where
  "requires_logical_programme p a q =
     (let (count, first) =
            programme_scan [v \<leftarrow> variants_for p a. variant_matches p a q v] 0 None
      in count \<noteq> 1 \<or> first \<noteq> Some AnyPort)"

section \<open>Facts for the scheduler\<close>

definition selected :: "UdpProbeProgramme \<Rightarrow> IpAddress \<Rightarrow> ProbePort \<Rightarrow> UdpProbeVariant list" where
  "selected p a q = [v \<leftarrow> variants_for p a. variant_matches p a q v]"

lemma variant_count_selected: "variant_count_for p a q = length (selected p a q)"
  by (simp add: variant_count_for_def selected_def)

lemma variant_at_selected:
  "variant_at_for p a q i = (if i < length (selected p a q) then Some (selected p a q ! i) else None)"
  by (simp add: variant_at_for_def selected_def)

lemma fold_max_init: "n \<le> fold max xs (n::nat)"
proof (induction xs arbitrary: n)
  case (Cons y ys)
  have "n \<le> max y n" by simp
  also have "\<dots> \<le> fold max ys (max y n)" by (rule Cons.IH)
  finally show ?case by simp
qed simp

lemma fold_max_ge: "x \<in> set xs \<Longrightarrow> x \<le> fold max xs (n::nat)"
proof (induction xs arbitrary: n)
  case (Cons y ys)
  have "max y n \<le> fold max ys (max y n)" by (rule fold_max_init)
  with Cons show ?case by auto
qed simp

lemma fold_max_le: "n \<le> b \<Longrightarrow> \<forall>x \<in> set xs. x \<le> b \<Longrightarrow> fold max xs n \<le> (b::nat)"
  by (induction xs arbitrary: n) auto

definition variant_ok :: "UdpProbeVariant \<Rightarrow> bool" where
  "variant_ok v \<longleftrightarrow> maximum_metadata_bytes v \<le> MAX_UDP_VARIANT_METADATA_BYTES \<and>
     \<not> reversed_range (eligibility v)"

definition no_clash :: "UdpProbeVariant \<Rightarrow> UdpProbeVariant \<Rightarrow> bool" where
  "no_clash v w \<longleftrightarrow> catalogue_probe_id w = None \<or> catalogue_probe_id v \<noteq> catalogue_probe_id w \<or>
     \<not> eligibility_overlaps (eligibility v) (eligibility w)"

lemma validate_variants_Ok:
  "validate_variants prior vs = Ok () \<longleftrightarrow>
     list_all variant_ok vs \<and> sorted_wrt no_clash vs \<and> (\<forall>v \<in> set prior. \<forall>w \<in> set vs. no_clash v w)"
proof (induction prior vs rule: validate_variants.induct)
  case (2 prior v vs)
  then show ?case
    by (auto simp: variant_ok_def no_clash_def list_ex_iff)
qed simp

lemma validate_family_Ok:
  "validate_family vs = Ok () \<longleftrightarrow>
     length vs \<le> MAX_UDP_PROBE_VARIANTS \<and> list_all variant_ok vs \<and> sorted_wrt no_clash vs"
  by (simp add: validate_family_def validate_variants_Ok)

text \<open>Two variants that are both selected for a port overlap.\<close>

lemma matches_overlap:
  assumes "variant_matches p a q v" and "variant_matches p a q w"
  shows "eligibility_overlaps (eligibility v) (eligibility w)"
  using assms
  by (cases "eligibility v"; cases "eligibility w")
    (auto simp: variant_matches_def eligibility_overlaps_def)

lemma programme_scan_spec:
  "programme_scan vs n first =
     (n + length vs, case first of Some e \<Rightarrow> Some e
        | None \<Rightarrow> (case vs of [] \<Rightarrow> None | v # _ \<Rightarrow> Some (eligibility v)))"
  by (induction vs n first rule: programme_scan.induct) (auto split: option.splits list.splits)

lemma requires_logical_programme_iff:
  "\<not> requires_logical_programme p a q \<longleftrightarrow> (\<exists>v. selected p a q = [v] \<and> eligibility v = AnyPort)"
  by (auto simp: requires_logical_programme_def programme_scan_spec selected_def [symmetric]
      length_Suc_conv split: list.splits)

section \<open>Properties\<close>

lemma programme_family_ok:
  assumes "UdpProbeProgramme_new v4 v6 = Ok p"
  shows "length (variants_for p a) \<le> MAX_UDP_PROBE_VARIANTS \<and> list_all variant_ok (variants_for p a) \<and>
    sorted_wrt no_clash (variants_for p a)"
  using assms
  by (auto simp: UdpProbeProgramme_new_def result_simps validate_family_Ok variants_for_def
      split: IpAddress.splits)

text \<open>
  What a programme is to select: the ports a variant is mapped to, and the ports it is eligible
  for among the variants of its family. A fallback is eligible exactly where none is mapped.
\<close>

fun mapped_ports :: "UdpVariantEligibility \<Rightarrow> ProbePort set" where
  "mapped_ports (DestinationPort x) = {x}"
| "mapped_ports (DestinationPortRange s e) = {s..e}"
| "mapped_ports _ = {}"

fun eligible_ports :: "UdpProbeVariant list \<Rightarrow> UdpVariantEligibility \<Rightarrow> ProbePort set" where
  "eligible_ports vs AnyPort = UNIV"
| "eligible_ports vs AfterProgrammeFallback = UNIV"
| "eligible_ports vs UnmappedFallback = - (\<Union>w \<in> set vs. mapped_ports (eligibility w))"
| "eligible_ports vs e = mapped_ports e"

lemma maps_port_iff: "maps_port e q \<longleftrightarrow> q \<in> mapped_ports e"
  by (cases e) auto

lemma variant_matches_iff:
  "variant_matches p a q v \<longleftrightarrow> q \<in> eligible_ports (variants_for p a) (eligibility v)"
  by (cases "eligibility v") (auto simp: variant_matches_def maps_port_iff list_ex_iff)

text \<open>
  C25. For every address and port, a validated programme selects, in the order given, exactly
  the variants of the address's family that are eligible for the port: those for any port,
  those mapped to it, and the unmapped fallbacks when none is mapped to it. There are at most
  64 of them, addressed by their position; no catalogue probe is selected twice, each fits the
  metadata reserved for the port, and the reservation is at most 1024 bytes.
\<close>

theorem udp_selection_sound:
  assumes "UdpProbeProgramme_new v4 v6 = Ok p" and "vs = (case a of V4 _ \<Rightarrow> v4 | V6 _ \<Rightarrow> v6)"
  shows "map (variant_at_for p a q) [0..<variant_count_for p a q] =
      map Some [v \<leftarrow> vs. q \<in> eligible_ports vs (eligibility v)] \<and>
    variant_count_for p a q \<le> MAX_UDP_PROBE_VARIANTS \<and>
    (\<forall>i. variant_at_for p a q i \<noteq> None \<longleftrightarrow> i < variant_count_for p a q) \<and>
    (\<forall>i j v w cid. variant_at_for p a q i = Some v \<longrightarrow> variant_at_for p a q j = Some w \<longrightarrow>
       catalogue_probe_id v = Some cid \<longrightarrow> catalogue_probe_id w = Some cid \<longrightarrow> i = j) \<and>
    (\<forall>i v. variant_at_for p a q i = Some v \<longrightarrow>
       maximum_metadata_bytes v \<le> maximum_metadata_bytes_for_port p a q) \<and>
    maximum_metadata_bytes_for_port p a q \<le> MAX_UDP_VARIANT_METADATA_BYTES"
proof -
  let ?sel = "selected p a q"
  note ok = programme_family_ok [OF assms(1), of a]
  have len: "length ?sel \<le> MAX_UDP_PROBE_VARIANTS"
    unfolding selected_def by (rule order_trans [OF length_filter_le]) (use ok in simp)
  have "sorted_wrt no_clash ?sel" using ok by (simp add: selected_def sorted_wrt_filter)
  then have clash: "no_clash (?sel ! i) (?sel ! j)" if "i < j" "j < length ?sel" for i j
    using that by (simp add: sorted_wrt_iff_nth_less)
  have over: "eligibility_overlaps (eligibility (?sel ! i)) (eligibility (?sel ! j))"
    if "i < length ?sel" "j < length ?sel" for i j
    using nth_mem [OF that(1)] nth_mem [OF that(2)]
    by (auto simp: selected_def intro: matches_overlap)
  have ids: "i = j" if "i < length ?sel" "j < length ?sel" "catalogue_probe_id (?sel ! i) = Some c"
    "catalogue_probe_id (?sel ! j) = Some c" for i j c
    using clash [of i j] clash [of j i] over [of i j] over [of j i] that
    by (cases i j rule: linorder_cases) (auto simp: no_clash_def)
  have meta: "maximum_metadata_bytes (?sel ! i) \<le> maximum_metadata_bytes_for_port p a q"
    if "i < length ?sel" for i
    using nth_mem [OF that] unfolding maximum_metadata_bytes_for_port_def selected_def [symmetric]
    by (intro fold_max_ge) simp
  have "maximum_metadata_bytes_for_port p a q \<le> MAX_UDP_VARIANT_METADATA_BYTES"
    unfolding maximum_metadata_bytes_for_port_def
    using ok by (intro fold_max_le) (auto simp: list_all_iff variant_ok_def)
  moreover have vs: "variants_for p a = vs"
    using assms by (auto simp: UdpProbeProgramme_new_def result_simps variants_for_def split: IpAddress.splits)
  have "map (variant_at_for p a q) [0..<variant_count_for p a q] = map Some [v \<leftarrow> vs. q \<in> eligible_ports vs (eligibility v)]"
  proof -
    have "selected p a q = [v \<leftarrow> vs. q \<in> eligible_ports vs (eligibility v)]"
      by (simp add: selected_def variant_matches_iff vs)
    moreover have "map (variant_at_for p a q) [0..<variant_count_for p a q] = map Some (selected p a q)"
      by (rule nth_equalityI) (simp_all add: variant_count_selected variant_at_selected)
    ultimately show ?thesis by simp
  qed
  ultimately show ?thesis using len ids meta
    by (simp add: variant_count_selected variant_at_selected)
qed

definition example_variants :: "UdpProbeVariant list" where
  "example_variants =
     [\<lparr>catalogue_probe_id = Some 1, request_index = 0, maximum_metadata_bytes = 100,
       service_family = None, eligibility = DestinationPort 53\<rparr>,
      \<lparr>catalogue_probe_id = None, request_index = 1, maximum_metadata_bytes = 0,
       service_family = None, eligibility = UnmappedFallback\<rparr>]"

theorem udp_selection_sound_witness:
  "\<exists>p. UdpProbeProgramme_new example_variants [] = Ok p \<and>
     map (variant_at_for p (V4 [192, 0, 2, 1]) 53) [0..<variant_count_for p (V4 [192, 0, 2, 1]) 53]
       = [Some (example_variants ! 0)]"
proof -
  let ?p = "\<lparr>ipv4 = example_variants, ipv6 = [], strategy = Exhaustive\<rparr>"
  have p: "UdpProbeProgramme_new example_variants [] = Ok ?p"
    by (simp add: UdpProbeProgramme_new_def validate_family_def example_variants_def bounds_defs)
  have "[v \<leftarrow> example_variants. 53 \<in> eligible_ports example_variants (eligibility v)] = [example_variants ! 0]"
    by (simp add: example_variants_def)
  then show ?thesis
    using p udp_selection_sound [OF p, of example_variants "V4 [192, 0, 2, 1]" 53] by simp
qed

end
