(* ===== verification/Plan.thy ===== *)
theory Plan
  imports Target_Properties Udp_Programme
begin

text \<open>
  \<^verbatim>\<open>plan.rs\<close>: the logical product target x family x port x attempt. The product is
  never materialised: a logical identifier is decoded by division and by a search over the
  running totals of the families.
\<close>

section \<open>Probe definitions\<close>

record ProbeDefinition =
  def_family :: ProbeFamily
  def_ports :: "ProbePort list"
  udp_programme :: "UdpProbeProgramme option"

text \<open>\<^verbatim>\<open>ports.windows(2).any(|pair| pair[0] == pair[1])\<close>\<close>

fun adjacent_equal :: "'a list \<Rightarrow> bool" where
  "adjacent_equal (x # y # zs) \<longleftrightarrow> x = y \<or> adjacent_equal (y # zs)"
| "adjacent_equal _ \<longleftrightarrow> False"

definition ProbeDefinition_new ::
  "ProbeFamily \<Rightarrow> ProbePort list \<Rightarrow> (PlanError, ProbeDefinition) result" where
  "ProbeDefinition_new fam ports =
     (if length ports > MAX_PORTS_PER_PROBE_FAMILY then Err TooManyPorts
      else if uses_ports fam \<and> ports = [] then Err PortsRequired
      else if \<not> uses_ports fam \<and> ports \<noteq> [] then Err PortsNotAllowed
      else
        let ports' = sort ports
        in if adjacent_equal ports' then Err DuplicatePort
           else Ok \<lparr>def_family = fam, def_ports = ports',
                    udp_programme = (if fam = Udp then Some single_programme else None)\<rparr>)"

definition ProbeDefinition_udp ::
  "ProbePort list \<Rightarrow> UdpProbeProgramme \<Rightarrow> (PlanError, ProbeDefinition) result" where
  "ProbeDefinition_udp ports programme =
     rbind (ProbeDefinition_new Udp ports) (\<lambda>v. Ok (v\<lparr>udp_programme := Some programme\<rparr>))"

definition port_factor :: "ProbeDefinition \<Rightarrow> nat" where
  "port_factor d =
     (if uses_ports (def_family d)
      then (case try_from 64 (length (def_ports d)) of Some n \<Rightarrow> n | None \<Rightarrow> max_of 64)
      else 1)"

section \<open>Plans\<close>

record PlanDimension =
  dim_definition :: ProbeDefinition
  compatible_targets :: nat
  dim_end :: nat

record ScanPlan =
  plan_targets :: TargetSet
  dimensions :: "PlanDimension list"
  attempts :: nat
  probes_per_attempt :: nat
  logical_probe_count :: nat

fun family_position :: "ProbeFamily \<Rightarrow> nat" where
  "family_position Arp = 0"
| "family_position Ndp = 1"
| "family_position Icmpv4Echo = 2"
| "family_position Icmpv6Echo = 3"
| "family_position TcpSyn = 4"
| "family_position Udp = 5"

definition compatible_target_count :: "TargetSet \<Rightarrow> ProbeFamily \<Rightarrow> nat" where
  "compatible_target_count ts fam =
     (case (supports_ipv4 fam, supports_ipv6 fam) of
        (True, True) \<Rightarrow> ipv4_count ts + ipv6_count ts
      | (True, False) \<Rightarrow> ipv4_count ts
      | (False, True) \<Rightarrow> ipv6_count ts
      | (False, False) \<Rightarrow> 0)"

definition compatible_target_at :: "TargetSet \<Rightarrow> ProbeFamily \<Rightarrow> nat \<Rightarrow> ScanTarget option" where
  "compatible_target_at ts fam index =
     (if supports_ipv4 fam then
        if index < ipv4_count ts then target_at_family ts 4 index
        else if supports_ipv6 fam then target_at_family ts 6 (index - ipv4_count ts)
        else None
      else if supports_ipv6 fam then target_at_family ts 6 index
      else None)"

text \<open>The construction loop: \<open>seen\<close> is the boolean array, \<open>ppa\<close> the running product.\<close>

fun plan_loop ::
  "TargetSet \<Rightarrow> ProbeDefinition list \<Rightarrow> bool list \<Rightarrow> PlanDimension list \<Rightarrow> nat
     \<Rightarrow> (PlanError, PlanDimension list \<times> nat) result" where
  "plan_loop ts [] seen dims ppa = Ok (dims, ppa)"
| "plan_loop ts (d # ds) seen dims ppa =
     (let k = family_position (def_family d)
      in if seen ! k then Err DuplicateProbeFamily
         else
           let seen' = seen[k := True];
               ct = compatible_target_count ts (def_family d)
           in if ct = 0 then Err NoCompatibleTargets
              else
                rbind (ok_or (checked_mul 64 ct (port_factor d)) LogicalProbeCountOverflow) (\<lambda>count.
                rbind (ok_or (checked_add 64 ppa count) LogicalProbeCountOverflow) (\<lambda>ppa'.
                  plan_loop ts ds seen'
                    (dims @ [\<lparr>dim_definition = d, compatible_targets = ct, dim_end = ppa'\<rparr>]) ppa')))"

definition ScanPlan_new ::
  "TargetSet \<Rightarrow> ProbeDefinition list \<Rightarrow> nat \<Rightarrow> (PlanError, ScanPlan) result" where
  "ScanPlan_new ts defs att =
     (if defs = [] then Err NoProbes
      else if length defs > MAX_PROBE_DEFINITIONS then Err TooManyProbeDefinitions
      else if att = 0 then Err InvalidAttempts
      else
        rbind (plan_loop ts defs (replicate MAX_PROBE_DEFINITIONS False) [] 0) (\<lambda>(dims, ppa).
        rbind (ok_or (checked_mul 64 ppa att) LogicalProbeCountOverflow) (\<lambda>count.
          Ok \<lparr>plan_targets = ts, dimensions = dims, attempts = att, probes_per_attempt = ppa,
              logical_probe_count = count\<rparr>)))"

definition logical_probe_at :: "ScanPlan \<Rightarrow> nat \<Rightarrow> (PlanError, LogicalProbe) result" where
  "logical_probe_at p lid =
     (if lid \<ge> logical_probe_count p then Err LogicalProbeIndexOutOfRange
      else
        let attempt_index = lid div probes_per_attempt p;
            within = lid mod probes_per_attempt p;
            k = partition_point (\<lambda>d. dim_end d \<le> within) (dimensions p)
        in if k \<ge> length (dimensions p) then Err LogicalProbeIndexOutOfRange
           else
             let dim = dimensions p ! k;
                 previous_end = (if k = 0 then 0 else dim_end (dimensions p ! (k - 1)));
                 local = within - previous_end;
                 pf = port_factor (dim_definition dim);
                 target_index = local div pf
             in rbind (if uses_ports (def_family (dim_definition dim))
                       then rbind (ok_or (try_from 64 (local mod pf)) LogicalProbeIndexOutOfRange)
                              (\<lambda>i. Ok (Some (def_ports (dim_definition dim) ! i)))
                       else Ok None) (\<lambda>pt.
                rbind (ok_or (compatible_target_at (plan_targets p) (def_family (dim_definition dim))
                                target_index) LogicalProbeIndexOutOfRange) (\<lambda>t.
                rbind (ok_or (try_from 32 (attempt_index + 1)) LogicalProbeIndexOutOfRange) (\<lambda>a.
                  Ok \<lparr>logical_id = lid, attempt = a, target = t,
                      family = def_family (dim_definition dim), port = pt\<rparr>))))"

definition udp_programme_for :: "ScanPlan \<Rightarrow> LogicalProbe \<Rightarrow> UdpProbeProgramme option" where
  "udp_programme_for p probe =
     Option.bind (List.find (\<lambda>d. def_family (dim_definition d) = family probe) (dimensions p))
       (\<lambda>d. udp_programme (dim_definition d))"

section \<open>What a plan holds\<close>

definition def_ok :: "ProbeDefinition \<Rightarrow> bool" where
  "def_ok d \<longleftrightarrow> distinct (def_ports d) \<and> sorted (def_ports d) \<and>
     (uses_ports (def_family d) \<longleftrightarrow> def_ports d \<noteq> []) \<and>
     length (def_ports d) \<le> MAX_PORTS_PER_PROBE_FAMILY \<and>
     (udp_programme d \<noteq> None \<longleftrightarrow> def_family d = Udp)"

lemma adjacent_equal_sorted: "sorted xs \<Longrightarrow> adjacent_equal xs \<longleftrightarrow> \<not> distinct (xs :: nat list)"
  by (induction xs rule: adjacent_equal.induct) force+

lemma sort_Nil_iff: "sort xs = [] \<longleftrightarrow> xs = []"
  by (metis length_0_conv length_sort)

lemma ProbeDefinition_new_ok:
  "ProbeDefinition_new fam ports = Ok d \<Longrightarrow> def_ok d \<and> set (def_ports d) = set ports"
  by (auto simp: ProbeDefinition_new_def def_ok_def adjacent_equal_sorted sort_Nil_iff Let_def
      split: if_splits)

lemma ProbeDefinition_udp_ok:
  assumes "ProbeDefinition_udp ports programme = Ok d"
  shows "def_ok d \<and> set (def_ports d) = set ports"
proof -
  obtain v where v: "ProbeDefinition_new Udp ports = Ok v" and d: "d = v\<lparr>udp_programme := Some programme\<rparr>"
    using assms unfolding ProbeDefinition_udp_def rbind_Ok_iff by blast
  have "def_family v = Udp" using v by (auto simp: ProbeDefinition_new_def Let_def split: if_splits)
  then show ?thesis using ProbeDefinition_new_ok [OF v] unfolding d def_ok_def by simp
qed

lemma port_factor_eq:
  "def_ok d \<Longrightarrow> port_factor d = (if uses_ports (def_family d) then length (def_ports d) else 1)"
  by (auto simp: port_factor_def def_ok_def try_from_def bounds_defs max_of_def)

lemma port_factor_pos: "def_ok d \<Longrightarrow> 0 < port_factor d"
  by (auto simp: port_factor_eq def_ok_def)

definition dim_count :: "PlanDimension \<Rightarrow> nat" where
  "dim_count d = compatible_targets d * port_factor (dim_definition d)"

definition dims_ok :: "TargetSet \<Rightarrow> PlanDimension list \<Rightarrow> nat \<Rightarrow> bool" where
  "dims_ok ts dims ppa \<longleftrightarrow>
     distinct (map (def_family \<circ> dim_definition) dims) \<and>
     (\<forall>d \<in> set dims. def_ok (dim_definition d) \<and> 0 < compatible_targets d \<and>
        compatible_targets d = compatible_target_count ts (def_family (dim_definition d))) \<and>
     map dim_end dims = running_totals (map dim_count dims) \<and>
     ppa = sum_list (map dim_count dims)"

definition plan_ok :: "ScanPlan \<Rightarrow> bool" where
  "plan_ok p \<longleftrightarrow> ts_ok (plan_targets p) \<and> dims_ok (plan_targets p) (dimensions p) (probes_per_attempt p) \<and>
     dimensions p \<noteq> [] \<and> 0 < attempts p \<and> attempts p \<le> max_of 32 \<and>
     logical_probe_count p = attempts p * probes_per_attempt p \<and> logical_probe_count p \<le> max_of 64"

lemma family_position_inject: "family_position a = family_position b \<longleftrightarrow> a = b"
  by (cases a; cases b) auto

lemma family_position_less: "family_position f < 6"
  by (cases f) auto

lemma plan_loop_ok:
  assumes "plan_loop ts ds seen dims ppa = Ok (dims', ppa')"
    and "dims_ok ts dims ppa" and "length seen = 6" and "list_all def_ok ds"
    and "\<forall>f. seen ! family_position f \<longleftrightarrow> f \<in> set (map (def_family \<circ> dim_definition) dims)"
  shows "dims_ok ts dims' ppa' \<and> map dim_definition dims' = map dim_definition dims @ ds"
  using assms
proof (induction ts ds seen dims ppa rule: plan_loop.induct)
  case (2 ts d ds seen dims ppa)
  let ?k = "family_position (def_family d)" and ?ct = "compatible_target_count ts (def_family d)"
  let ?new = "\<lparr>dim_definition = d, compatible_targets = ?ct, dim_end = ppa + ?ct * port_factor d\<rparr>"
  have step: "\<not> seen ! ?k" "?ct \<noteq> 0"
    and mul: "ok_or (checked_mul 64 ?ct (port_factor d)) LogicalProbeCountOverflow = Ok (?ct * port_factor d)"
    and add: "ok_or (checked_add 64 ppa (?ct * port_factor d)) LogicalProbeCountOverflow
      = Ok (ppa + ?ct * port_factor d)"
    and rec: "plan_loop ts ds (seen[?k := True]) (dims @ [?new]) (ppa + ?ct * port_factor d) = Ok (dims', ppa')"
    using "2.prems"(1) by (auto simp: result_simps Let_def split: if_splits)
  have "dims_ok ts (dims @ [?new]) (ppa + ?ct * port_factor d)"
    using "2.prems"(2,4,5) step
    by (auto simp: dims_ok_def dim_count_def running_totals_snoc)
  moreover have "\<forall>f. seen[?k := True] ! family_position f \<longleftrightarrow>
      f \<in> set (map (def_family \<circ> dim_definition) (dims @ [?new]))"
    using "2.prems"(3,5) family_position_less
    by (auto simp: nth_list_update family_position_inject)
  ultimately show ?case
    using "2.IH" [OF refl step(1) refl refl step(2) mul add rec] "2.prems"(3,4)
    by simp
qed simp

lemma dims_ok_Nil: "dims_ok ts [] 0"
  by (simp add: dims_ok_def running_totals_def)

lemma ScanPlan_new_ok:
  assumes "ScanPlan_new ts defs att = Ok p" and "ts_ok ts" and "list_all def_ok defs" and "att \<le> max_of 32"
  shows "plan_ok p \<and> map dim_definition (dimensions p) = defs \<and> plan_targets p = ts \<and> attempts p = att"
proof -
  obtain dims ppa where loop: "plan_loop ts defs (replicate MAX_PROBE_DEFINITIONS False) [] 0 = Ok (dims, ppa)"
    and p: "p = \<lparr>plan_targets = ts, dimensions = dims, attempts = att, probes_per_attempt = ppa,
      logical_probe_count = ppa * att\<rparr>" and le: "ppa * att \<le> max_of 64" "defs \<noteq> []" "att \<noteq> 0"
    using assms(1) by (auto simp: ScanPlan_new_def result_simps split: if_splits)
  have "dims_ok ts dims ppa \<and> map dim_definition dims = defs"
    using plan_loop_ok [OF loop dims_ok_Nil _ assms(3)] family_position_less by (simp add: bounds_defs)
  with assms le show ?thesis by (auto simp: p plan_ok_def mult.commute)
qed

section \<open>The product\<close>

definition compatible_set :: "TargetSet \<Rightarrow> ProbeFamily \<Rightarrow> ScanTarget set" where
  "compatible_set ts fam =
     (if supports_ipv4 fam then targets_in 4 (ts_set ts) else {}) \<union>
     (if supports_ipv6 fam then targets_in 6 (ts_set ts) else {})"

definition port_choices :: "ProbeDefinition \<Rightarrow> ProbePort option set" where
  "port_choices d = (if uses_ports (def_family d) then Some ` set (def_ports d) else {None})"

lemma family_enumeration:
  assumes ok: "ts_ok ts" and fam: "fam = 4 \<or> fam = 6"
  shows "bij_betw (target_at_family ts fam) {..<family_count ts fam} (Some ` targets_in fam (ts_set ts))"
proof -
  have "list_all iv_ok (map raw (intervals ts))" using ok by (simp add: ts_ok_def ordered_disjoint_def)
  from targets_in_image [OF this fam] target_at_family_bij [OF ok fam] show ?thesis
    by (simp add: ts_set_def)
qed

lemma targets_in_disjoint: "targets_in 4 S \<inter> targets_in 6 S' = {}"
  by (auto simp: targets_in_def)

lemma bij_betw_append:
  assumes f: "bij_betw f {..<m} A" and g: "bij_betw g {..<n} B" and disj: "A \<inter> B = {}"
  shows "bij_betw (\<lambda>i. if i < m then f i else g (i - m)) {..<m + (n::nat)} (A \<union> B)"
proof -
  have "bij_betw (\<lambda>i. i - m) {m..<m + n} {..<n}"
    by (rule bij_betwI [where g = "\<lambda>i. i + m"]) auto
  then have "bij_betw (\<lambda>i. g (i - m)) {m..<m + n} B"
    using bij_betw_trans [OF _ g] by (simp add: o_def)
  moreover have "{..<m + n} = {..<m} \<union> {m..<m + n}" by auto
  ultimately show ?thesis
    using bij_betw_disjoint_Un [OF f _ _ disj, of "\<lambda>i. g (i - m)" "{m..<m + n}"]
    by (simp add: lessThan_def disjoint_iff)
qed

lemma compatible_target_at_bij:
  assumes ok: "ts_ok ts"
  shows "bij_betw (compatible_target_at ts fam) {..<compatible_target_count ts fam}
    (Some ` compatible_set ts fam)"
proof -
  have counts: "family_count ts 4 = ipv4_count ts" "family_count ts 6 = ipv6_count ts"
    by (simp_all add: family_count_def)
  note four = family_enumeration [OF ok, of 4, unfolded counts, simplified]
  note six = family_enumeration [OF ok, of 6, unfolded counts, simplified]
  have both: "bij_betw (\<lambda>i. if i < ipv4_count ts then target_at_family ts 4 i
      else target_at_family ts 6 (i - ipv4_count ts)) {..<ipv4_count ts + ipv6_count ts}
      (Some ` targets_in 4 (ts_set ts) \<union> Some ` targets_in 6 (ts_set ts))"
    using targets_in_disjoint by (intro bij_betw_append [OF four six]) blast
  show ?thesis
  proof (cases "supports_ipv4 fam"; cases "supports_ipv6 fam")
    assume sup: "supports_ipv4 fam" "supports_ipv6 fam"
    then have "compatible_target_at ts fam = (\<lambda>i. if i < ipv4_count ts then target_at_family ts 4 i
        else target_at_family ts 6 (i - ipv4_count ts))"
      by (intro ext) (simp add: compatible_target_at_def)
    with both sup show ?thesis by (simp add: compatible_target_count_def compatible_set_def image_Un)
  next
    assume sup: "supports_ipv4 fam" "\<not> supports_ipv6 fam"
    then have "\<And>i. i \<in> {..<ipv4_count ts} \<Longrightarrow> target_at_family ts 4 i = compatible_target_at ts fam i"
      by (simp add: compatible_target_at_def)
    from bij_betw_cong [THEN iffD1, OF this four] sup show ?thesis
      by (simp add: compatible_target_count_def compatible_set_def)
  next
    assume sup: "\<not> supports_ipv4 fam" "supports_ipv6 fam"
    then have "\<And>i. i \<in> {..<ipv6_count ts} \<Longrightarrow> target_at_family ts 6 i = compatible_target_at ts fam i"
      by (simp add: compatible_target_at_def)
    from bij_betw_cong [THEN iffD1, OF this six] sup show ?thesis
      by (simp add: compatible_target_count_def compatible_set_def)
  next
    assume "\<not> supports_ipv4 fam" "\<not> supports_ipv6 fam"
    then show ?thesis by (simp add: compatible_target_count_def compatible_set_def bij_betw_def)
  qed
qed

lemma port_bij:
  assumes "def_ok d"
  shows "bij_betw (\<lambda>i. if uses_ports (def_family d) then Some (def_ports d ! i) else None)
    {..<port_factor d} (port_choices d)"
proof (cases "uses_ports (def_family d)")
  case True
  have "bij_betw ((!) (def_ports d)) {..<length (def_ports d)} (set (def_ports d))"
    using assms by (intro bij_betw_nth) (simp_all add: def_ok_def)
  moreover have "bij_betw Some (set (def_ports d)) (Some ` set (def_ports d))"
    by (simp add: bij_betw_def)
  ultimately have "bij_betw (Some \<circ> (!) (def_ports d)) {..<length (def_ports d)} (Some ` set (def_ports d))"
    by (rule bij_betw_trans)
  with True assms show ?thesis by (simp add: port_factor_eq port_choices_def o_def)
next
  case False
  with assms show ?thesis by (auto simp: port_factor_eq port_choices_def bij_betw_def inj_on_def)
qed

section \<open>Decoding\<close>

lemma bij_betw_Sigma:
  assumes "\<And>x. x \<in> I \<Longrightarrow> bij_betw (f x) (A x) (B x)"
  shows "bij_betw (\<lambda>(x, y). (x, f x y)) (Sigma I A) (Sigma I B)"
proof (rule bij_betw_imageI)
  show "inj_on (\<lambda>(x, y). (x, f x y)) (Sigma I A)"
    using assms by (auto simp: inj_on_def bij_betw_def)
  show "(\<lambda>(x, y). (x, f x y)) ` Sigma I A = Sigma I B"
    using assms by (force simp: bij_betw_def)
qed

text \<open>The coordinates of a logical identifier and what they stand for.\<close>

definition split_local :: "ScanPlan \<Rightarrow> nat \<Rightarrow> nat \<Rightarrow> ScanTarget option \<times> ProbePort option" where
  "split_local p b l =
     (let d = dim_definition (dimensions p ! b); pf = port_factor d
      in (compatible_target_at (plan_targets p) (def_family d) (l div pf),
          if uses_ports (def_family d) then Some (def_ports d ! (l mod pf)) else None))"

definition coords :: "ScanPlan \<Rightarrow> nat \<Rightarrow> nat \<times> nat \<times> ScanTarget option \<times> ProbePort option" where
  "coords p i =
     (let ns = map dim_count (dimensions p); w = i mod probes_per_attempt p; b = block_of ns w
      in (i div probes_per_attempt p, b, split_local p b (w - prefix_sum ns b)))"

lemma plan_dim:
  assumes "plan_ok p" and "b < length (dimensions p)"
  shows "def_ok (dim_definition (dimensions p ! b))" "0 < compatible_targets (dimensions p ! b)"
    "compatible_targets (dimensions p ! b) =
       compatible_target_count (plan_targets p) (def_family (dim_definition (dimensions p ! b)))"
proof -
  have "dimensions p ! b \<in> set (dimensions p)" using assms(2) by (rule nth_mem)
  moreover have "\<forall>d \<in> set (dimensions p). def_ok (dim_definition d) \<and> 0 < compatible_targets d \<and>
      compatible_targets d = compatible_target_count (plan_targets p) (def_family (dim_definition d))"
    using assms(1) unfolding plan_ok_def dims_ok_def by blast
  ultimately show "def_ok (dim_definition (dimensions p ! b))" "0 < compatible_targets (dimensions p ! b)"
    "compatible_targets (dimensions p ! b) =
       compatible_target_count (plan_targets p) (def_family (dim_definition (dimensions p ! b)))"
    by blast+
qed

lemma split_local_bij:
  assumes ok: "plan_ok p" and b: "b < length (dimensions p)"
  defines "d \<equiv> dim_definition (dimensions p ! b)"
  shows "bij_betw (split_local p b) {..<map dim_count (dimensions p) ! b}
    (Some ` compatible_set (plan_targets p) (def_family d) \<times> port_choices d)"
proof -
  note dim = plan_dim [OF ok b, folded d_def]
  have count: "map dim_count (dimensions p) ! b = compatible_targets (dimensions p ! b) * port_factor d"
    using b by (simp add: dim_count_def d_def)
  have "bij_betw (map_prod (compatible_target_at (plan_targets p) (def_family d))
       (\<lambda>i. if uses_ports (def_family d) then Some (def_ports d ! i) else None))
      ({..<compatible_targets (dimensions p ! b)} \<times> {..<port_factor d})
      (Some ` compatible_set (plan_targets p) (def_family d) \<times> port_choices d)"
    unfolding dim(3)
    by (rule bij_betw_map_prod [OF compatible_target_at_bij port_bij])
      (use ok dim in \<open>auto simp: plan_ok_def\<close>)
  note bij = bij_betw_trans [OF divmod_bij [OF port_factor_pos [OF dim(1)]] this]
  have "split_local p b = map_prod (compatible_target_at (plan_targets p) (def_family d))
       (\<lambda>i. if uses_ports (def_family d) then Some (def_ports d ! i) else None)
      \<circ> (\<lambda>i. (i div port_factor d, i mod port_factor d))"
    by (rule ext) (simp add: split_local_def d_def Let_def)
  with bij show ?thesis unfolding count by simp
qed

lemma plan_counts_pos: "plan_ok p \<Longrightarrow> 0 < probes_per_attempt p"
proof -
  assume ok: "plan_ok p"
  then have "0 < length (dimensions p)" by (simp add: plan_ok_def)
  then have "0 < dim_count (dimensions p ! 0)" "dimensions p ! 0 \<in> set (dimensions p)"
    using plan_dim [OF ok, of 0] port_factor_pos by (auto simp: dim_count_def)
  moreover have "dim_count (dimensions p ! 0) \<le> sum_list (map dim_count (dimensions p))"
    using calculation(2) by (intro member_le_sum_list) auto
  ultimately show ?thesis using ok by (simp add: plan_ok_def dims_ok_def)
qed

lemma coords_bij:
  assumes ok: "plan_ok p"
  shows "bij_betw (coords p) {..<logical_probe_count p}
    ({..<attempts p} \<times> (SIGMA b:{..<length (dimensions p)}.
       Some ` compatible_set (plan_targets p) (def_family (dim_definition (dimensions p ! b)))
         \<times> port_choices (dim_definition (dimensions p ! b))))"
    (is "bij_betw _ _ (_ \<times> ?S)")
proof -
  let ?ns = "map dim_count (dimensions p)"
  have ppa: "probes_per_attempt p = sum_list ?ns" using ok by (simp add: plan_ok_def dims_ok_def)
  have "{(b, off). b < length ?ns \<and> off < ?ns ! b} = (SIGMA b:{..<length (dimensions p)}. {..<?ns ! b})"
    by auto
  then have "bij_betw (\<lambda>w. (block_of ?ns w, w - prefix_sum ?ns (block_of ?ns w)))
      {..<probes_per_attempt p} (SIGMA b:{..<length (dimensions p)}. {..<?ns ! b})"
    using block_offset_bij [of ?ns] by (simp add: ppa)
  moreover have "bij_betw (\<lambda>(b, l). (b, split_local p b l)) (SIGMA b:{..<length (dimensions p)}. {..<?ns ! b}) ?S"
    by (rule bij_betw_Sigma) (rule split_local_bij [OF ok], simp)
  ultimately have "bij_betw ((\<lambda>(b, l). (b, split_local p b l)) \<circ>
      (\<lambda>w. (block_of ?ns w, w - prefix_sum ?ns (block_of ?ns w)))) {..<probes_per_attempt p} ?S"
    by (rule bij_betw_trans)
  from bij_betw_Sigma [where I = "{..<attempts p}", OF this]
  have "bij_betw (\<lambda>(a, w). (a, block_of ?ns w, split_local p (block_of ?ns w) (w - prefix_sum ?ns (block_of ?ns w))))
      ({..<attempts p} \<times> {..<probes_per_attempt p}) ({..<attempts p} \<times> ?S)"
    by (simp add: o_def)
  from bij_betw_trans [OF divmod_bij [OF plan_counts_pos [OF ok], of "attempts p"] this]
  show ?thesis using ok by (simp add: coords_def [abs_def] o_def Let_def plan_ok_def)
qed

lemma logical_probe_at_coords:
  assumes ok: "plan_ok p" and i: "i < logical_probe_count p" and co: "coords p i = (a, b, Some t, po)"
  shows "logical_probe_at p i = Ok \<lparr>logical_id = i, attempt = a + 1, target = t,
    family = def_family (dim_definition (dimensions p ! b)), port = po\<rparr>"
proof -
  let ?ns = "map dim_count (dimensions p)" and ?w = "i mod probes_per_attempt p"
  define l where "l = ?w - prefix_sum ?ns b"
  define d where "d = dim_definition (dimensions p ! b)"
  have ends: "map dim_end (dimensions p) = running_totals ?ns" and ppa: "probes_per_attempt p = sum_list ?ns"
    using ok by (simp_all add: plan_ok_def dims_ok_def)
  have a: "a = i div probes_per_attempt p" and b: "b = block_of ?ns ?w" and sl: "split_local p b l = (Some t, po)"
    using co by (auto simp: coords_def Let_def l_def)
  have "?w < sum_list ?ns" using plan_counts_pos [OF ok] by (simp add: ppa)
  then have bl: "b < length (dimensions p)" using block_of_bounds(1) [of ?w ?ns] by (simp add: b)
  have pp: "partition_point (\<lambda>d. dim_end d \<le> ?w) (dimensions p) = b"
    unfolding b block_of_def ends [symmetric] by (simp add: partition_point_map o_def)
  have prev: "(if b = 0 then 0 else dim_end (dimensions p ! (b - 1))) = prefix_sum ?ns b"
  proof (cases b)
    case (Suc k)
    then have "dim_end (dimensions p ! k) = running_totals ?ns ! k"
      using bl by (metis Suc_lessD ends nth_map)
    with Suc bl show ?thesis by (simp add: nth_running_totals)
  qed simp
  note dim = plan_dim [OF ok bl, folded d_def]
  have port: "(if uses_ports (def_family d)
      then rbind (ok_or (try_from 64 (l mod port_factor d)) LogicalProbeIndexOutOfRange)
             (\<lambda>i. Ok (Some (def_ports d ! i)))
      else Ok None) = Ok po"
  proof (cases "uses_ports (def_family d)")
    case True
    have "l mod port_factor d < port_factor d" using port_factor_pos [OF dim(1)] by simp
    also have "port_factor d \<le> 65536"
      using dim(1) True by (simp add: port_factor_eq def_ok_def bounds_defs)
    finally have "try_from 64 (l mod port_factor d) = Some (l mod port_factor d)"
      by (simp add: try_from_def max_of_def)
    with True sl show ?thesis by (simp add: split_local_def d_def Let_def)
  next
    case False
    with sl show ?thesis by (simp add: split_local_def d_def Let_def)
  qed
  have "i div probes_per_attempt p < attempts p"
    using i ok by (simp add: plan_ok_def less_mult_imp_div_less)
  then have att: "try_from 32 (i div probes_per_attempt p + 1) = Some (a + 1)"
    using ok by (simp add: plan_ok_def try_from_def a)
  have tgt: "compatible_target_at (plan_targets p) (def_family d) (l div port_factor d) = Some t"
    using sl by (simp add: split_local_def d_def Let_def)
  show ?thesis
    using i bl port tgt att
    unfolding logical_probe_at_def Let_def pp prev l_def [symmetric] d_def [symmetric] by simp
qed

definition probe_tuple :: "LogicalProbe \<Rightarrow> nat \<times> ScanTarget \<times> ProbeFamily \<times> ProbePort option" where
  "probe_tuple pr = (attempt pr, target pr, family pr, port pr)"

definition decoded ::
  "ScanPlan \<Rightarrow> nat \<Rightarrow> (nat \<times> ScanTarget \<times> ProbeFamily \<times> ProbePort option) option" where
  "decoded p i = (case logical_probe_at p i of Inl _ \<Rightarrow> None | Inr pr \<Rightarrow> Some (probe_tuple pr))"

definition product :: "TargetSet \<Rightarrow> ProbeDefinition list \<Rightarrow> nat
    \<Rightarrow> (nat \<times> ScanTarget \<times> ProbeFamily \<times> ProbePort option) set" where
  "product ts defs att = {(a, t, f, po). 1 \<le> a \<and> a \<le> att \<and>
     (\<exists>d \<in> set defs. f = def_family d \<and> t \<in> compatible_set ts f \<and> po \<in> port_choices d)}"

definition name_coords :: "ScanPlan \<Rightarrow> nat \<times> nat \<times> ScanTarget option \<times> ProbePort option
    \<Rightarrow> (nat \<times> ScanTarget \<times> ProbeFamily \<times> ProbePort option) option" where
  "name_coords p = (\<lambda>(a, b, t, po).
     Some (a + 1, the t, def_family (dim_definition (dimensions p ! b)), po))"

lemma name_coords_bij:
  assumes ok: "plan_ok p"
  shows "bij_betw (name_coords p)
    ({..<attempts p} \<times> (SIGMA b:{..<length (dimensions p)}.
       Some ` compatible_set (plan_targets p) (def_family (dim_definition (dimensions p ! b)))
         \<times> port_choices (dim_definition (dimensions p ! b))))
    (Some ` product (plan_targets p) (map dim_definition (dimensions p)) (attempts p))"
    (is "bij_betw _ ?A (Some ` ?B)")
proof (rule bij_betw_imageI)
  let ?fam = "\<lambda>b. def_family (dim_definition (dimensions p ! b))"
  have dist: "distinct (map (def_family \<circ> dim_definition) (dimensions p))"
    using ok by (simp add: plan_ok_def dims_ok_def)
  have "b = c" if "b < length (dimensions p)" "c < length (dimensions p)" "?fam b = ?fam c" for b c
    using nth_eq_iff_index_eq [OF dist, of b c] that by simp
  then show "inj_on (name_coords p) ?A" by (auto simp: inj_on_def name_coords_def)
  show "name_coords p ` ?A = Some ` ?B"
  proof
    show "name_coords p ` ?A \<subseteq> Some ` ?B"
      by (auto simp: name_coords_def product_def intro!: imageI bexI [OF _ nth_mem])
    show "Some ` ?B \<subseteq> name_coords p ` ?A"
    proof
      fix x assume "x \<in> Some ` ?B"
      then obtain a t po d where x: "x = Some (a, t, def_family d, po)" and a: "1 \<le> a" "a \<le> attempts p"
        and d: "d \<in> set (map dim_definition (dimensions p))"
        and t: "t \<in> compatible_set (plan_targets p) (def_family d)" "po \<in> port_choices d"
        by (auto simp: product_def)
      then obtain b where b: "b < length (dimensions p)" "d = dim_definition (dimensions p ! b)"
        by (auto simp: in_set_conv_nth)
      have "x = name_coords p (a - 1, b, Some t, po)" using x a b by (simp add: name_coords_def)
      moreover have "(a - 1, b, Some t, po) \<in> ?A" using a b t by auto
      ultimately show "x \<in> name_coords p ` ?A" by (rule image_eqI)
    qed
  qed
qed

lemma decoded_bij:
  assumes ok: "plan_ok p"
  shows "bij_betw (decoded p) {..<logical_probe_count p}
    (Some ` product (plan_targets p) (map dim_definition (dimensions p)) (attempts p))"
    and "i < logical_probe_count p \<Longrightarrow> \<exists>pr. logical_probe_at p i = Ok pr \<and> logical_id pr = i"
proof -
  have at: "\<exists>a b t po. coords p i = (a, b, Some t, po)" if "i < logical_probe_count p" for i
    using bij_betwE [OF coords_bij [OF ok]] that by fastforce
  then have "decoded p i = (name_coords p \<circ> coords p) i" if "i \<in> {..<logical_probe_count p}" for i
    using that logical_probe_at_coords [OF ok]
    by (fastforce simp: decoded_def name_coords_def probe_tuple_def)
  from bij_betw_cong [THEN iffD2, OF this bij_betw_trans [OF coords_bij [OF ok] name_coords_bij [OF ok]]]
  show "bij_betw (decoded p) {..<logical_probe_count p}
    (Some ` product (plan_targets p) (map dim_definition (dimensions p)) (attempts p))" .
  show "\<exists>pr. logical_probe_at p i = Ok pr \<and> logical_id pr = i" if "i < logical_probe_count p"
    using at [OF that] logical_probe_at_coords [OF ok that] by auto
qed

section \<open>Properties\<close>

definition example_definitions :: "ProbeDefinition list" where
  "example_definitions =
     [\<lparr>def_family = TcpSyn, def_ports = [22, 80], udp_programme = None\<rparr>,
      \<lparr>def_family = Icmpv4Echo, def_ports = [], udp_programme = None\<rparr>]"

definition example_plan :: ScanPlan where
  "example_plan =
     \<lparr>plan_targets = example_targets,
      dimensions =
        [\<lparr>dim_definition = \<lparr>def_family = TcpSyn, def_ports = [22, 80], udp_programme = None\<rparr>,
          compatible_targets = 3, dim_end = 6\<rparr>,
         \<lparr>dim_definition = \<lparr>def_family = Icmpv4Echo, def_ports = [], udp_programme = None\<rparr>,
          compatible_targets = 3, dim_end = 9\<rparr>],
      attempts = 2, probes_per_attempt = 9, logical_probe_count = 18\<rparr>"

lemma example_plan_new: "ScanPlan_new example_targets example_definitions 2 = Ok example_plan"
  by (simp add: ScanPlan_new_def example_definitions_def example_targets_def example_plan_def
      bounds_defs compatible_target_count_def port_factor_def try_from_def max_of_def checked_mul_def
      checked_add_def Let_def)

lemma example_definitions_new:
  "list_all (\<lambda>d. \<exists>fam ports. ProbeDefinition_new fam ports = Ok d) example_definitions"
proof -
  have "ProbeDefinition_new TcpSyn [80, 22]
      = Ok \<lparr>def_family = TcpSyn, def_ports = [22, 80], udp_programme = None\<rparr>"
    by (simp add: ProbeDefinition_new_def bounds_defs Let_def)
  moreover have "ProbeDefinition_new Icmpv4Echo []
      = Ok \<lparr>def_family = Icmpv4Echo, def_ports = [], udp_programme = None\<rparr>"
    by (simp add: ProbeDefinition_new_def bounds_defs Let_def)
  ultimately show ?thesis unfolding example_definitions_def by (simp only: list.pred_inject) blast
qed

text \<open>
  C24. A plan decodes its logical identifiers one to one onto the product of attempts,
  targets, families and ports: every identifier below the count decodes to a probe that
  carries that identifier, every combination of an attempt, a validated definition, a
  compatible target and one of the definition's ports is decoded from exactly one
  identifier, and every other identifier is refused.
\<close>

theorem plan_covers_product:
  assumes "list_all endpoint_wf includes" and "list_all endpoint_wf excludes"
    and "normalize includes excludes = Ok ts"
    and "list_all (\<lambda>d. (\<exists>fam ports. ProbeDefinition_new fam ports = Ok d) \<or>
           (\<exists>ports programme. ProbeDefinition_udp ports programme = Ok d)) defs"
    and "att \<le> max_of 32" and "ScanPlan_new ts defs att = Ok p"
  shows "bij_betw (decoded p) {..<logical_probe_count p} (Some ` product ts defs att) \<and>
    (\<forall>i < logical_probe_count p. \<exists>pr. logical_probe_at p i = Ok pr \<and> logical_id pr = i) \<and>
    (\<forall>i \<ge> logical_probe_count p. logical_probe_at p i = Err LogicalProbeIndexOutOfRange)"
proof -
  have "ts_ok ts" using normalize_rep [OF assms(1-3)] by simp
  moreover have "list_all def_ok defs"
    using assms(4) ProbeDefinition_new_ok ProbeDefinition_udp_ok by (auto simp: list_all_iff)
  ultimately have ok: "plan_ok p" "map dim_definition (dimensions p) = defs" "plan_targets p = ts" "attempts p = att"
    using ScanPlan_new_ok [OF assms(6)] assms(5) by simp_all
  then show ?thesis
    using decoded_bij [OF ok(1)] by (auto simp: logical_probe_at_def)
qed

theorem plan_covers_product_witness:
  "bij_betw (decoded example_plan) {..<18} (Some ` product example_targets example_definitions 2) \<and>
   logical_probe_at example_plan 18 = Err LogicalProbeIndexOutOfRange"
proof -
  have defs: "list_all (\<lambda>d. (\<exists>fam ports. ProbeDefinition_new fam ports = Ok d) \<or>
      (\<exists>ports programme. ProbeDefinition_udp ports programme = Ok d)) example_definitions"
    using example_definitions_new by (auto simp: list_all_iff)
  have "(2::nat) \<le> max_of 32" by (simp add: max_of_def)
  moreover have "logical_probe_count example_plan = 18" by (simp add: example_plan_def)
  ultimately show ?thesis
    using plan_covers_product [OF example_wf example_normalize defs _ example_plan_new] by simp
qed

end
