(* ===== verification/Scheduler_State.thy ===== *)
theory Scheduler_State
  imports Effects Ordered_Map Permutation Timing Plan
begin

text \<open>
  The state of \<^verbatim>\<open>ScanScheduler\<close> in \<^verbatim>\<open>scheduler.rs\<close>, its pure decision functions
  (evidence classification, aggregation order, neighbour checks, timeouts) and the traits
  through which it reaches the outside: transport, context resolver and result sink.
\<close>

section \<open>Data\<close>

record ProbeEmission =
  em_probe_id :: nat
  em_probe :: LogicalProbe
  em_route_generation :: nat
  em_purpose :: EmissionPurpose
  em_transmission :: nat
  em_udp_variant :: "UdpProbeVariant option"

record PendingTerminal =
  term_outcome :: ProbeOutcome
  term_strength :: "EvidenceStrength option"
  term_rtt :: "ScanDuration option"
  term_reason :: TerminalReason

datatype ActiveStage =
    StagePending EmissionPurpose
  | StageWaiting EmissionPurpose MonotonicTime
  | StagePendingCleanup PendingTerminal

record ActiveProbe =
  ap_probe :: LogicalProbe
  ap_context :: ResolvedContext
  ap_stage :: ActiveStage
  stage_transmissions :: nat
  total_transmissions :: nat
  last_probe_sent_at :: "MonotonicTime option"

record ProgrammePhysical =
  ph_logical_id :: nat
  ph_variant :: UdpProbeVariant
  ph_stage :: ActiveStage
  ph_transmissions :: nat
  ph_last_sent_at :: "MonotonicTime option"

record ProgrammeBest =
  best_rank :: nat
  best_state :: NetworkState
  best_strength :: "EvidenceStrength option"
  best_reason :: TerminalReason
  best_response_kind :: UdpResponseKind
  best_variant :: UdpProbeVariant
  best_rtt :: "ScanDuration option"
  best_service :: "UdpServiceEvidence option"

record ProgrammeLogical =
  lg_probe :: LogicalProbe
  lg_context :: ResolvedContext
  variant_count :: nat
  next_variant :: nat
  lg_active :: nat
  lg_grace :: nat
  attempted :: nat
  lg_transmissions :: nat
  contradictions :: nat
  best :: "ProgrammeBest option"
  reservation_bytes :: nat
  neighbor_ready :: bool
  stop_unsent :: bool
  soft_service_family :: "nat option"

record ProgrammeGrace =
  pg_logical_id :: nat
  pg_expires :: MonotonicTime
  pg_variant :: UdpProbeVariant
  pg_last_sent_at :: "MonotonicTime option"

record StopState =
  stop_outcome :: ProbeOutcome
  stop_reason :: TerminalReason
  final_lifecycle :: SessionLifecycle

datatype GenerationFilter = AllGenerations | ExactGeneration nat

fun filter_matches :: "GenerationFilter \<Rightarrow> nat \<Rightarrow> bool" where
  "filter_matches AllGenerations g \<longleftrightarrow> True"
| "filter_matches (ExactGeneration e) g \<longleftrightarrow> g = e"

record ScanScheduler =
  plan :: ScanPlan
  config :: SchedulerConfig
  permutation :: SeededPermutation
  lifecycle :: SessionLifecycle
  session_deadline :: "MonotonicTime option"
  last_now :: "MonotonicTime option"
  cursor :: nat
  active :: "(nat, ActiveProbe) btree"
  grace :: "(nat, MonotonicTime) btree"
  programmes :: "(nat, ProgrammeLogical) btree"
  programme_ready :: "nat list"
  physical :: "(nat, ProgrammePhysical) btree"
  programme_grace :: "(nat, ProgrammeGrace) btree"
  next_wire_id :: nat
  deferred :: "LogicalProbe list"
  per_target :: "(ScanTarget, nat) btree"
  per_prefix :: "(PrefixKey, nat) btree"
  adaptive_icmp_seen :: "(ScanTarget, nat) btree"
  adaptive_not_before :: "(ScanTarget, MonotonicTime) btree"
  bucket :: "TokenBucket option"
  rtt :: RttEstimator
  diagnostics :: DiagnosticCounters
  context_waiting :: bool
  sink_backpressured :: bool
  stop :: "StopState option"
  invalidating_generation :: "GenerationFilter option"

definition DiagnosticCounters_default :: DiagnosticCounters where
  "DiagnosticCounters_default =
     \<lparr>forged_or_unrelated = 0, non_first_fragment = 0, opaque_protocol = 0, insufficient_quote = 0,
      duplicates = 0, late_responses = 0, context_invalidations = 0, udp_icmp_pacing = 0\<rparr>"

definition ScanScheduler_new ::
  "ScanPlan \<Rightarrow> SchedulerConfig \<Rightarrow> SeededPermutation \<Rightarrow> (EngineError, ScanScheduler) result" where
  "ScanScheduler_new pl cfg perm =
     (case config_validate cfg of
        Inl e \<Rightarrow> Err (EngineConfig e)
      | Inr c \<Rightarrow>
          if perm_length perm \<noteq> logical_probe_count pl then Err (EnginePlan LogicalProbeIndexOutOfRange)
          else Ok \<lparr>plan = pl, config = c, permutation = perm, lifecycle = Created,
                   session_deadline = None, last_now = None, cursor = 0, active = [], grace = [],
                   programmes = [], programme_ready = [], physical = [], programme_grace = [],
                   next_wire_id = logical_probe_count pl, deferred = [], per_target = [],
                   per_prefix = [], adaptive_icmp_seen = [], adaptive_not_before = [],
                   bucket = None, rtt = RttEstimator_default,
                   diagnostics = DiagnosticCounters_default, context_waiting = False,
                   sink_backpressured = False, stop = None, invalidating_generation = None\<rparr>)"

section \<open>Decisions\<close>

fun classify_state :: "ProbeFamily \<Rightarrow> EvidenceKind \<Rightarrow> NetworkState option" where
  "classify_state TcpSyn TcpSynAcknowledgment = Some Open"
| "classify_state TcpSyn TcpReset = Some ClosedPort"
| "classify_state TcpSyn IcmpPortUnreachable = Some Filtered"
| "classify_state TcpSyn IcmpOtherError = Some Filtered"
| "classify_state TcpSyn ExplicitUnreachable = Some Filtered"
| "classify_state TcpSyn _ = None"
| "classify_state Udp UdpReply = Some Open"
| "classify_state Udp IcmpPortUnreachable = Some ClosedPort"
| "classify_state Udp IcmpOtherError = Some Filtered"
| "classify_state Udp ExplicitUnreachable = Some Filtered"
| "classify_state Udp _ = None"
| "classify_state Arp ArpReply = Some Up"
| "classify_state Arp IcmpOtherError = Some Unreachable"
| "classify_state Arp ExplicitUnreachable = Some Unreachable"
| "classify_state Arp _ = None"
| "classify_state Ndp NeighborAdvertisement = Some Up"
| "classify_state Ndp IcmpOtherError = Some Unreachable"
| "classify_state Ndp ExplicitUnreachable = Some Unreachable"
| "classify_state Ndp _ = None"
| "classify_state _ EchoReply = Some Up"
| "classify_state _ IcmpPortUnreachable = Some Unreachable"
| "classify_state _ IcmpOtherError = Some Unreachable"
| "classify_state _ ExplicitUnreachable = Some Unreachable"
| "classify_state _ _ = None"

definition classify_terminal :: "LogicalProbe \<Rightarrow> EvidenceEvent \<Rightarrow> (EngineError, PendingTerminal) result"
  where
  "classify_terminal probe event =
     (case classify_state (family probe) (kind event) of
        None \<Rightarrow> Err InvalidEvidence
      | Some state \<Rightarrow>
          Ok \<lparr>term_outcome = Network state, term_strength = Some (event_strength event),
              term_rtt = None, term_reason = ReasonEvidence (kind event)\<rparr>)"

definition classify_udp_icmp ::
  "IcmpEvidence option \<Rightarrow> EvidenceKind \<Rightarrow> (nat \<times> NetworkState \<times> UdpResponseKind) option" where
  "classify_udp_icmp detail legacy_kind =
     (case detail of
        None \<Rightarrow>
          (case legacy_kind of
             IcmpPortUnreachable \<Rightarrow> Some (3, ClosedPort, Icmpv4TargetPortUnreachable)
           | IcmpOtherError \<Rightarrow> Some (2, Filtered, OtherIcmpv4)
           | ExplicitUnreachable \<Rightarrow> Some (2, Filtered, OtherIcmpv4)
           | _ \<Rightarrow> None)
      | Some d \<Rightarrow>
          let key = (icmp_family d, message_type d, icmp_code d)
          in if (key = (4, 3, 3) \<or> key = (6, 1, 4)) \<and> emitter_is_target d then
               Some (3, ClosedPort,
                 if icmp_family d = 4 then Icmpv4TargetPortUnreachable
                 else Icmpv6TargetPortUnreachable)
             else if key = (4, 3, 3) then Some (2, Filtered, OtherIcmpv4)
             else if (icmp_family d = 4 \<and> message_type d = 3 \<and> icmp_code d \<in> {0, 1, 2, 9, 10, 13})
                  \<or> (icmp_family d = 4 \<and> message_type d = 11 \<and> icmp_code d \<in> {0, 1})
                  \<or> (icmp_family d = 6 \<and> message_type d = 1 \<and> icmp_code d \<le> 6)
                  \<or> key = (6, 4, 1) then
               Some (2, Filtered,
                 if icmp_family d = 4 then OtherIcmpv4
                 else if message_type d = 4 then Icmpv6ParameterProblem
                 else OtherIcmpv6)
             else if key = (6, 4, 0) then Some (4, Open, Icmpv6ParameterProblem)
             else None)"

fun is_udp_observation :: "EvidenceKind \<Rightarrow> bool" where
  "is_udp_observation UdpReply \<longleftrightarrow> True"
| "is_udp_observation IcmpPortUnreachable \<longleftrightarrow> True"
| "is_udp_observation IcmpOtherError \<longleftrightarrow> True"
| "is_udp_observation ExplicitUnreachable \<longleftrightarrow> True"
| "is_udp_observation _ \<longleftrightarrow> False"

definition classify_udp_evidence ::
  "UdpProbeVariant \<Rightarrow> EvidenceEvent \<Rightarrow> MonotonicTime option \<Rightarrow> MonotonicTime
     \<Rightarrow> ProgrammeBest option" where
  "classify_udp_evidence variant event sent_at now =
     map_option (\<lambda>(rank, state, response_kind).
       \<lparr>best_rank = rank, best_state = state, best_strength = Some (event_strength event),
        best_reason = ReasonEvidence (kind event), best_response_kind = response_kind,
        best_variant = variant,
        best_rtt = Option.bind sent_at (\<lambda>sent. elapsed_since now sent),
        best_service = udp_service event\<rparr>)
     (case kind event of
        UdpReply \<Rightarrow> Some (4, Open, DirectUdp)
      | IcmpPortUnreachable \<Rightarrow> classify_udp_icmp (icmp event) (kind event)
      | IcmpOtherError \<Rightarrow> classify_udp_icmp (icmp event) (kind event)
      | ExplicitUnreachable \<Rightarrow> classify_udp_icmp (icmp event) (kind event)
      | _ \<Rightarrow> None)"

definition service_rank :: "UdpServiceEvidence option \<Rightarrow> nat" where
  "service_rank service = (case service of None \<Rightarrow> 0 | Some v \<Rightarrow> confidence_code (confidence v))"

definition variant_order :: "UdpProbeVariant \<Rightarrow> nat \<times> nat" where
  "variant_order v =
     (case catalogue_probe_id v of Some c \<Rightarrow> c | None \<Rightarrow> max_of 16, request_index v)"

definition replaces :: "ProgrammeBest \<Rightarrow> ProgrammeBest \<Rightarrow> bool" where
  "replaces candidate prior \<longleftrightarrow>
     best_rank candidate > best_rank prior \<or>
     (best_rank candidate = best_rank prior \<and>
       (service_rank (best_service candidate) > service_rank (best_service prior) \<or>
        (service_rank (best_service candidate) = service_rank (best_service prior) \<and>
         variant_order (best_variant candidate) < variant_order (best_variant prior))))"

text \<open>The update of \<^verbatim>\<open>update_programme_best\<close> on the logical record.\<close>

definition absorb :: "ProgrammeBest \<Rightarrow> ProgrammeLogical \<Rightarrow> ProgrammeLogical" where
  "absorb candidate lg =
     (let lg' = (case best lg of
                   Some prior \<Rightarrow>
                     if best_state prior \<noteq> best_state candidate
                     then lg\<lparr>contradictions := saturating_add 16 (contradictions lg) 1\<rparr> else lg
                 | None \<Rightarrow> lg)
      in if (case best lg of None \<Rightarrow> True | Some prior \<Rightarrow> replaces candidate prior)
         then lg'\<lparr>best := Some candidate\<rparr> else lg')"

definition valid_neighbor_setup :: "LogicalProbe \<Rightarrow> ProbeFamily option \<Rightarrow> bool" where
  "valid_neighbor_setup probe setup =
     (case (target_address (target probe), setup) of
        (_, None) \<Rightarrow> True
      | (V4 _, Some f) \<Rightarrow> f = Arp
      | (V6 _, Some f) \<Rightarrow> f = Ndp)"

definition valid_neighbor_evidence :: "ProbeFamily \<Rightarrow> EvidenceKind \<Rightarrow> bool" where
  "valid_neighbor_evidence setup k \<longleftrightarrow>
     k = NeighborResolved \<or> (setup = Arp \<and> k = ArpReply) \<or> (setup = Ndp \<and> k = NeighborAdvertisement)"

definition timeout_terminal :: "LogicalProbe \<Rightarrow> DiscoverySilencePolicy \<Rightarrow> PendingTerminal" where
  "timeout_terminal probe policy =
     \<lparr>term_outcome = Network
        (case family probe of
           TcpSyn \<Rightarrow> Filtered
         | Udp \<Rightarrow> OpenOrFiltered
         | _ \<Rightarrow> (case policy of SilenceUnknown \<Rightarrow> Unknown | SilenceDownByPolicy \<Rightarrow> DownByPolicy)),
      term_strength = None, term_rtt = None, term_reason = Timeout\<rparr>"

definition earlier :: "MonotonicTime option \<Rightarrow> MonotonicTime option \<Rightarrow> MonotonicTime option" where
  "earlier l r =
     (case (l, r) of
        (Some a, Some b) \<Rightarrow> Some (if a \<le> b then a else b)
      | (Some v, None) \<Rightarrow> Some v
      | (None, Some v) \<Rightarrow> Some v
      | (None, None) \<Rightarrow> None)"

text \<open>\<^verbatim>\<open>values().copied().min()\<close>\<close>

definition min_value :: "nat list \<Rightarrow> nat option" where
  "min_value xs = (case xs of [] \<Rightarrow> None | x # xs' \<Rightarrow> Some (fold min xs' x))"

section \<open>Measures of the state\<close>

definition outstanding_physical :: "ScanScheduler \<Rightarrow> nat" where
  "outstanding_physical s = saturating_add 64 (length (active s)) (length (physical s))"

definition total_correlation_entries :: "ScanScheduler \<Rightarrow> nat" where
  "total_correlation_entries s =
     saturating_add 64 (saturating_add 64 (saturating_add 64 (length (active s)) (length (physical s)))
       (length (grace s))) (length (programme_grace s))"

definition is_terminal :: "ScanScheduler \<Rightarrow> bool" where
  "is_terminal s \<longleftrightarrow> lifecycle s \<in> {Completed, Failed, Closed}"

definition deadline_reached :: "MonotonicTime \<Rightarrow> ScanScheduler \<Rightarrow> bool" where
  "deadline_reached now s = (case session_deadline s of None \<Rightarrow> False | Some d \<Rightarrow> now \<ge> d)"

definition maximum_concurrent :: "UdpProbeStrategy \<Rightarrow> nat" where
  "maximum_concurrent st = (if st = AdaptiveStrategy then 1 else MAX_CONCURRENT_UDP_VARIANTS)"

definition can_schedule_programme_variant :: "MonotonicTime \<Rightarrow> ScanScheduler \<Rightarrow> bool" where
  "can_schedule_programme_variant now s =
     (if outstanding_physical s \<ge> max_outstanding (config s)
         \<or> total_correlation_entries s \<ge> max_grace_entries (config s)
      then False
      else list_ex (\<lambda>lid.
        case bt_get (programmes s) lid of
          None \<Rightarrow> False
        | Some lg \<Rightarrow>
            \<not> stop_unsent lg \<and> next_variant lg < variant_count lg
            \<and> lg_active lg <
                (case udp_programme_for (plan s) (lg_probe lg) of
                   None \<Rightarrow> MAX_CONCURRENT_UDP_VARIANTS
                 | Some p \<Rightarrow> maximum_concurrent (strategy p))
            \<and> (case bt_get (adaptive_not_before s) (target (lg_probe lg)) of
                 None \<Rightarrow> True | Some d \<Rightarrow> now \<ge> d)
            \<and> (neighbor_ready lg \<or> lg_active lg = 0)
            \<and> count_of (per_target s) (target (lg_probe lg)) < max_per_target (config s)
            \<and> count_of (per_prefix s) (prefix_key (lg_context lg)) < max_per_prefix (config s))
        (programme_ready s))"

section \<open>The outside\<close>

text \<open>
  The traits \<^verbatim>\<open>ProbeTransport\<close>, \<^verbatim>\<open>ContextResolver\<close> and \<^verbatim>\<open>ResultSink\<close>: one function per
  method, over the implementor's own state. Failures carry their numeric code.
\<close>

record ('t, 'r, 's) env =
  emit :: "'t \<Rightarrow> ProbeEmission \<Rightarrow> (nat, unit) result \<times> 't"
  retire :: "'t \<Rightarrow> nat \<Rightarrow> 't"
  resolve :: "'r \<Rightarrow> LogicalProbe \<Rightarrow> (nat, ContextResolution) result \<times> 'r"
  try_reserve :: "'s \<Rightarrow> (nat, SinkReservation) result \<times> 's"
  try_reserve_with_bytes :: "'s \<Rightarrow> nat \<Rightarrow> (nat, SinkReservation) result \<times> 's"
  commit_reserved :: "'s \<Rightarrow> ScanResult \<Rightarrow> (nat, unit) result \<times> 's"
  commit_reserved_with_bytes :: "'s \<Rightarrow> ScanResult \<Rightarrow> nat \<Rightarrow> nat \<Rightarrow> (nat, unit) result \<times> 's"
  release_reserved :: "'s \<Rightarrow> nat \<Rightarrow> (nat, unit) result \<times> 's"
  release_reserved_with_bytes :: "'s \<Rightarrow> nat \<Rightarrow> nat \<Rightarrow> (nat, unit) result \<times> 's"

record MutableReport =
  transitions :: nat
  emissions :: nat
  results :: nat

text \<open>
  The whole system: the scheduler, the three implementors, the report in scope, and a
  ghost trace of the successful outside calls and of stop requests, which no operation reads.
\<close>

datatype TraceEvent =
    Emitted ProbeEmission
  | ReservedRow
  | Committed ScanResult
  | ReleasedRows nat
  | StopRequested

record ('t, 'r, 's) sys =
  sched :: ScanScheduler
  transport :: 't
  resolver :: 'r
  sink :: 's
  report :: MutableReport
  trace :: "TraceEvent list"

end
