(* ===== verification/Scheduler.thy ===== *)
theory Scheduler
  imports Scheduler_State
begin

text \<open>
  The operations of \<^verbatim>\<open>ScanScheduler\<close> in \<^verbatim>\<open>scheduler.rs\<close>, one definition per method, as
  actions over the whole system. A report that the source creates with
  \<^verbatim>\<open>MutableReport::default()\<close> replaces the report in scope; no method uses two at a time.
  The reading of the injected clock is an argument.
\<close>

section \<open>State access\<close>

type_synonym ('t, 'r, 's, 'a) op = "(('t, 'r, 's) sys, 'a) action"

definition gets :: "(ScanScheduler \<Rightarrow> 'a) \<Rightarrow> ('t, 'r, 's, 'a) op" where
  "gets f = sget (\<lambda>w. f (sched w))"

definition upd :: "(ScanScheduler \<Rightarrow> ScanScheduler) \<Rightarrow> ('t, 'r, 's, unit) op" where
  "upd f = smod (\<lambda>w. w\<lparr>sched := f (sched w)\<rparr>)"

definition reset_report :: "('t, 'r, 's, unit) op" where
  "reset_report = smod (\<lambda>w. w\<lparr>report := \<lparr>transitions = 0, emissions = 0, results = 0\<rparr>\<rparr>)"

definition bump_transitions :: "('t, 'r, 's, unit) op" where
  "bump_transitions = smod (\<lambda>w. w\<lparr>report := (report w)\<lparr>transitions := transitions (report w) + 1\<rparr>\<rparr>)"

definition bump_emissions :: "('t, 'r, 's, unit) op" where
  "bump_emissions = smod (\<lambda>w. w\<lparr>report := (report w)\<lparr>emissions := emissions (report w) + 1\<rparr>\<rparr>)"

definition bump_results :: "('t, 'r, 's, unit) op" where
  "bump_results = smod (\<lambda>w. w\<lparr>report := (report w)\<lparr>results := results (report w) + 1\<rparr>\<rparr>)"

text \<open>\<^verbatim>\<open>MAX_TRANSITIONS_PER_DRIVE.saturating_sub(report.transitions)\<close>\<close>

definition remaining :: "('t, 'r, 's) sys \<Rightarrow> nat" where
  "remaining w = MAX_TRANSITIONS_PER_DRIVE - transitions (report w)"

definition count_diag :: "(DiagnosticCounters \<Rightarrow> DiagnosticCounters) \<Rightarrow> ('t, 'r, 's, unit) op" where
  "count_diag f = upd (\<lambda>s. s\<lparr>diagnostics := f (diagnostics s)\<rparr>)"

definition inc_forged :: "DiagnosticCounters \<Rightarrow> DiagnosticCounters" where
  "inc_forged d = d\<lparr>forged_or_unrelated := saturating_add 64 (forged_or_unrelated d) 1\<rparr>"

definition inc_late :: "DiagnosticCounters \<Rightarrow> DiagnosticCounters" where
  "inc_late d = d\<lparr>late_responses := saturating_add 64 (late_responses d) 1\<rparr>"

definition inc_duplicates :: "DiagnosticCounters \<Rightarrow> DiagnosticCounters" where
  "inc_duplicates d = d\<lparr>duplicates := saturating_add 64 (duplicates d) 1\<rparr>"

definition inc_invalidations :: "DiagnosticCounters \<Rightarrow> DiagnosticCounters" where
  "inc_invalidations d = d\<lparr>context_invalidations := saturating_add 64 (context_invalidations d) 1\<rparr>"

definition inc_pacing :: "DiagnosticCounters \<Rightarrow> DiagnosticCounters" where
  "inc_pacing d = d\<lparr>udp_icmp_pacing := saturating_add 64 (udp_icmp_pacing d) 1\<rparr>"

text \<open>\<^verbatim>\<open>get(..).copied().ok_or(ReservationInvariant)?\<close> and writes through \<^verbatim>\<open>get_mut\<close>.\<close>

definition get_active :: "nat \<Rightarrow> ('t, 'r, 's, ActiveProbe) op" where
  "get_active i = sbind (gets (\<lambda>s. bt_get (active s) i)) (\<lambda>x. ok_or_throw x ReservationInvariant)"

definition get_physical :: "nat \<Rightarrow> ('t, 'r, 's, ProgrammePhysical) op" where
  "get_physical i = sbind (gets (\<lambda>s. bt_get (physical s) i)) (\<lambda>x. ok_or_throw x ReservationInvariant)"

definition get_programme :: "nat \<Rightarrow> ('t, 'r, 's, ProgrammeLogical) op" where
  "get_programme i = sbind (gets (\<lambda>s. bt_get (programmes s) i)) (\<lambda>x. ok_or_throw x ReservationInvariant)"

definition upd_active :: "nat \<Rightarrow> (ActiveProbe \<Rightarrow> ActiveProbe) \<Rightarrow> ('t, 'r, 's, unit) op" where
  "upd_active i f = sbind (get_active i) (\<lambda>_. upd (\<lambda>s. s\<lparr>active := bt_adjust i f (active s)\<rparr>))"

definition upd_physical :: "nat \<Rightarrow> (ProgrammePhysical \<Rightarrow> ProgrammePhysical) \<Rightarrow> ('t, 'r, 's, unit) op" where
  "upd_physical i f = sbind (get_physical i) (\<lambda>_. upd (\<lambda>s. s\<lparr>physical := bt_adjust i f (physical s)\<rparr>))"

definition upd_programme :: "nat \<Rightarrow> (ProgrammeLogical \<Rightarrow> ProgrammeLogical) \<Rightarrow> ('t, 'r, 's, unit) op" where
  "upd_programme i f =
     sbind (get_programme i) (\<lambda>_. upd (\<lambda>s. s\<lparr>programmes := bt_adjust i f (programmes s)\<rparr>))"

definition release_target :: "ScanTarget \<Rightarrow> ('t, 'r, 's, unit) op" where
  "release_target t = sbind (gets (\<lambda>s. decrement (per_target s) t)) (\<lambda>c.
     sbind (ok_or_throw c ReservationInvariant) (\<lambda>c'. upd (\<lambda>s. s\<lparr>per_target := c'\<rparr>)))"

definition release_prefix :: "PrefixKey \<Rightarrow> ('t, 'r, 's, unit) op" where
  "release_prefix k = sbind (gets (\<lambda>s. decrement (per_prefix s) k)) (\<lambda>c.
     sbind (ok_or_throw c ReservationInvariant) (\<lambda>c'. upd (\<lambda>s. s\<lparr>per_prefix := c'\<rparr>)))"

section \<open>Outside calls\<close>

definition log_event :: "TraceEvent \<Rightarrow> ('t, 'r, 's, unit) op" where
  "log_event e = smod (\<lambda>w. w\<lparr>trace := trace w @ [e]\<rparr>)"

definition call_emit :: "('t, 'r, 's) env \<Rightarrow> ProbeEmission \<Rightarrow> ('t, 'r, 's, (nat, unit) result) op" where
  "call_emit env em = (\<lambda>w. case emit env (transport w) em of
     (r, t') \<Rightarrow> (Ok r, w\<lparr>transport := t',
       trace := (case r of Inl _ \<Rightarrow> trace w | Inr _ \<Rightarrow> trace w @ [Emitted em])\<rparr>))"

definition call_retire :: "('t, 'r, 's) env \<Rightarrow> nat \<Rightarrow> ('t, 'r, 's, unit) op" where
  "call_retire env i = smod (\<lambda>w. w\<lparr>transport := retire env (transport w) i\<rparr>)"

definition call_resolve ::
  "('t, 'r, 's) env \<Rightarrow> LogicalProbe \<Rightarrow> ('t, 'r, 's, (nat, ContextResolution) result) op" where
  "call_resolve env p = (\<lambda>w. case resolve env (resolver w) p of (r, r') \<Rightarrow> (Ok r, w\<lparr>resolver := r'\<rparr>))"

definition note_reservation ::
  "(nat, SinkReservation) result \<Rightarrow> TraceEvent list \<Rightarrow> TraceEvent list" where
  "note_reservation r tr = (case r of Inr Reserved \<Rightarrow> tr @ [ReservedRow] | _ \<Rightarrow> tr)"

definition call_reserve :: "('t, 'r, 's) env \<Rightarrow> ('t, 'r, 's, (nat, SinkReservation) result) op" where
  "call_reserve env = (\<lambda>w. case try_reserve env (sink w) of
     (r, s') \<Rightarrow> (Ok r, w\<lparr>sink := s', trace := note_reservation r (trace w)\<rparr>))"

definition call_reserve_bytes ::
  "('t, 'r, 's) env \<Rightarrow> nat \<Rightarrow> ('t, 'r, 's, (nat, SinkReservation) result) op" where
  "call_reserve_bytes env n = (\<lambda>w. case try_reserve_with_bytes env (sink w) n of
     (r, s') \<Rightarrow> (Ok r, w\<lparr>sink := s', trace := note_reservation r (trace w)\<rparr>))"

definition call_commit :: "('t, 'r, 's) env \<Rightarrow> ScanResult \<Rightarrow> ('t, 'r, 's, unit) op" where
  "call_commit env res = (\<lambda>w. case commit_reserved env (sink w) res of
     (Inl c, s') \<Rightarrow> (Err (Engine (EngineSink c)), w\<lparr>sink := s'\<rparr>)
   | (Inr _, s') \<Rightarrow> (Ok (), w\<lparr>sink := s', trace := trace w @ [Committed res]\<rparr>))"

definition call_commit_bytes ::
  "('t, 'r, 's) env \<Rightarrow> ScanResult \<Rightarrow> nat \<Rightarrow> nat \<Rightarrow> ('t, 'r, 's, unit) op" where
  "call_commit_bytes env res actual reserved =
     (\<lambda>w. case commit_reserved_with_bytes env (sink w) res actual reserved of
        (Inl c, s') \<Rightarrow> (Err (Engine (EngineSink c)), w\<lparr>sink := s'\<rparr>)
      | (Inr _, s') \<Rightarrow> (Ok (), w\<lparr>sink := s', trace := trace w @ [Committed res]\<rparr>))"

definition call_release :: "('t, 'r, 's) env \<Rightarrow> nat \<Rightarrow> ('t, 'r, 's, unit) op" where
  "call_release env n = (\<lambda>w. case release_reserved env (sink w) n of
     (Inl c, s') \<Rightarrow> (Err (Engine (EngineSink c)), w\<lparr>sink := s'\<rparr>)
   | (Inr _, s') \<Rightarrow> (Ok (), w\<lparr>sink := s', trace := trace w @ [ReleasedRows n]\<rparr>))"

definition call_release_bytes :: "('t, 'r, 's) env \<Rightarrow> nat \<Rightarrow> nat \<Rightarrow> ('t, 'r, 's, unit) op" where
  "call_release_bytes env n bytes = (\<lambda>w. case release_reserved_with_bytes env (sink w) n bytes of
     (Inl c, s') \<Rightarrow> (Err (Engine (EngineSink c)), w\<lparr>sink := s'\<rparr>)
   | (Inr _, s') \<Rightarrow> (Ok (), w\<lparr>sink := s', trace := trace w @ [ReleasedRows n]\<rparr>))"

definition take_token :: "MonotonicTime \<Rightarrow> ('t, 'r, 's, bool) op" where
  "take_token now =
     sbind (gets bucket) (\<lambda>b.
     sbind (ok_or_throw b InvalidLifecycle) (\<lambda>b.
       case try_take now b of (r, b') \<Rightarrow>
         sthen (upd (\<lambda>s. s\<lparr>bucket := Some b'\<rparr>)) (slift r)))"

definition observe_now :: "MonotonicTime \<Rightarrow> ('t, 'r, 's, unit) op" where
  "observe_now now =
     sbind (gets last_now) (\<lambda>l.
       if (case l of None \<Rightarrow> False | Some prior \<Rightarrow> now < prior) then throw ClockRegressed
       else upd (\<lambda>s. s\<lparr>last_now := Some now\<rparr>))"

section \<open>Lifecycle requests\<close>

definition start :: "MonotonicTime \<Rightarrow> ('t, 'r, 's, unit) op" where
  "start now =
     sbind (gets lifecycle) (\<lambda>l. if l \<noteq> Created then throw InvalidLifecycle else
     sthen (observe_now now) (
     sbind (gets config) (\<lambda>c.
     sbind (ok_or_throw (time_add now (session_deadline_after c)) DeadlineOverflow) (\<lambda>deadline.
     sthen (upd (\<lambda>s. s\<lparr>session_deadline := Some deadline\<rparr>)) (
       case TokenBucket_new (rate_per_second c) (burst c) now of
         Inl e \<Rightarrow> throw (EngineConfig e)
       | Inr b \<Rightarrow> upd (\<lambda>s. s\<lparr>bucket := Some b, lifecycle := Running\<rparr>))))))"

definition request_pause :: "('t, 'r, 's, unit) op" where
  "request_pause = sbind (gets lifecycle) (\<lambda>l.
     if l \<noteq> Running then throw InvalidLifecycle else upd (\<lambda>s. s\<lparr>lifecycle := Pausing\<rparr>))"

definition resume :: "('t, 'r, 's, unit) op" where
  "resume = sbind (gets lifecycle) (\<lambda>l.
     if l \<noteq> Paused then throw InvalidLifecycle else upd (\<lambda>s. s\<lparr>lifecycle := Running\<rparr>))"

definition context_restored :: "('t, 'r, 's, unit) op" where
  "context_restored = sbind (gets invalidating_generation) (\<lambda>g.
     swhen (g = None) (upd (\<lambda>s. s\<lparr>context_waiting := False\<rparr>)))"

definition record_diagnostic :: "DiagnosticKind \<Rightarrow> ('t, 'r, 's, unit) op" where
  "record_diagnostic k = count_diag (\<lambda>d.
     case k of
       ForgedOrUnrelated \<Rightarrow> d\<lparr>forged_or_unrelated := saturating_add 64 (forged_or_unrelated d) 1\<rparr>
     | NonFirstFragment \<Rightarrow> d\<lparr>non_first_fragment := saturating_add 64 (non_first_fragment d) 1\<rparr>
     | OpaqueProtocol \<Rightarrow> d\<lparr>opaque_protocol := saturating_add 64 (opaque_protocol d) 1\<rparr>
     | InsufficientQuote \<Rightarrow> d\<lparr>insufficient_quote := saturating_add 64 (insufficient_quote d) 1\<rparr>)"

section \<open>Terminal records\<close>

definition call_terminal_result :: "ActiveProbe \<Rightarrow> MonotonicTime \<Rightarrow> PendingTerminal \<Rightarrow> ScanResult" where
  "call_terminal_result a now t =
     \<lparr>result_probe = ap_probe a, outcome = term_outcome t, evidence_strength = term_strength t,
      result_attempt = attempt (ap_probe a), transmissions = total_transmissions a,
      result_rtt = term_rtt t, terminal_at = now, route_generation = generation (ap_context a),
      terminal_reason = term_reason t, udp = None\<rparr>"

text \<open>The flag says whether a report is passed (\<^verbatim>\<open>Some(report)\<close>) or not (\<^verbatim>\<open>None\<close>).\<close>

definition terminalize ::
  "('t, 'r, 's) env \<Rightarrow> nat \<Rightarrow> MonotonicTime \<Rightarrow> PendingTerminal \<Rightarrow> bool \<Rightarrow> ('t, 'r, 's, unit) op" where
  "terminalize env i now t counted =
     sbind (get_active i) (\<lambda>a.
     sbind (gets id) (\<lambda>s.
       if bt_contains (grace s) i \<or> count_of (per_target s) (target (ap_probe a)) = 0
          \<or> count_of (per_prefix s) (prefix_key (ap_context a)) = 0
       then throw ReservationInvariant
       else
         sbind (ok_or_throw (time_add now (late_grace (config s))) DeadlineOverflow) (\<lambda>expires.
         sthen (call_commit env (call_terminal_result a now t)) (
         sbind (gets active) (\<lambda>m.
           if \<not> bt_contains m i then throw ReservationInvariant
           else
             sthen (upd (\<lambda>s. s\<lparr>active := bt_remove i (active s)\<rparr>)) (
             sthen (release_target (target (ap_probe a))) (
             sthen (release_prefix (prefix_key (ap_context a))) (
             sthen (upd (\<lambda>s. s\<lparr>grace := bt_insert i expires (grace s)\<rparr>))
               (swhen counted (sthen bump_results bump_transitions)))))))))) "

definition prune_adaptive_target_state :: "ScanTarget \<Rightarrow> ('t, 'r, 's, unit) op" where
  "prune_adaptive_target_state t = upd (\<lambda>s.
     if \<not> list_ex (\<lambda>lg. target (lg_probe lg) = t) (bt_values (programmes s))
     then s\<lparr>adaptive_icmp_seen := bt_remove t (adaptive_icmp_seen s),
            adaptive_not_before := bt_remove t (adaptive_not_before s)\<rparr>
     else s)"

definition programme_result :: "ProgrammeLogical \<Rightarrow> MonotonicTime \<Rightarrow> ScanResult" where
  "programme_result lg now =
     \<lparr>result_probe = lg_probe lg,
      outcome = (case best lg of None \<Rightarrow> Network OpenOrFiltered | Some b \<Rightarrow> Network (best_state b)),
      evidence_strength = (case best lg of None \<Rightarrow> None | Some b \<Rightarrow> best_strength b),
      result_attempt = attempt (lg_probe lg), transmissions = lg_transmissions lg,
      result_rtt = (case best lg of None \<Rightarrow> None | Some b \<Rightarrow> best_rtt b),
      terminal_at = now, route_generation = generation (lg_context lg),
      terminal_reason = (case best lg of None \<Rightarrow> Timeout | Some b \<Rightarrow> best_reason b),
      udp = Some \<lparr>terminal_probe_id =
                    (case best lg of None \<Rightarrow> None | Some b \<Rightarrow> catalogue_probe_id (best_variant b)),
                  variants_attempted = attempted lg,
                  result_response_kind =
                    (case best lg of None \<Rightarrow> Silence | Some b \<Rightarrow> best_response_kind b),
                  result_contradictions = contradictions lg,
                  result_service = (case best lg of None \<Rightarrow> None | Some b \<Rightarrow> best_service b)\<rparr>\<rparr>"

definition result_metadata_bytes :: "ScanResult \<Rightarrow> nat" where
  "result_metadata_bytes r =
     (case Option.bind (udp r) result_service of None \<Rightarrow> 0 | Some sv \<Rightarrow> length (metadata sv))"

definition settle_programme ::
  "('t, 'r, 's) env \<Rightarrow> nat \<Rightarrow> MonotonicTime \<Rightarrow> ('t, 'r, 's, unit) op" where
  "settle_programme env lid now =
     sbind (get_programme lid) (\<lambda>lg.
     sthen (upd (\<lambda>s. s\<lparr>programmes := bt_remove lid (programmes s)\<rparr>)) (
     sthen (call_commit_bytes env (programme_result lg now)
              (result_metadata_bytes (programme_result lg now)) (reservation_bytes lg)) (
     sthen (prune_adaptive_target_state (target (lg_probe lg)))
       (sthen bump_results bump_transitions))))"

text \<open>The \<^verbatim>\<open>for id in active_ids\<close> loops that drop the physical probes of a programme.\<close>

definition drop_physical :: "ScanTarget \<Rightarrow> PrefixKey \<Rightarrow> nat \<Rightarrow> ('t, 'r, 's, unit) op" where
  "drop_physical t k i =
     sthen (upd (\<lambda>s. s\<lparr>physical := bt_remove i (physical s)\<rparr>))
       (sthen (release_target t) (release_prefix k))"

definition physical_of :: "nat \<Rightarrow> ScanScheduler \<Rightarrow> nat list" where
  "physical_of lid s = map fst (filter (\<lambda>e. ph_logical_id (snd e) = lid) (physical s))"

definition forget_programme_queues :: "nat \<Rightarrow> ('t, 'r, 's, unit) op" where
  "forget_programme_queues lid = upd (\<lambda>s.
     s\<lparr>programme_grace := bt_retain (\<lambda>_ g. pg_logical_id g \<noteq> lid) (programme_grace s),
       programme_ready := filter (\<lambda>i. i \<noteq> lid) (programme_ready s)\<rparr>)"

definition abort_result ::
  "ProgrammeLogical \<Rightarrow> MonotonicTime \<Rightarrow> ProbeOutcome \<Rightarrow> TerminalReason \<Rightarrow> ScanResult" where
  "abort_result lg now oc reason =
     \<lparr>result_probe = lg_probe lg, outcome = oc, evidence_strength = None,
      result_attempt = attempt (lg_probe lg), transmissions = lg_transmissions lg,
      result_rtt = None, terminal_at = now, route_generation = generation (lg_context lg),
      terminal_reason = reason,
      udp = Some \<lparr>terminal_probe_id = None, variants_attempted = attempted lg,
                  result_response_kind = Silence, result_contradictions = contradictions lg,
                  result_service = None\<rparr>\<rparr>"

definition abort_programme ::
  "('t, 'r, 's) env \<Rightarrow> nat \<Rightarrow> MonotonicTime \<Rightarrow> ProbeOutcome \<Rightarrow> TerminalReason
     \<Rightarrow> ('t, 'r, 's, unit) op" where
  "abort_programme env lid now oc reason =
     sbind (get_programme lid) (\<lambda>lg.
     sthen (upd (\<lambda>s. s\<lparr>programmes := bt_remove lid (programmes s)\<rparr>)) (
     sbind (gets (physical_of lid)) (\<lambda>ids.
     sthen (sfor (\<lambda>i. sbind (get_physical i) (\<lambda>_.
              drop_physical (target (lg_probe lg)) (prefix_key (lg_context lg)) i)) ids) (
     sthen (forget_programme_queues lid) (
     sthen (call_commit_bytes env (abort_result lg now oc reason) 0 (reservation_bytes lg))
       (sthen bump_results bump_transitions))))))"

definition finish_programme_correlations :: "nat \<Rightarrow> bool \<Rightarrow> ('t, 'r, 's, unit) op" where
  "finish_programme_correlations lid normalize_decisive =
     sbind (get_programme lid) (\<lambda>lg.
     sbind (gets (physical_of lid)) (\<lambda>ids.
     sthen (sfor (drop_physical (target (lg_probe lg)) (prefix_key (lg_context lg))) ids) (
     sthen (forget_programme_queues lid)
       (upd_programme lid (\<lambda>lg.
          lg\<lparr>lg_active := 0, lg_grace := 0, stop_unsent := True,
             contradictions := (if normalize_decisive then 0 else contradictions lg)\<rparr>)))))"

definition settle_or_abort ::
  "('t, 'r, 's) env \<Rightarrow> MonotonicTime \<Rightarrow> ProbeOutcome \<Rightarrow> TerminalReason \<Rightarrow> nat
     \<Rightarrow> ('t, 'r, 's, unit) op" where
  "settle_or_abort env now oc reason lid =
     sbind (gets (\<lambda>s. bt_get (programmes s) lid)) (\<lambda>x.
       if (case x of None \<Rightarrow> False | Some lg \<Rightarrow> best lg \<noteq> None)
       then sthen (finish_programme_correlations lid False) (settle_programme env lid now)
       else abort_programme env lid now oc reason)"

definition settle_ready_programmes :: "('t, 'r, 's) env \<Rightarrow> MonotonicTime \<Rightarrow> ('t, 'r, 's, unit) op" where
  "settle_ready_programmes env now =
     sbind (sget (\<lambda>w. take (remaining w) (map fst (filter (\<lambda>e.
        (stop_unsent (snd e) \<or> next_variant (snd e) = variant_count (snd e))
        \<and> lg_active (snd e) = 0 \<and> lg_grace (snd e) = 0) (programmes (sched w)))))) (\<lambda>ready.
     sfor (\<lambda>lid. settle_programme env lid now) ready)"

section \<open>Stopping and invalidation\<close>

definition initiate_stop ::
  "ProbeOutcome \<Rightarrow> TerminalReason \<Rightarrow> SessionLifecycle \<Rightarrow> ('t, 'r, 's, unit) op" where
  "initiate_stop oc reason final =
     sthen (log_event StopRequested) (upd (\<lambda>s.
       s\<lparr>cursor := logical_probe_count (plan s), deferred := [], invalidating_generation := None,
         lifecycle := Cancelling,
         stop := Some \<lparr>stop_outcome = oc, stop_reason = reason, final_lifecycle = final\<rparr>\<rparr>))"

definition plain_terminal :: "ProbeOutcome \<Rightarrow> TerminalReason \<Rightarrow> PendingTerminal" where
  "plain_terminal oc reason =
     \<lparr>term_outcome = oc, term_strength = None, term_rtt = None, term_reason = reason\<rparr>"

definition settle_stop :: "('t, 'r, 's) env \<Rightarrow> MonotonicTime \<Rightarrow> ('t, 'r, 's, unit) op" where
  "settle_stop env now =
     sbind (gets stop) (\<lambda>x.
     sbind (ok_or_throw x ReservationInvariant) (\<lambda>st.
     sbind (sget (\<lambda>w. take (remaining w) (bt_keys (active (sched w))))) (\<lambda>ids.
     sthen (sfor (\<lambda>i. terminalize env i now (plain_terminal (stop_outcome st) (stop_reason st)) True) ids) (
     sbind (sget (\<lambda>w. take (remaining w) (bt_keys (programmes (sched w))))) (\<lambda>pids.
     sthen (sfor (settle_or_abort env now (stop_outcome st) (stop_reason st)) pids)
       (upd (\<lambda>s. if active s = [] \<and> programmes s = []
                  then s\<lparr>lifecycle := final_lifecycle st, stop := None\<rparr> else s)))))))"

definition fail_transport :: "('t, 'r, 's) env \<Rightarrow> MonotonicTime \<Rightarrow> nat \<Rightarrow> ('t, 'r, 's, unit) op" where
  "fail_transport env now code =
     sthen (initiate_stop TransportFailed (TransportFailure code) Failed) (settle_stop env now)"

definition settle_context_invalidation ::
  "('t, 'r, 's) env \<Rightarrow> MonotonicTime \<Rightarrow> ('t, 'r, 's, unit) op" where
  "settle_context_invalidation env now =
     sbind (gets invalidating_generation) (\<lambda>x.
     sbind (ok_or_throw x ReservationInvariant) (\<lambda>f.
     sbind (sget (\<lambda>w. take (remaining w) (map fst
        (filter (\<lambda>e. filter_matches f (generation (ap_context (snd e)))) (active (sched w)))))) (\<lambda>ids.
     sthen (sfor (\<lambda>i. terminalize env i now
              (plain_terminal ContextInvalidated ReasonContextInvalidated) True) ids) (
     sbind (sget (\<lambda>w. take (remaining w) (map fst
        (filter (\<lambda>e. filter_matches f (generation (lg_context (snd e)))) (programmes (sched w)))))) (\<lambda>pids.
     sthen (sfor (settle_or_abort env now ContextInvalidated ReasonContextInvalidated) pids)
       (upd (\<lambda>s.
          if \<not> list_ex (\<lambda>a. filter_matches f (generation (ap_context a))) (bt_values (active s))
             \<and> \<not> list_ex (\<lambda>lg. filter_matches f (generation (lg_context lg))) (bt_values (programmes s))
          then s\<lparr>invalidating_generation := None\<rparr> else s)))))))"

definition invalidate_context ::
  "('t, 'r, 's) env \<Rightarrow> MonotonicTime \<Rightarrow> nat option \<Rightarrow> ('t, 'r, 's, unit) op" where
  "invalidate_context env now gen =
     sthen (observe_now now) (
     sthen (upd (\<lambda>s. s\<lparr>context_waiting := True\<rparr>)) (
     sthen (count_diag inc_invalidations) (
       let f = (case gen of None \<Rightarrow> AllGenerations | Some g \<Rightarrow> ExactGeneration g)
       in sbind (gets invalidating_generation) (\<lambda>x.
            if (case x of None \<Rightarrow> False | Some current \<Rightarrow> current \<noteq> f) then throw InvalidContext
            else sthen (upd (\<lambda>s. s\<lparr>invalidating_generation := Some f\<rparr>))
                   (sthen reset_report (settle_context_invalidation env now))))))"

definition cancel :: "('t, 'r, 's) env \<Rightarrow> MonotonicTime \<Rightarrow> ('t, 'r, 's, unit) op" where
  "cancel env now =
     sbind (gets lifecycle) (\<lambda>l.
       if l \<notin> {Running, Pausing, Paused} then throw InvalidLifecycle
       else
         sthen (observe_now now) (
         sthen (initiate_stop OutcomeCancelled ReasonCancelled Completed) (
         sthen reset_report (settle_stop env now))))"

definition transport_failed :: "('t, 'r, 's) env \<Rightarrow> MonotonicTime \<Rightarrow> nat \<Rightarrow> ('t, 'r, 's, unit) op" where
  "transport_failed env now code =
     sbind (gets (\<lambda>s. is_terminal s \<or> stop s \<noteq> None)) (\<lambda>ended.
       if ended then sret ()
       else sthen (observe_now now) (sthen reset_report (fail_transport env now code)))"

definition context_failed :: "('t, 'r, 's) env \<Rightarrow> MonotonicTime \<Rightarrow> ('t, 'r, 's, unit) op" where
  "context_failed env now =
     sbind (gets (\<lambda>s. is_terminal s \<or> stop s \<noteq> None)) (\<lambda>ended.
       if ended then sret ()
       else
         sthen (observe_now now) (
         sthen (initiate_stop ContextInvalidated ReasonContextInvalidated Failed)
           (sthen reset_report (settle_stop env now))))"

text \<open>\<^verbatim>\<open>try_fold(0, |total, logical| total.checked_add(logical.reservation_bytes))\<close>\<close>

fun reservation_total :: "ProgrammeLogical list \<Rightarrow> nat \<Rightarrow> nat option" where
  "reservation_total [] acc = Some acc"
| "reservation_total (lg # lgs) acc =
     Option.bind (checked_add 64 acc (reservation_bytes lg)) (reservation_total lgs)"

definition close :: "('t, 'r, 's) env \<Rightarrow> ('t, 'r, 's, unit) op" where
  "close env =
     sbind (gets lifecycle) (\<lambda>l.
       if l = Closed then sret ()
       else
         sbind (gets (\<lambda>s. length (active s))) (\<lambda>n.
         sthen (call_release env n) (
         sbind (gets (\<lambda>s. reservation_total (bt_values (programmes s)) 0)) (\<lambda>b.
         sbind (ok_or_throw b StateCapacityExceeded) (\<lambda>bytes.
         sbind (gets (\<lambda>s. length (programmes s))) (\<lambda>m.
         sthen (call_release_bytes env m bytes)
           (upd (\<lambda>s. s\<lparr>active := [], grace := [], programmes := [], programme_ready := [],
              physical := [], programme_grace := [], deferred := [], per_target := [],
              per_prefix := [], stop := None, invalidating_generation := None,
              lifecycle := Closed\<rparr>))))))))"

section \<open>Admission\<close>

text \<open>The updated \<^verbatim>\<open>deferred_remaining\<close> is returned next to the candidate.\<close>

definition next_candidate :: "nat \<Rightarrow> ('t, 'r, 's, LogicalProbe option \<times> nat) op" where
  "next_candidate deferred_remaining =
     (if deferred_remaining > 0 then
        sbind (gets deferred) (\<lambda>q.
          case q of
            [] \<Rightarrow> sret (None, deferred_remaining - 1)
          | p # ps \<Rightarrow> sthen (upd (\<lambda>s. s\<lparr>deferred := ps\<rparr>)) (sret (Some p, deferred_remaining - 1)))
      else
        sbind (gets id) (\<lambda>s.
          if cursor s \<ge> logical_probe_count (plan s) then sret (None, 0)
          else
            sbind (ok_or_throw (permute (permutation s) (cursor s)) ReservationInvariant) (\<lambda>lid.
            sthen (upd (\<lambda>s. s\<lparr>cursor := cursor s + 1\<rparr>)) (
              case logical_probe_at (plan s) lid of
                Inl e \<Rightarrow> throw (EnginePlan e)
              | Inr p \<Rightarrow> sret (Some p, 0)))))"

definition defer_probe :: "LogicalProbe \<Rightarrow> ('t, 'r, 's, unit) op" where
  "defer_probe p = sbind (gets (\<lambda>s. length (deferred s))) (\<lambda>n.
     if n = MAX_DEFERRED_CANDIDATES then throw StateCapacityExceeded
     else upd (\<lambda>s. s\<lparr>deferred := deferred s @ [p]\<rparr>))"

definition push_front :: "LogicalProbe \<Rightarrow> ('t, 'r, 's, unit) op" where
  "push_front p = upd (\<lambda>s. s\<lparr>deferred := p # deferred s\<rparr>)"

definition requeue_front :: "LogicalProbe \<Rightarrow> ('t, 'r, 's, unit) op" where
  "requeue_front p = sbind (gets (\<lambda>s. length (deferred s))) (\<lambda>n.
     if n = MAX_DEFERRED_CANDIDATES then throw StateCapacityExceeded else push_front p)"

definition admit_guard :: "('t, 'r, 's) sys \<Rightarrow> bool" where
  "admit_guard w =
     (let s = sched w
      in outstanding_physical s < max_outstanding (config s)
         \<and> length (active s) + length (programmes s) < max_outstanding (config s)
         \<and> transitions (report w) < MAX_TRANSITIONS_PER_DRIVE
         \<and> total_correlation_entries s < max_grace_entries (config s))"

text \<open>The programme branch of the loop body: reserve the row and its metadata bytes.\<close>

definition new_logical :: "LogicalProbe \<Rightarrow> ResolvedContext \<Rightarrow> nat \<Rightarrow> nat \<Rightarrow> ProgrammeLogical" where
  "new_logical p ctx vcount bytes =
     \<lparr>lg_probe = p, lg_context = ctx, variant_count = vcount, next_variant = 0, lg_active = 0,
      lg_grace = 0, attempted = 0, lg_transmissions = 0, contradictions = 0, best = None,
      reservation_bytes = bytes, neighbor_ready = (neighbor_setup ctx = None),
      stop_unsent = False, soft_service_family = None\<rparr>"

definition admit_programme ::
  "('t, 'r, 's) env \<Rightarrow> MonotonicTime \<Rightarrow> LogicalProbe \<Rightarrow> ResolvedContext \<Rightarrow> nat \<Rightarrow> nat
     \<Rightarrow> ('t, 'r, 's, bool) op" where
  "admit_programme env now p ctx vcount bytes =
     sbind (call_reserve_bytes env bytes) (\<lambda>r.
       case r of
         Inl c \<Rightarrow> throw (EngineSink c)
       | Inr Saturated \<Rightarrow>
           sthen (push_front p) (
           sthen (upd (\<lambda>s. s\<lparr>sink_backpressured := True\<rparr>)) (
           sthen bump_transitions (sret False)))
       | Inr Reserved \<Rightarrow>
           sbind (gets (\<lambda>s. bt_contains (programmes s) (logical_id p))) (\<lambda>present.
           sthen (upd (\<lambda>s. s\<lparr>programmes :=
                     bt_insert (logical_id p) (new_logical p ctx vcount bytes) (programmes s)\<rparr>)) (
             if present then throw ReservationInvariant
             else
               sthen (if vcount = 0 then settle_programme env (logical_id p) now
                      else upd (\<lambda>s. s\<lparr>programme_ready := programme_ready s @ [logical_id p]\<rparr>)) (
               sthen (upd (\<lambda>s. s\<lparr>context_waiting := False\<rparr>)) (
               sthen bump_transitions (sret True))))))"

definition new_active :: "LogicalProbe \<Rightarrow> ResolvedContext \<Rightarrow> ActiveProbe" where
  "new_active p ctx =
     \<lparr>ap_probe = p, ap_context = ctx,
      ap_stage = StagePending (case neighbor_setup ctx of None \<Rightarrow> Probe | Some f \<Rightarrow> NeighborSetup f),
      stage_transmissions = 0, total_transmissions = 0, last_probe_sent_at = None\<rparr>"

definition admit_single ::
  "('t, 'r, 's) env \<Rightarrow> LogicalProbe \<Rightarrow> ResolvedContext \<Rightarrow> ('t, 'r, 's, bool) op" where
  "admit_single env p ctx =
     sbind (call_reserve env) (\<lambda>r.
       case r of
         Inl c \<Rightarrow> sthen (requeue_front p) (throw (EngineSink c))
       | Inr Saturated \<Rightarrow>
           sthen (push_front p) (
           sthen (upd (\<lambda>s. s\<lparr>sink_backpressured := True\<rparr>)) (
           sthen bump_transitions (sret False)))
       | Inr Reserved \<Rightarrow>
           sbind (gets (\<lambda>s. bt_contains (active s) (logical_id p))) (\<lambda>present.
           sthen (upd (\<lambda>s. s\<lparr>active := bt_insert (logical_id p) (new_active p ctx) (active s)\<rparr>)) (
             if present then throw ReservationInvariant
             else
               sthen (upd (\<lambda>s. s\<lparr>per_target := increment (per_target s) (target p),
                                 per_prefix := increment (per_prefix s) (prefix_key ctx),
                                 context_waiting := False\<rparr>)) (
               sthen bump_transitions (sret True)))))"

text \<open>
  The loop body after a candidate was taken; it answers whether the loop goes on
  (\<^verbatim>\<open>continue\<close> or the end of the body) or breaks.
\<close>

definition admit_ready ::
  "('t, 'r, 's) env \<Rightarrow> MonotonicTime \<Rightarrow> LogicalProbe \<Rightarrow> ResolvedContext \<Rightarrow> ('t, 'r, 's, bool) op" where
  "admit_ready env now p ctx =
     (if \<not> valid_neighbor_setup p (neighbor_setup ctx)
      then sthen (requeue_front p) (throw InvalidContext)
      else
        sbind (gets id) (\<lambda>s.
          if count_of (per_prefix s) (prefix_key ctx) \<ge> max_per_prefix (config s)
          then sthen (defer_probe p) (sthen bump_transitions (sret True))
          else
            case udp_programme_for (plan s) p of
              None \<Rightarrow> admit_single env p ctx
            | Some prog \<Rightarrow>
                sbind (expect (port p)) (\<lambda>q.
                  if requires_logical_programme prog (target_address (target p)) q
                  then admit_programme env now p ctx
                         (variant_count_for prog (target_address (target p)) q)
                         (maximum_metadata_bytes_for_port prog (target_address (target p)) q)
                  else admit_single env p ctx)))"

definition admit_one ::
  "('t, 'r, 's) env \<Rightarrow> MonotonicTime \<Rightarrow> LogicalProbe \<Rightarrow> ('t, 'r, 's, bool) op" where
  "admit_one env now p =
     sbind (gets id) (\<lambda>s.
       if count_of (per_target s) (target p) \<ge> max_per_target (config s)
       then sthen (defer_probe p) (sthen bump_transitions (sret True))
       else
         sbind (call_resolve env p) (\<lambda>r.
           case r of
             Inl c \<Rightarrow> sthen (requeue_front p) (throw (EngineContext c))
           | Inr (Ready ctx) \<Rightarrow> admit_ready env now p ctx
           | Inr Pending \<Rightarrow>
               sthen (push_front p) (
               sthen (upd (\<lambda>s. s\<lparr>context_waiting := True\<rparr>)) (
               sthen bump_transitions (sret False)))
           | Inr (Invalidated _) \<Rightarrow>
               sthen (push_front p) (
               sthen (upd (\<lambda>s. s\<lparr>context_waiting := True\<rparr>)) (
               sthen (count_diag inc_invalidations) (
               sthen bump_transitions (sret False))))))"

text \<open>
  The admission loop. The first counter is \<^verbatim>\<open>MAX_TRANSITIONS_PER_DRIVE - examined\<close>, the
  second \<^verbatim>\<open>deferred_remaining\<close>.
\<close>

fun admit_loop ::
  "('t, 'r, 's) env \<Rightarrow> MonotonicTime \<Rightarrow> nat \<Rightarrow> nat \<Rightarrow> ('t, 'r, 's, unit) op" where
  "admit_loop env now 0 dr = sret ()"
| "admit_loop env now (Suc n) dr =
     sbind (sget admit_guard) (\<lambda>g.
       if \<not> g then sret ()
       else
         sbind (next_candidate dr) (\<lambda>(cand, dr').
           case cand of
             None \<Rightarrow> sret ()
           | Some p \<Rightarrow>
               sbind (admit_one env now p) (\<lambda>go. if go then admit_loop env now n dr' else sret ())))"

definition admit :: "('t, 'r, 's) env \<Rightarrow> MonotonicTime \<Rightarrow> ('t, 'r, 's, unit) op" where
  "admit env now = sbind (gets (\<lambda>s. length (deferred s))) (\<lambda>dr.
     admit_loop env now MAX_TRANSITIONS_PER_DRIVE dr)"

section \<open>Programme variants\<close>

text \<open>The search for the next variant of the wanted service family, with its index.\<close>

function find_variant ::
  "UdpProbeProgramme \<Rightarrow> IpAddress \<Rightarrow> ProbePort \<Rightarrow> nat option \<Rightarrow> nat \<Rightarrow> (nat \<times> UdpProbeVariant) option"
  where
  "find_variant prog a q fam i =
     (case variant_at_for prog a q i of
        None \<Rightarrow> None
      | Some v \<Rightarrow>
          if (case fam of None \<Rightarrow> True | Some f \<Rightarrow> service_family v = Some f) then Some (i, v)
          else find_variant prog a q fam (i + 1))"
  by pat_completeness auto

termination find_variant
  by (relation "measure (\<lambda>(prog, a, q, fam, i). variant_count_for prog a q - i)")
    (auto simp: variant_at_for_def variant_count_for_def Let_def split: if_splits)

declare find_variant.simps [simp del]

text \<open>
  One turn of \<^verbatim>\<open>schedule_programme_variants\<close>: \<open>None\<close> is \<^verbatim>\<open>break\<close>, \<open>Some again\<close> says whether
  the programme got another turn.
\<close>

definition schedule_physical ::
  "nat \<Rightarrow> ProgrammeLogical \<Rightarrow> nat \<Rightarrow> nat \<Rightarrow> UdpProbeVariant \<Rightarrow> EmissionPurpose
     \<Rightarrow> ('t, 'r, 's, bool option) op" where
  "schedule_physical lid lg max_active index variant purpose =
     sbind (gets next_wire_id) (\<lambda>wire.
     sbind (ok_or_throw (checked_add 64 wire 1) StateCapacityExceeded) (\<lambda>wire'.
     sbind (gets (\<lambda>s. bt_contains (physical s) wire)) (\<lambda>present.
     sthen (upd (\<lambda>s. s\<lparr>next_wire_id := wire',
        physical := bt_insert wire \<lparr>ph_logical_id = lid, ph_variant = variant,
          ph_stage = StagePending purpose, ph_transmissions = 0, ph_last_sent_at = None\<rparr> (physical s)\<rparr>)) (
       if present then throw ReservationInvariant
       else
         sthen (upd_programme lid (\<lambda>lg. lg\<lparr>next_variant := index + 1, lg_active := lg_active lg + 1\<rparr>)) (
         sthen (upd (\<lambda>s. s\<lparr>per_target := increment (per_target s) (target (lg_probe lg)),
                           per_prefix := increment (per_prefix s) (prefix_key (lg_context lg))\<rparr>)) (
         let again = (neighbor_ready lg \<and> index + 1 < variant_count lg \<and> lg_active lg + 1 < max_active)
         in sthen (swhen again (upd (\<lambda>s. s\<lparr>programme_ready := programme_ready s @ [lid]\<rparr>)))
              (sthen bump_transitions (sret (Some again)))))))))"

definition requeue_ready :: "nat \<Rightarrow> ('t, 'r, 's, bool option) op" where
  "requeue_ready lid =
     sthen (upd (\<lambda>s. s\<lparr>programme_ready := programme_ready s @ [lid]\<rparr>)) (sret (Some False))"

definition schedule_one :: "MonotonicTime \<Rightarrow> ('t, 'r, 's, bool option) op" where
  "schedule_one now =
     sbind (gets programme_ready) (\<lambda>q.
       case q of
         [] \<Rightarrow> sret None
       | lid # rest \<Rightarrow>
           sthen (upd (\<lambda>s. s\<lparr>programme_ready := rest\<rparr>)) (
           sbind (gets id) (\<lambda>s.
             case bt_get (programmes s) lid of
               None \<Rightarrow> sret (Some False)
             | Some lg \<Rightarrow>
                 if stop_unsent lg \<or> next_variant lg \<ge> variant_count lg then sret (Some False)
                 else
                   sbind (ok_or_throw (udp_programme_for (plan s) (lg_probe lg)) ReservationInvariant) (\<lambda>prog.
                     let max_active = maximum_concurrent (strategy prog)
                     in if strategy prog = AdaptiveStrategy
                           \<and> (case bt_get (adaptive_not_before s) (target (lg_probe lg)) of
                                None \<Rightarrow> False | Some d \<Rightarrow> now < d)
                        then requeue_ready lid
                        else if lg_active lg \<ge> max_active
                           \<or> (\<not> neighbor_ready lg \<and> lg_active lg > 0)
                           \<or> count_of (per_target s) (target (lg_probe lg)) \<ge> max_per_target (config s)
                           \<or> count_of (per_prefix s) (prefix_key (lg_context lg)) \<ge> max_per_prefix (config s)
                        then requeue_ready lid
                        else
                          sbind (expect (port (lg_probe lg))) (\<lambda>pt.
                            case find_variant prog (target_address (target (lg_probe lg))) pt
                                   (soft_service_family lg) (next_variant lg) of
                              None \<Rightarrow>
                                sthen (upd_programme lid (\<lambda>lg'. lg'\<lparr>next_variant := variant_count lg\<rparr>))
                                  (sret (Some False))
                            | Some (index, variant) \<Rightarrow>
                                sbind (if neighbor_ready lg then sret Probe
                                       else sbind (ok_or_throw (neighbor_setup (lg_context lg)) InvalidContext)
                                              (\<lambda>f. sret (NeighborSetup f))) (\<lambda>purpose.
                                schedule_physical lid lg max_active index variant purpose))))))"

definition schedule_guard :: "('t, 'r, 's) sys \<Rightarrow> bool" where
  "schedule_guard w =
     (let s = sched w
      in outstanding_physical s < max_outstanding (config s)
         \<and> total_correlation_entries s < max_grace_entries (config s)
         \<and> transitions (report w) < MAX_TRANSITIONS_PER_DRIVE)"

lemmas access_defs = gets_def upd_def upd_programme_def upd_physical_def upd_active_def
  get_programme_def get_physical_def get_active_def bump_transitions_def bump_results_def
  bump_emissions_def reset_report_def count_diag_def

lemma schedule_one_transitions:
  "wp (\<lambda>_ _. True) (schedule_one now)
     (\<lambda>r w'. case r of None \<Rightarrow> True
        | Some again \<Rightarrow> transitions (report w) + (if again then 1 else 0) \<le> transitions (report w')) w"
  by (auto simp: schedule_one_def schedule_physical_def requeue_ready_def access_defs wp_simps Let_def
      split: list.splits option.splits prod.splits)

text \<open>
  The loop of \<^verbatim>\<open>schedule_programme_variants\<close>. It terminates because a turn that is given
  back has used up one transition.
\<close>

function schedule_loop :: "MonotonicTime \<Rightarrow> nat \<Rightarrow> ('t, 'r, 's, unit) op" where
  "schedule_loop now turns w =
     (if turns > 0 \<and> schedule_guard w then
        (case schedule_one now w of
           (Inl e, w') \<Rightarrow> (Err e, w')
         | (Inr None, w') \<Rightarrow> (Ok (), w')
         | (Inr (Some again), w') \<Rightarrow> schedule_loop now (if again then turns else turns - 1) w')
      else (Ok (), w))"
  by pat_completeness auto

termination schedule_loop
proof (relation "measure (\<lambda>(now, turns, w). turns + remaining w)", goal_cases)
  case (2 now turns w r w' r' again)
  have "turns > 0" and tr: "transitions (report w) < MAX_TRANSITIONS_PER_DRIVE"
    using 2(1) by (auto simp: schedule_guard_def Let_def)
  moreover have "transitions (report w) + (if again then 1 else 0) \<le> transitions (report w')"
    using schedule_one_transitions [of now w] 2(2) [symmetric] 2(3,4) unfolding wp_def
    by (simp split: prod.splits sum.splits option.splits if_splits)
  ultimately show ?case by (cases again) (auto simp: remaining_def)
qed simp

declare schedule_loop.simps [simp del]

definition schedule_programme_variants :: "MonotonicTime \<Rightarrow> ('t, 'r, 's, unit) op" where
  "schedule_programme_variants now =
     sbind (gets (\<lambda>s. length (programme_ready s))) (\<lambda>turns. schedule_loop now turns)"

end
