(* ===== verification/Scheduler_Drive.thy ===== *)
theory Scheduler_Drive
  imports Scheduler
begin

text \<open>
  The second half of \<^verbatim>\<open>scheduler.rs\<close>: emission, timeouts, evidence, completion and the
  report, up to the two entry points \<^verbatim>\<open>drive\<close> and \<^verbatim>\<open>handle_evidence\<close>.
\<close>

section \<open>Emission\<close>

text \<open>\<^verbatim>\<open>timeout_for\<close> and the addition to the current time.\<close>

definition deadline_for :: "MonotonicTime \<Rightarrow> nat \<Rightarrow> ('t, 'r, 's, MonotonicTime) op" where
  "deadline_for now prior =
     sbind (gets (\<lambda>s. timeout_for (config s) (rtt s) prior)) (\<lambda>r.
     sbind (slift r) (\<lambda>timeout. ok_or_throw (time_add now timeout) DeadlineOverflow))"

definition physical_emission :: "nat \<Rightarrow> ProgrammePhysical \<Rightarrow> ProgrammeLogical \<Rightarrow> EmissionPurpose \<Rightarrow> ProbeEmission"
  where
  "physical_emission wire ph lg purpose =
     \<lparr>em_probe_id = wire, em_probe = lg_probe lg, em_route_generation = generation (lg_context lg),
      em_purpose = purpose, em_transmission = saturating_add 8 (ph_transmissions ph) 1,
      em_udp_variant = Some (ph_variant ph)\<rparr>"

definition note_programme_sent :: "ProgrammePhysical \<Rightarrow> ('t, 'r, 's, unit) op" where
  "note_programme_sent ph =
     sbind (get_programme (ph_logical_id ph)) (\<lambda>lg.
     sbind (ok_or_throw (checked_add 32 (lg_transmissions lg) 1) StateCapacityExceeded) (\<lambda>n.
     upd_programme (ph_logical_id ph) (\<lambda>lg.
       lg\<lparr>lg_transmissions := n,
          attempted := (if ph_transmissions ph = 0 then saturating_add 16 (attempted lg) 1
                        else attempted lg)\<rparr>)))"

definition emit_physical ::
  "('t, 'r, 's) env \<Rightarrow> MonotonicTime \<Rightarrow> nat \<Rightarrow> ('t, 'r, 's, bool) op" where
  "emit_physical env now wire =
     sbind (take_token now) (\<lambda>ok.
       if \<not> ok then sret False
       else
         sbind (get_physical wire) (\<lambda>ph.
           case ph_stage ph of
             StagePending purpose \<Rightarrow>
               sbind (get_programme (ph_logical_id ph)) (\<lambda>lg.
               sbind (call_emit env (physical_emission wire ph lg purpose)) (\<lambda>r.
                 case r of
                   Inl code \<Rightarrow> sthen (fail_transport env now code) (sret False)
                 | Inr _ \<Rightarrow>
                     sbind (deadline_for now (ph_transmissions ph)) (\<lambda>deadline.
                     sthen (upd_physical wire (\<lambda>p.
                       p\<lparr>ph_transmissions := saturating_add 8 (ph_transmissions p) 1,
                         ph_stage := StageWaiting purpose deadline,
                         ph_last_sent_at := (if purpose = Probe then Some now else ph_last_sent_at p)\<rparr>)) (
                     sthen (swhen (purpose = Probe) (note_programme_sent ph)) (
                     sthen bump_emissions (sthen bump_transitions (sret True)))))))
           | _ \<Rightarrow> sret True))"

definition is_pending :: "ActiveStage \<Rightarrow> bool" where
  "is_pending st = (case st of StagePending _ \<Rightarrow> True | _ \<Rightarrow> False)"

definition emit_programme_pending :: "('t, 'r, 's) env \<Rightarrow> MonotonicTime \<Rightarrow> ('t, 'r, 's, unit) op" where
  "emit_programme_pending env now =
     sbind (sget (\<lambda>w. take (remaining w) (map fst
        (filter (\<lambda>e. is_pending (ph_stage (snd e))) (physical (sched w)))))) (\<lambda>ids.
     sloop (emit_physical env now) ids)"

text \<open>The frame of a single probe; its cleanup frame carries the terminal record along.\<close>

definition frame_variant :: "LogicalProbe \<Rightarrow> ('t, 'r, 's, UdpProbeVariant option) op" where
  "frame_variant p = sbind (gets plan) (\<lambda>pl.
     case udp_programme_for pl p of
       None \<Rightarrow> sret None
     | Some prog \<Rightarrow>
         sbind (expect (port p)) (\<lambda>q. sret (variant_at_for prog (target_address (target p)) q 0)))"

definition active_emission ::
  "nat \<Rightarrow> ActiveProbe \<Rightarrow> EmissionPurpose \<Rightarrow> UdpProbeVariant option \<Rightarrow> ProbeEmission" where
  "active_emission i a purpose v =
     \<lparr>em_probe_id = i, em_probe = ap_probe a, em_route_generation = generation (ap_context a),
      em_purpose = purpose, em_transmission = saturating_add 8 (stage_transmissions a) 1,
      em_udp_variant = v\<rparr>"

definition emit_frame ::
  "('t, 'r, 's) env \<Rightarrow> MonotonicTime \<Rightarrow> nat \<Rightarrow> ActiveProbe \<Rightarrow> EmissionPurpose \<Rightarrow> PendingTerminal option
     \<Rightarrow> ('t, 'r, 's, bool) op" where
  "emit_frame env now i a purpose terminal =
     sbind (take_token now) (\<lambda>ok.
       if \<not> ok then sret False
       else
         sbind (frame_variant (ap_probe a)) (\<lambda>v.
         sthen (upd_active i (\<lambda>t.
           if family (ap_probe a) \<noteq> Udp \<or> purpose = Probe
           then t\<lparr>total_transmissions := saturating_add 32 (total_transmissions t) 1\<rparr> else t)) (
         sbind (call_emit env (active_emission i a purpose v)) (\<lambda>r.
           case r of
             Inl code \<Rightarrow>
               sthen (case terminal of None \<Rightarrow> sret () | Some t \<Rightarrow> terminalize env i now t True) (
               sthen (fail_transport env now code) (sret False))
           | Inr _ \<Rightarrow>
               sthen bump_emissions (sthen bump_transitions (
                 case terminal of
                   Some t \<Rightarrow> sthen (terminalize env i now t True) (sret True)
                 | None \<Rightarrow>
                     sbind (deadline_for now (stage_transmissions a)) (\<lambda>deadline.
                     sthen (upd_active i (\<lambda>t.
                       t\<lparr>stage_transmissions := saturating_add 8 (stage_transmissions t) 1,
                         last_probe_sent_at := (if purpose = Probe then Some now else last_probe_sent_at t),
                         ap_stage := StageWaiting purpose deadline\<rparr>)) (sret True))))))))"

definition emit_active :: "('t, 'r, 's) env \<Rightarrow> MonotonicTime \<Rightarrow> nat \<Rightarrow> ('t, 'r, 's, bool) op" where
  "emit_active env now i =
     sbind (sget (\<lambda>w. transitions (report w) \<ge> MAX_TRANSITIONS_PER_DRIVE)) (\<lambda>full.
       if full then sret False
       else
         sbind (gets (\<lambda>s. bt_get (active s) i)) (\<lambda>x.
           case x of
             None \<Rightarrow> sret True
           | Some a \<Rightarrow>
               (case ap_stage a of
                  StagePending purpose \<Rightarrow> emit_frame env now i a purpose None
                | StagePendingCleanup t \<Rightarrow> emit_frame env now i a TcpResetCleanup (Some t)
                | StageWaiting _ _ \<Rightarrow> sret True)))"

definition awaits_frame :: "ActiveStage \<Rightarrow> bool" where
  "awaits_frame st = (case st of StageWaiting _ _ \<Rightarrow> False | _ \<Rightarrow> True)"

definition emit_pending :: "('t, 'r, 's) env \<Rightarrow> MonotonicTime \<Rightarrow> ('t, 'r, 's, unit) op" where
  "emit_pending env now =
     sthen (schedule_programme_variants now) (
     sthen (emit_programme_pending env now) (
     sbind (sget (\<lambda>w. take (remaining w) (map fst
        (filter (\<lambda>e. awaits_frame (ap_stage (snd e))) (active (sched w)))))) (\<lambda>ids.
     sloop (emit_active env now) ids)))"

section \<open>Timeouts\<close>

definition programme_strategy :: "nat \<Rightarrow> ('t, 'r, 's, UdpProbeStrategy) op" where
  "programme_strategy lid =
     sbind (get_programme lid) (\<lambda>lg.
     sbind (gets (\<lambda>s. udp_programme_for (plan s) (lg_probe lg))) (\<lambda>x.
     sbind (ok_or_throw x ReservationInvariant) (\<lambda>prog. sret (strategy prog))))"

definition retire_physical :: "nat \<Rightarrow> MonotonicTime \<Rightarrow> ('t, 'r, 's, unit) op" where
  "retire_physical wire now =
     sbind (get_physical wire) (\<lambda>ph.
     sthen (upd (\<lambda>s. s\<lparr>physical := bt_remove wire (physical s)\<rparr>)) (
     sbind (gets (\<lambda>s. time_add now (late_grace (config s)))) (\<lambda>x.
     sbind (ok_or_throw x DeadlineOverflow) (\<lambda>expires.
     sbind (get_programme (ph_logical_id ph)) (\<lambda>lg.
     sbind (ok_or_throw (checked_sub (lg_active lg) 1) ReservationInvariant) (\<lambda>n.
     sthen (upd_programme (ph_logical_id ph) (\<lambda>l. l\<lparr>lg_active := n, lg_grace := lg_grace l + 1\<rparr>)) (
     sthen (release_target (target (lg_probe lg))) (
     sthen (release_prefix (prefix_key (lg_context lg))) (
     sthen (upd (\<lambda>s. s\<lparr>programme_grace := bt_insert wire
        \<lparr>pg_logical_id = ph_logical_id ph, pg_expires = expires, pg_variant = ph_variant ph,
         pg_last_sent_at = ph_last_sent_at ph\<rparr> (programme_grace s)\<rparr>)) (
     sthen (upd (\<lambda>s.
        if \<not> stop_unsent lg \<and> next_variant lg < variant_count lg
           \<and> ph_logical_id ph \<notin> set (programme_ready s)
        then s\<lparr>programme_ready := programme_ready s @ [ph_logical_id ph]\<rparr> else s))
       bump_transitions))))))))))"

definition pace_target :: "MonotonicTime \<Rightarrow> ScanTarget \<Rightarrow> ('t, 'r, 's, unit) op" where
  "pace_target now t =
     sbind (gets (\<lambda>s. bt_contains (adaptive_icmp_seen s) t)) (\<lambda>seen.
     swhen seen (
       sbind (gets (\<lambda>s. time_add now (initial_timeout (config s)))) (\<lambda>x.
       sbind (ok_or_throw x DeadlineOverflow) (\<lambda>deadline.
       sthen (upd (\<lambda>s. s\<lparr>adaptive_not_before := bt_insert t deadline (adaptive_not_before s)\<rparr>))
         (count_diag inc_pacing)))))"

definition stop_programme :: "nat \<Rightarrow> ('t, 'r, 's, unit) op" where
  "stop_programme lid = upd_programme lid (\<lambda>lg. lg\<lparr>stop_unsent := True\<rparr>)"

definition timeout_programme_one :: "nat \<Rightarrow> MonotonicTime \<Rightarrow> ('t, 'r, 's, unit) op" where
  "timeout_programme_one wire now =
     sbind (get_physical wire) (\<lambda>ph.
       case ph_stage ph of
         StageWaiting purpose _ \<Rightarrow>
           sbind (gets config) (\<lambda>c.
             if ph_transmissions ph - 1 < max_retransmissions c
             then sthen (upd_physical wire (\<lambda>p. p\<lparr>ph_stage := StagePending purpose\<rparr>)) bump_transitions
             else
               sthen (case purpose of
                        NeighborSetup _ \<Rightarrow> stop_programme (ph_logical_id ph)
                      | _ \<Rightarrow>
                          sbind (programme_strategy (ph_logical_id ph)) (\<lambda>st.
                          swhen (st = AdaptiveStrategy) (
                            sbind (get_programme (ph_logical_id ph)) (\<lambda>lg.
                            pace_target now (target (lg_probe lg))))))
                 (retire_physical wire now))
       | _ \<Rightarrow> sret ())"

definition timeout_one ::
  "('t, 'r, 's) env \<Rightarrow> nat \<Rightarrow> MonotonicTime \<Rightarrow> ('t, 'r, 's, unit) op" where
  "timeout_one env i now =
     sbind (get_active i) (\<lambda>a.
       case ap_stage a of
         StageWaiting purpose _ \<Rightarrow>
           sbind (gets config) (\<lambda>c.
             if stage_transmissions a - 1 < max_retransmissions c
             then sthen (upd_active i (\<lambda>t. t\<lparr>ap_stage := StagePending purpose\<rparr>)) bump_transitions
             else terminalize env i now (timeout_terminal (ap_probe a) (discovery_silence c)) True)
       | _ \<Rightarrow> sret ())"

definition expired_stage :: "MonotonicTime \<Rightarrow> ActiveStage \<Rightarrow> bool" where
  "expired_stage now st = (case st of StageWaiting _ d \<Rightarrow> now \<ge> d | _ \<Rightarrow> False)"

definition process_timeouts :: "('t, 'r, 's) env \<Rightarrow> MonotonicTime \<Rightarrow> ('t, 'r, 's, unit) op" where
  "process_timeouts env now =
     sbind (sget (\<lambda>w. take (remaining w) (map fst
        (filter (\<lambda>e. expired_stage now (ph_stage (snd e))) (physical (sched w)))))) (\<lambda>wires.
     sthen (sfor (\<lambda>i. timeout_programme_one i now) wires) (
     sbind (sget (\<lambda>w. take (remaining w) (map fst
        (filter (\<lambda>e. expired_stage now (ap_stage (snd e))) (active (sched w)))))) (\<lambda>ids.
     sloop (\<lambda>i.
       sbind (sget (\<lambda>w. transitions (report w) \<ge> MAX_TRANSITIONS_PER_DRIVE)) (\<lambda>full.
         if full then sret False
         else sthen (timeout_one env i now) (sret True))) ids)))"

section \<open>Grace windows\<close>

definition prune_grace :: "MonotonicTime \<Rightarrow> ('t, 'r, 's, unit) op" where
  "prune_grace now = upd (\<lambda>s. s\<lparr>grace := bt_retain (\<lambda>_ expires. now < expires) (grace s)\<rparr>)"

definition expire_grace_one :: "('t, 'r, 's) env \<Rightarrow> nat \<Rightarrow> ('t, 'r, 's, unit) op" where
  "expire_grace_one env wire =
     sbind (gets (\<lambda>s. bt_get (programme_grace s) wire)) (\<lambda>x.
     sbind (ok_or_throw x ReservationInvariant) (\<lambda>g.
     sthen (upd (\<lambda>s. s\<lparr>programme_grace := bt_remove wire (programme_grace s)\<rparr>)) (
     sthen (call_retire env wire) (
     sbind (get_programme (pg_logical_id g)) (\<lambda>lg.
     sbind (ok_or_throw (checked_sub (lg_grace lg) 1) ReservationInvariant) (\<lambda>n.
     sthen (upd_programme (pg_logical_id g) (\<lambda>l. l\<lparr>lg_grace := n\<rparr>)) bump_transitions))))))"

definition prune_programme_grace :: "('t, 'r, 's) env \<Rightarrow> MonotonicTime \<Rightarrow> ('t, 'r, 's, unit) op" where
  "prune_programme_grace env now =
     sbind (sget (\<lambda>w. take (remaining w) (map fst
        (filter (\<lambda>e. now \<ge> pg_expires (snd e)) (programme_grace (sched w)))))) (\<lambda>expired.
     sthen (sfor (expire_grace_one env) expired) (settle_ready_programmes env now))"

section \<open>Evidence for programmes\<close>

definition update_programme_best :: "nat \<Rightarrow> ProgrammeBest \<Rightarrow> ('t, 'r, 's, unit) op" where
  "update_programme_best lid candidate = upd_programme lid (absorb candidate)"

definition hint_family :: "nat \<Rightarrow> UdpServiceEvidence \<Rightarrow> ('t, 'r, 's, unit) op" where
  "hint_family lid service =
     sbind (programme_strategy lid) (\<lambda>st.
     swhen (st = AdaptiveStrategy)
       (upd_programme lid (\<lambda>lg. lg\<lparr>soft_service_family := Some (service_evidence_family service)\<rparr>)))"

text \<open>The evaluation of classified evidence that arrives in the grace window.\<close>

definition weigh_late :: "nat \<Rightarrow> ProgrammeBest \<Rightarrow> ('t, 'r, 's, bool) op" where
  "weigh_late lid b =
     sbind (programme_strategy lid) (\<lambda>st.
       let adaptive_stop = (st = AdaptiveStrategy \<and> best_rank b \<ge> 3); decisive = (best_rank b = 4)
       in sthen (update_programme_best lid b) (
          sthen (if adaptive_stop then stop_programme lid
                 else if decisive then finish_programme_correlations lid True else sret ())
            (sret (adaptive_stop \<or> decisive))))"

definition handle_grace_evidence ::
  "('t, 'r, 's) env \<Rightarrow> MonotonicTime \<Rightarrow> EvidenceEvent \<Rightarrow> ProgrammeGrace \<Rightarrow> ('t, 'r, 's, unit) op" where
  "handle_grace_evidence env now event g =
     sthen (count_diag inc_late) (
       if kind event = UdpServiceHint then
         (case udp_service event of
            Some service \<Rightarrow> hint_family (pg_logical_id g) service
          | None \<Rightarrow> count_diag inc_forged)
       else
         (case classify_udp_evidence (pg_variant g) event (pg_last_sent_at g) now of
            Some b \<Rightarrow>
              sbind (weigh_late (pg_logical_id g) b) (\<lambda>settle.
              swhen settle (sthen reset_report (settle_ready_programmes env now)))
          | None \<Rightarrow> swhen (\<not> is_udp_observation (kind event)) (count_diag inc_forged)))"

definition handle_expired_physical ::
  "('t, 'r, 's) env \<Rightarrow> MonotonicTime \<Rightarrow> EvidenceEvent \<Rightarrow> ('t, 'r, 's, unit) op" where
  "handle_expired_physical env now event =
     sthen reset_report (
     sthen (timeout_programme_one (event_probe_id event) now) (
     sthen (count_diag inc_late) (
     sbind (gets (\<lambda>s. bt_get (programme_grace s) (event_probe_id event))) (\<lambda>x.
       case x of
         None \<Rightarrow> sret ()
       | Some g \<Rightarrow>
           (case classify_udp_evidence (pg_variant g) event (pg_last_sent_at g) now of
              None \<Rightarrow> sret ()
            | Some b \<Rightarrow>
                sbind (weigh_late (pg_logical_id g) b) (\<lambda>settle.
                swhen settle (settle_ready_programmes env now)))))))"

definition neighbor_answered :: "nat \<Rightarrow> nat \<Rightarrow> ('t, 'r, 's, unit) op" where
  "neighbor_answered wire lid =
     sthen (upd_physical wire (\<lambda>p. p\<lparr>ph_stage := StagePending Probe\<rparr>)) (
     sthen (upd_physical wire (\<lambda>p. p\<lparr>ph_transmissions := 0\<rparr>)) (
     sthen (upd_programme lid (\<lambda>lg. lg\<lparr>neighbor_ready := True\<rparr>))
       (upd (\<lambda>s. if lid \<notin> set (programme_ready s)
                  then s\<lparr>programme_ready := programme_ready s @ [lid]\<rparr> else s))))"

definition count_icmp :: "nat \<Rightarrow> ('t, 'r, 's, unit) op" where
  "count_icmp lid =
     sbind (get_programme lid) (\<lambda>lg.
     upd (\<lambda>s. s\<lparr>adaptive_icmp_seen := bt_insert (target (lg_probe lg))
       (saturating_add 16 (count_of (adaptive_icmp_seen s) (target (lg_probe lg))) 1)
       (adaptive_icmp_seen s)\<rparr>))"

definition settle_evidence ::
  "('t, 'r, 's) env \<Rightarrow> MonotonicTime \<Rightarrow> EvidenceEvent \<Rightarrow> nat \<Rightarrow> ProgrammeBest \<Rightarrow> ('t, 'r, 's, unit) op" where
  "settle_evidence env now event lid b =
     sbind (programme_strategy lid) (\<lambda>st.
       let adaptive_stop = (st = AdaptiveStrategy \<and> best_rank b \<ge> 3); decisive = (best_rank b = 4)
       in sthen (swhen (st = AdaptiveStrategy \<and> icmp event \<noteq> None) (count_icmp lid)) (
          sthen (update_programme_best lid b) (
          sthen reset_report (
          sthen (retire_physical (event_probe_id event) now) (
          sthen (if adaptive_stop then stop_programme lid
                 else if decisive then finish_programme_correlations lid True else sret ())
            (settle_ready_programmes env now))))))"

definition handle_physical_evidence ::
  "('t, 'r, 's) env \<Rightarrow> MonotonicTime \<Rightarrow> EvidenceEvent \<Rightarrow> ProgrammePhysical \<Rightarrow> ('t, 'r, 's, unit) op" where
  "handle_physical_evidence env now event ph =
     (case ph_stage ph of
        StageWaiting purpose deadline \<Rightarrow>
          if now \<ge> deadline then handle_expired_physical env now event
          else
            (case purpose of
               NeighborSetup setup \<Rightarrow>
                 if \<not> valid_neighbor_evidence setup (kind event) then count_diag inc_forged
                 else neighbor_answered (event_probe_id event) (ph_logical_id ph)
             | _ \<Rightarrow>
                 if kind event = UdpServiceHint then
                   (case udp_service event of
                      None \<Rightarrow> count_diag inc_forged
                    | Some service \<Rightarrow>
                        sthen (hint_family (ph_logical_id ph) service) (
                        sthen reset_report (
                        sthen (retire_physical (event_probe_id event) now)
                          (settle_ready_programmes env now))))
                 else
                   (case classify_udp_evidence (ph_variant ph) event (ph_last_sent_at ph) now of
                      None \<Rightarrow> swhen (\<not> is_udp_observation (kind event)) (count_diag inc_forged)
                    | Some b \<Rightarrow> settle_evidence env now event (ph_logical_id ph) b))
      | _ \<Rightarrow> count_diag inc_forged)"

definition handle_programme_evidence ::
  "('t, 'r, 's) env \<Rightarrow> MonotonicTime \<Rightarrow> EvidenceEvent \<Rightarrow> ('t, 'r, 's, unit) op" where
  "handle_programme_evidence env now event =
     sbind (gets (\<lambda>s. bt_get (programme_grace s) (event_probe_id event))) (\<lambda>x.
       case x of
         Some g \<Rightarrow> handle_grace_evidence env now event g
       | None \<Rightarrow>
           sbind (get_physical (event_probe_id event)) (\<lambda>ph.
           handle_physical_evidence env now event ph))"

section \<open>Completion and the report\<close>

definition complete_if_finished :: "('t, 'r, 's, unit) op" where
  "complete_if_finished = upd (\<lambda>s.
     if lifecycle s = Running \<and> cursor s = logical_probe_count (plan s) \<and> deferred s = []
        \<and> active s = [] \<and> programmes s = [] \<and> physical s = []
     then s\<lparr>lifecycle := Completed\<rparr> else s)"

definition report_of :: "ScanScheduler \<Rightarrow> MutableReport \<Rightarrow> MonotonicTime option \<Rightarrow> DriveReport" where
  "report_of s r wakeup =
     \<lparr>report_lifecycle = lifecycle s, report_transitions = transitions r,
      report_emissions = emissions r, report_results = results r,
      outstanding = outstanding_physical s, report_deferred = length (deferred s),
      report_grace = saturating_add 64 (length (grace s)) (length (programme_grace s)),
      report_sink_backpressured = sink_backpressured s,
      report_context_waiting = context_waiting s, next_wakeup = wakeup\<rparr>"

definition stage_wakeup :: "ActiveStage \<Rightarrow> MonotonicTime option \<Rightarrow> MonotonicTime option" where
  "stage_wakeup st acc = (case st of StageWaiting _ d \<Rightarrow> earlier acc (Some d) | _ \<Rightarrow> acc)"

definition wakeup_before_token :: "MonotonicTime \<Rightarrow> ScanScheduler \<Rightarrow> MonotonicTime option" where
  "wakeup_before_token now s =
     (let w0 = (if stop s \<noteq> None \<or> invalidating_generation s \<noteq> None then Some now
                else session_deadline s);
          w1 = fold stage_wakeup (map ap_stage (bt_values (active s))) w0;
          w2 = fold stage_wakeup (map ph_stage (bt_values (physical s))) w1
      in if lifecycle s = Running
         then earlier (earlier (earlier w2 (min_value (bt_values (grace s))))
                (min_value (map pg_expires (bt_values (programme_grace s)))))
                (min_value (filter (\<lambda>v. now < v) (bt_values (adaptive_not_before s))))
         else w2)"

definition has_pending_frame :: "MonotonicTime \<Rightarrow> ScanScheduler \<Rightarrow> bool" where
  "has_pending_frame now s \<longleftrightarrow>
     list_ex (\<lambda>a. awaits_frame (ap_stage a)) (bt_values (active s))
     \<or> list_ex (\<lambda>ph. is_pending (ph_stage ph)) (bt_values (physical s))
     \<or> can_schedule_programme_variant now s"

definition can_admit :: "ScanScheduler \<Rightarrow> bool" where
  "can_admit s \<longleftrightarrow>
     \<not> context_waiting s \<and> \<not> sink_backpressured s
     \<and> (cursor s < logical_probe_count (plan s) \<or> deferred s \<noteq> [])"

definition make_report :: "MonotonicTime \<Rightarrow> ('t, 'r, 's, DriveReport) op" where
  "make_report now =
     sbind (sget (\<lambda>w. (sched w, report w))) (\<lambda>(s, r).
       if is_terminal s then sret (report_of s r None)
       else if lifecycle s = Running \<and> (has_pending_frame now s \<or> can_admit s) then
         sbind (ok_or_throw (bucket s) InvalidLifecycle) (\<lambda>b.
           case next_ready now b of (res, b') \<Rightarrow>
             sthen (upd (\<lambda>s. s\<lparr>bucket := Some b'\<rparr>)) (
             sbind (slift res) (\<lambda>token_ready.
             sret (report_of s r (earlier (wakeup_before_token now s) (Some token_ready))))))
       else sret (report_of s r (wakeup_before_token now s)))"

section \<open>Driving\<close>

definition stop_at_deadline :: "MonotonicTime \<Rightarrow> ('t, 'r, 's, bool) op" where
  "stop_at_deadline now =
     sbind (gets (\<lambda>s. deadline_reached now s \<and> \<not> is_terminal s \<and> stop s = None)) (\<lambda>due.
     sthen (swhen due (initiate_stop OutcomeSessionDeadline ReasonSessionDeadline Completed)) (sret due))"

definition pause_boundary :: "('t, 'r, 's, unit) op" where
  "pause_boundary =
     sbind (gets lifecycle) (\<lambda>l.
     swhen (l = Pausing) (sthen (upd (\<lambda>s. s\<lparr>lifecycle := Paused\<rparr>)) bump_transitions))"

definition drive_settle :: "('t, 'r, 's) env \<Rightarrow> MonotonicTime \<Rightarrow> ('t, 'r, 's, unit) op" where
  "drive_settle env now =
     sbind (gets (\<lambda>s. stop s \<noteq> None)) (\<lambda>stopping.
     sthen (swhen stopping (settle_stop env now)) (
     sbind (gets (\<lambda>s. stop s = None \<and> invalidating_generation s \<noteq> None)) (\<lambda>invalidating.
     sthen (swhen invalidating (settle_context_invalidation env now)) (
     sbind (gets (\<lambda>s. \<not> is_terminal s \<and> stop s = None \<and> invalidating_generation s = None)) (\<lambda>live.
     swhen live (process_timeouts env now))))))"

definition drive_running :: "('t, 'r, 's) env \<Rightarrow> MonotonicTime \<Rightarrow> ('t, 'r, 's, unit) op" where
  "drive_running env now =
     sbind (gets lifecycle) (\<lambda>l.
     swhen (l = Running) (
       sthen (emit_pending env now) (
       sbind (gets context_waiting) (\<lambda>waiting.
       sthen (swhen (\<not> waiting) (admit env now)) (emit_pending env now)))))"

definition drive :: "('t, 'r, 's) env \<Rightarrow> MonotonicTime \<Rightarrow> ('t, 'r, 's, DriveReport) op" where
  "drive env now =
     sbind (gets lifecycle) (\<lambda>l.
       if l = Created \<or> l = Closed then throw InvalidLifecycle
       else
         sthen (observe_now now) (
         sthen (prune_grace now) (
         sthen reset_report (
         sthen (prune_programme_grace env now) (
         sthen (upd (\<lambda>s. s\<lparr>sink_backpressured := False\<rparr>)) (
         sthen pause_boundary (
         sbind (stop_at_deadline now) (\<lambda>_.
         sthen (drive_settle env now) (
         sthen (drive_running env now) (
         sthen complete_if_finished (make_report now)))))))))))"

section \<open>Evidence\<close>

definition accept_evidence ::
  "('t, 'r, 's) env \<Rightarrow> MonotonicTime \<Rightarrow> EvidenceEvent \<Rightarrow> ActiveProbe \<Rightarrow> ('t, 'r, 's, unit) op" where
  "accept_evidence env now event a =
     (case classify_terminal (ap_probe a) event of
        Inl _ \<Rightarrow> count_diag inc_forged
      | Inr t \<Rightarrow>
          let sample = Option.bind (last_probe_sent_at a) (\<lambda>sent. elapsed_since now sent);
              terminal = t\<lparr>term_rtt := sample\<rparr>
          in sthen (case sample of
                      Some d \<Rightarrow> swhen (stage_transmissions a = 1) (upd (\<lambda>s. s\<lparr>rtt := observe d (rtt s)\<rparr>))
                    | None \<Rightarrow> sret ()) (
             sbind (gets config) (\<lambda>c.
             sthen (if tcp_reset_cleanup c \<and> family (ap_probe a) = TcpSyn \<and> kind event = TcpSynAcknowledgment
                    then
                      sthen (upd_active (event_probe_id event) (\<lambda>t.
                        t\<lparr>ap_stage := StagePendingCleanup terminal, stage_transmissions := 0\<rparr>)) (
                      sthen reset_report (emit_pending env now))
                    else terminalize env (event_probe_id event) now terminal False)
               complete_if_finished)))"

definition active_evidence ::
  "('t, 'r, 's) env \<Rightarrow> MonotonicTime \<Rightarrow> EvidenceEvent \<Rightarrow> ActiveProbe \<Rightarrow> ('t, 'r, 's, unit) op" where
  "active_evidence env now event a =
     (case ap_stage a of
        StageWaiting purpose deadline \<Rightarrow>
          if now \<ge> deadline then
            sthen reset_report (sthen (timeout_one env (event_probe_id event) now) (count_diag inc_late))
          else
            (case purpose of
               NeighborSetup setup \<Rightarrow>
                 if \<not> valid_neighbor_evidence setup (kind event) then count_diag inc_forged
                 else upd_active (event_probe_id event) (\<lambda>t.
                        t\<lparr>ap_stage := StagePending Probe, stage_transmissions := 0\<rparr>)
             | _ \<Rightarrow> accept_evidence env now event a)
      | _ \<Rightarrow> count_diag inc_forged)"

text \<open>Lines after the two settling steps: dispatch on the table that holds the identifier.\<close>

definition dispatch_evidence ::
  "('t, 'r, 's) env \<Rightarrow> MonotonicTime \<Rightarrow> EvidenceEvent \<Rightarrow> ('t, 'r, 's, unit) op" where
  "dispatch_evidence env now event =
     sbind (gets id) (\<lambda>s.
       if bt_contains (physical s) (event_probe_id event)
          \<or> bt_contains (programme_grace s) (event_probe_id event)
       then sthen (handle_programme_evidence env now event) complete_if_finished
       else if bt_contains (grace s) (event_probe_id event)
       then sthen (count_diag inc_duplicates) (count_diag inc_late)
       else
         (case bt_get (active s) (event_probe_id event) of
            None \<Rightarrow> count_diag inc_forged
          | Some a \<Rightarrow> active_evidence env now event a))"

text \<open>The settling of an open invalidation; the answer says whether the event is dropped.\<close>

definition invalidation_filter ::
  "('t, 'r, 's) env \<Rightarrow> MonotonicTime \<Rightarrow> EvidenceEvent \<Rightarrow> ('t, 'r, 's, bool) op" where
  "invalidation_filter env now event =
     sbind (gets id) (\<lambda>s.
       case invalidating_generation s of
         None \<Rightarrow> sret False
       | Some f \<Rightarrow>
           let invalidated = (case bt_get (active s) (event_probe_id event) of
                                None \<Rightarrow> False | Some a \<Rightarrow> filter_matches f (generation (ap_context a)))
           in sthen reset_report (
              sthen (settle_context_invalidation env now) (
              gets (\<lambda>s. invalidated \<and> bt_contains (active s) (event_probe_id event)))))"

definition handle_evidence ::
  "('t, 'r, 's) env \<Rightarrow> MonotonicTime \<Rightarrow> EvidenceEvent \<Rightarrow> ('t, 'r, 's, unit) op" where
  "handle_evidence env now event =
     sthen (observe_now now) (
     sthen (prune_grace now) (
     sthen reset_report (
     sthen (prune_programme_grace env now) (
     sbind (stop_at_deadline now) (\<lambda>due.
     sthen (swhen due (sthen reset_report (settle_stop env now))) (
     sbind (gets (\<lambda>s. stop s \<noteq> None)) (\<lambda>stopping.
       if stopping then count_diag inc_late
       else
         sbind (invalidation_filter env now event) (\<lambda>dropped.
           if dropped then count_diag inc_forged
           else dispatch_evidence env now event))))))))"

end
