(* ===== verification/Scheduler_Inv.thy ===== *)
theory Scheduler_Inv
  imports Scheduler_Drive
begin

text \<open>
  The invariant of the scheduler, in groups that each speak of a few fields: well-formed
  tables, occupancy counters as multisets of the targets and prefixes in flight, links
  between programmes and their physical probes, identifier and row accounting against the
  trace, capacity limits, lifecycle, and the transmission budget of each identifier. The
  second part shows that the elementary state changes of the operations preserve it.
\<close>

section \<open>Reading the trace\<close>

definition committed :: "TraceEvent list \<Rightarrow> nat list" where
  "committed tr =
     List.map_filter (\<lambda>e. case e of Committed r \<Rightarrow> Some (logical_id (result_probe r)) | _ \<Rightarrow> None) tr"

definition reserved_rows :: "TraceEvent list \<Rightarrow> nat" where
  "reserved_rows tr = length (filter (\<lambda>e. e = ReservedRow) tr)"

definition released_rows :: "TraceEvent list \<Rightarrow> nat" where
  "released_rows tr = sum_list (map (\<lambda>e. case e of ReleasedRows n \<Rightarrow> n | _ \<Rightarrow> 0) tr)"

text \<open>Frames sent for an identifier with a given purpose.\<close>

definition sent :: "TraceEvent list \<Rightarrow> nat \<Rightarrow> EmissionPurpose \<Rightarrow> nat" where
  "sent tr i pu = length (filter (\<lambda>e. case e of
     Emitted em \<Rightarrow> em_probe_id em = i \<and> em_purpose em = pu | _ \<Rightarrow> False) tr)"

definition frames :: "TraceEvent list \<Rightarrow> nat" where
  "frames tr = length (filter (\<lambda>e. case e of Emitted _ \<Rightarrow> True | _ \<Rightarrow> False) tr)"

text \<open>
  No result is committed twice, and nothing is sent for a logical probe after its result.
\<close>

fun orderly :: "nat set \<Rightarrow> TraceEvent list \<Rightarrow> bool" where
  "orderly C [] \<longleftrightarrow> True"
| "orderly C (Emitted em # tr) \<longleftrightarrow> logical_id (em_probe em) \<notin> C \<and> orderly C tr"
| "orderly C (Committed r # tr) \<longleftrightarrow>
     logical_id (result_probe r) \<notin> C \<and> orderly (insert (logical_id (result_probe r)) C) tr"
| "orderly C (_ # tr) \<longleftrightarrow> orderly C tr"

lemma committed_Nil [simp]: "committed [] = []"
  by (simp add: committed_def map_filter_simps)

lemma committed_append [simp]: "committed (xs @ ys) = committed xs @ committed ys"
  by (induction xs) (auto simp: committed_def map_filter_simps split: option.splits)

lemma committed_single [simp]:
  "committed [Committed r] = [logical_id (result_probe r)]" "committed [Emitted em] = []"
  "committed [ReservedRow] = []" "committed [ReleasedRows n] = []" "committed [StopRequested] = []"
  by (simp_all add: committed_def map_filter_simps)

lemma reserved_rows_append [simp]: "reserved_rows (xs @ ys) = reserved_rows xs + reserved_rows ys"
  by (simp add: reserved_rows_def)

lemma reserved_rows_single [simp]:
  "reserved_rows [] = 0" "reserved_rows [Committed r] = 0" "reserved_rows [Emitted em] = 0"
  "reserved_rows [ReservedRow] = 1" "reserved_rows [ReleasedRows n] = 0" "reserved_rows [StopRequested] = 0"
  by (simp_all add: reserved_rows_def)

lemma released_rows_append [simp]: "released_rows (xs @ ys) = released_rows xs + released_rows ys"
  by (simp add: released_rows_def)

lemma released_rows_single [simp]:
  "released_rows [] = 0" "released_rows [Committed r] = 0" "released_rows [Emitted em] = 0"
  "released_rows [ReservedRow] = 0" "released_rows [ReleasedRows n] = n" "released_rows [StopRequested] = 0"
  by (simp_all add: released_rows_def)

lemma sent_append [simp]: "sent (xs @ ys) i pu = sent xs i pu + sent ys i pu"
  by (simp add: sent_def)

lemma sent_single [simp]:
  "sent [] i pu = 0" "sent [Committed r] i pu = 0" "sent [ReservedRow] i pu = 0"
  "sent [ReleasedRows n] i pu = 0" "sent [StopRequested] i pu = 0"
  "sent [Emitted em] i pu = (if em_probe_id em = i \<and> em_purpose em = pu then 1 else 0)"
  by (simp_all add: sent_def)

lemma frames_append [simp]: "frames (xs @ ys) = frames xs + frames ys"
  by (simp add: frames_def)

lemma frames_single [simp]:
  "frames [] = 0" "frames [Committed r] = 0" "frames [ReservedRow] = 0" "frames [ReleasedRows n] = 0"
  "frames [StopRequested] = 0" "frames [Emitted em] = 1"
  by (simp_all add: frames_def)

definition settled :: "nat set \<Rightarrow> TraceEvent list \<Rightarrow> nat set" where
  "settled C tr = C \<union> set (committed tr)"

lemma settled_step [simp]:
  "settled C (Committed r # tr) = settled (insert (logical_id (result_probe r)) C) tr"
  "settled C (Emitted em # tr) = settled C tr" "settled C (ReservedRow # tr) = settled C tr"
  "settled C (ReleasedRows n # tr) = settled C tr" "settled C (StopRequested # tr) = settled C tr"
  by (auto simp: settled_def committed_def map_filter_simps)

lemma orderly_snoc: "orderly C (tr @ [e]) \<longleftrightarrow> orderly C tr \<and> orderly (settled C tr) [e]"
proof (induction C tr rule: orderly.induct)
  case (1 C)
  then show ?case by (simp add: settled_def)
qed auto

lemma orderly_append [simp]:
  "orderly {} (tr @ [Emitted em]) \<longleftrightarrow> orderly {} tr \<and> logical_id (em_probe em) \<notin> set (committed tr)"
  "orderly {} (tr @ [Committed r]) \<longleftrightarrow>
     orderly {} tr \<and> logical_id (result_probe r) \<notin> set (committed tr)"
  "orderly {} (tr @ [ReservedRow]) \<longleftrightarrow> orderly {} tr"
  "orderly {} (tr @ [ReleasedRows n]) \<longleftrightarrow> orderly {} tr"
  "orderly {} (tr @ [StopRequested]) \<longleftrightarrow> orderly {} tr"
  by (simp_all add: orderly_snoc settled_def)

lemma orderly_distinct: "orderly C tr \<Longrightarrow> distinct (committed tr) \<and> set (committed tr) \<inter> C = {}"
proof (induction C tr rule: orderly.induct)
  case (3 C r tr)
  then show ?case by (auto simp: committed_def map_filter_simps)
qed (auto simp: committed_def map_filter_simps)

section \<open>Multisets of table entries\<close>

lemma bt_image_insert:
  "bt_wf m \<Longrightarrow> bt_get m k = None \<Longrightarrow>
     image_mset g (mset (bt_insert k v m)) = add_mset (g (k, v)) (image_mset g (mset m))"
  by (simp add: bt_mset_insert)

lemma bt_image_remove:
  "bt_wf m \<Longrightarrow> bt_get m k = Some v \<Longrightarrow>
     image_mset g (mset m) = add_mset (g (k, v)) (image_mset g (mset (bt_remove k m)))"
  by (simp add: bt_mset_remove)

lemma bt_image_adjust:
  "(\<And>v. g (k, f v) = g (k, v)) \<Longrightarrow> image_mset g (mset (bt_adjust k f m)) = image_mset g (mset m)"
  by (induction m) (auto simp: bt_adjust_def)

definition owners :: "(nat, ProgrammePhysical) btree \<Rightarrow> nat multiset" where
  "owners m = image_mset (\<lambda>e. ph_logical_id (snd e)) (mset m)"

definition grace_owners :: "(nat, ProgrammeGrace) btree \<Rightarrow> nat multiset" where
  "grace_owners m = image_mset (\<lambda>e. pg_logical_id (snd e)) (mset m)"

definition prog_target :: "(nat, ProgrammeLogical) btree \<Rightarrow> nat \<Rightarrow> ScanTarget" where
  "prog_target P lid = target (lg_probe (the (bt_get P lid)))"

definition prog_prefix :: "(nat, ProgrammeLogical) btree \<Rightarrow> nat \<Rightarrow> PrefixKey" where
  "prog_prefix P lid = prefix_key (lg_context (the (bt_get P lid)))"

definition act_targets :: "(nat, ActiveProbe) btree \<Rightarrow> ScanTarget multiset" where
  "act_targets m = image_mset (\<lambda>e. target (ap_probe (snd e))) (mset m)"

definition act_prefixes :: "(nat, ActiveProbe) btree \<Rightarrow> PrefixKey multiset" where
  "act_prefixes m = image_mset (\<lambda>e. prefix_key (ap_context (snd e))) (mset m)"

definition key_mset :: "(nat, 'v) btree \<Rightarrow> nat multiset" where
  "key_mset m = image_mset fst (mset m)"

lemmas table_mset_defs = owners_def grace_owners_def act_targets_def act_prefixes_def key_mset_def

lemma table_mset_Nil [simp]:
  "owners [] = {#}" "grace_owners [] = {#}" "act_targets [] = {#}" "act_prefixes [] = {#}" "key_mset [] = {#}"
  by (simp_all add: table_mset_defs)

lemma table_mset_insert:
  assumes "bt_wf m" and "bt_get m k = None"
  shows "key_mset (bt_insert k v m) = add_mset k (key_mset m)"
  using assms by (simp add: key_mset_def bt_mset_insert)

lemma table_mset_remove:
  assumes "bt_wf m" and "bt_get m k = Some v"
  shows "key_mset m = add_mset k (key_mset (bt_remove k m))"
  using assms by (simp add: key_mset_def bt_mset_remove)

lemma key_mset_adjust [simp]: "key_mset (bt_adjust k f m) = key_mset m"
  unfolding key_mset_def by (rule bt_image_adjust) simp

lemma key_mset_iff: "k \<in># key_mset m \<longleftrightarrow> bt_get m k \<noteq> None"
  by (simp add: key_mset_def bt_get_None_iff del: not_None_eq)

lemma size_key_mset [simp]: "size (key_mset m) = length m"
  by (simp add: key_mset_def)

lemma owners_insert:
  "bt_wf m \<Longrightarrow> bt_get m k = None \<Longrightarrow> owners (bt_insert k v m) = add_mset (ph_logical_id v) (owners m)"
  by (simp add: owners_def bt_mset_insert)

lemma owners_remove:
  "bt_wf m \<Longrightarrow> bt_get m k = Some v \<Longrightarrow> owners m = add_mset (ph_logical_id v) (owners (bt_remove k m))"
  by (simp add: owners_def bt_mset_remove)

lemma owners_adjust [simp]:
  "(\<And>v. ph_logical_id (f v) = ph_logical_id v) \<Longrightarrow> owners (bt_adjust k f m) = owners m"
  unfolding owners_def by (rule bt_image_adjust) simp

lemma grace_owners_insert:
  "bt_wf m \<Longrightarrow> bt_get m k = None \<Longrightarrow>
     grace_owners (bt_insert k v m) = add_mset (pg_logical_id v) (grace_owners m)"
  by (simp add: grace_owners_def bt_mset_insert)

lemma grace_owners_remove:
  "bt_wf m \<Longrightarrow> bt_get m k = Some v \<Longrightarrow>
     grace_owners m = add_mset (pg_logical_id v) (grace_owners (bt_remove k m))"
  by (simp add: grace_owners_def bt_mset_remove)

lemma act_insert:
  assumes "bt_wf m" and "bt_get m k = None"
  shows "act_targets (bt_insert k v m) = add_mset (target (ap_probe v)) (act_targets m)"
    and "act_prefixes (bt_insert k v m) = add_mset (prefix_key (ap_context v)) (act_prefixes m)"
  using assms by (simp_all add: act_targets_def act_prefixes_def bt_mset_insert)

lemma act_remove:
  assumes "bt_wf m" and "bt_get m k = Some v"
  shows "act_targets m = add_mset (target (ap_probe v)) (act_targets (bt_remove k m))"
    and "act_prefixes m = add_mset (prefix_key (ap_context v)) (act_prefixes (bt_remove k m))"
  using assms by (simp_all add: act_targets_def act_prefixes_def bt_mset_remove)

lemma act_adjust [simp]:
  "(\<And>v. ap_probe (f v) = ap_probe v) \<Longrightarrow> act_targets (bt_adjust k f m) = act_targets m"
  "(\<And>v. ap_context (f v) = ap_context v) \<Longrightarrow> act_prefixes (bt_adjust k f m) = act_prefixes m"
  unfolding act_targets_def act_prefixes_def by (rule bt_image_adjust, simp)+

lemma prog_adjust [simp]:
  "(\<And>lg. lg_probe (f lg) = lg_probe lg) \<Longrightarrow> prog_target (bt_adjust k f P) = prog_target P"
  "(\<And>lg. lg_context (f lg) = lg_context lg) \<Longrightarrow> prog_prefix (bt_adjust k f P) = prog_prefix P"
  by (auto simp: fun_eq_iff prog_target_def prog_prefix_def option.the_def split: option.splits)

lemma owners_mem: "lid \<in># owners m \<longleftrightarrow> (\<exists>i ph. (i, ph) \<in> set m \<and> ph_logical_id ph = lid)"
  by (force simp: owners_def)

lemma prog_image_cong:
  assumes "lid \<notin># M"
  shows "image_mset (prog_target (bt_insert lid lg P)) M = image_mset (prog_target P) M"
    and "image_mset (prog_prefix (bt_insert lid lg P)) M = image_mset (prog_prefix P) M"
    and "image_mset (prog_target (bt_remove lid P)) M = image_mset (prog_target P) M"
    and "image_mset (prog_prefix (bt_remove lid P)) M = image_mset (prog_prefix P) M"
  using assms by (auto intro!: image_mset_cong simp: prog_target_def prog_prefix_def)

section \<open>The groups of the invariant\<close>

text \<open>Each group is a predicate of the fields it reads, in the order of the record.\<close>

type_synonym actives = "(nat, ActiveProbe) btree"
type_synonym logicals = "(nat, ProgrammeLogical) btree"
type_synonym physicals = "(nat, ProgrammePhysical) btree"
type_synonym graces = "(nat, ProgrammeGrace) btree"
type_synonym expiries = "(nat, MonotonicTime) btree"

definition fixed_ok :: "ScanPlan \<Rightarrow> SchedulerConfig \<Rightarrow> SeededPermutation \<Rightarrow> bool" where
  "fixed_ok pl c perm \<longleftrightarrow> plan_ok pl \<and> config_ok c \<and> perm_ok perm \<and> perm_length perm = logical_probe_count pl"

definition tables_ok :: "actives \<Rightarrow> expiries \<Rightarrow> logicals \<Rightarrow> physicals \<Rightarrow> graces \<Rightarrow> bool" where
  "tables_ok act gr P ph pg \<longleftrightarrow> bt_wf act \<and> bt_wf gr \<and> bt_wf P \<and> bt_wf ph \<and> bt_wf pg"

definition tgt_occ :: "actives \<Rightarrow> logicals \<Rightarrow> physicals \<Rightarrow> ScanTarget multiset" where
  "tgt_occ act P ph = act_targets act + image_mset (prog_target P) (owners ph)"

definition pfx_occ :: "actives \<Rightarrow> logicals \<Rightarrow> physicals \<Rightarrow> PrefixKey multiset" where
  "pfx_occ act P ph = act_prefixes act + image_mset (prog_prefix P) (owners ph)"

definition occ_ok ::
  "actives \<Rightarrow> logicals \<Rightarrow> physicals \<Rightarrow> (ScanTarget, nat) btree \<Rightarrow> (PrefixKey, nat) btree \<Rightarrow> bool" where
  "occ_ok act P ph pt pp \<longleftrightarrow> counts.holds pt (tgt_occ act P ph) \<and> counts.holds pp (pfx_occ act P ph)"

text \<open>The counters kept in a programme agree with the two tables that name it.\<close>

definition link_ok :: "logicals \<Rightarrow> physicals \<Rightarrow> graces \<Rightarrow> bool" where
  "link_ok P ph pg \<longleftrightarrow>
     (\<forall>lid lg. bt_get P lid = Some lg \<longrightarrow>
        lg_active lg = count (owners ph) lid \<and> lg_grace lg = count (grace_owners pg) lid)
     \<and> (\<forall>lid. lid \<in># owners ph \<longrightarrow> bt_get P lid \<noteq> None)
     \<and> (\<forall>lid. lid \<in># grace_owners pg \<longrightarrow> bt_get P lid \<noteq> None)"

definition wire_ok :: "nat \<Rightarrow> physicals \<Rightarrow> graces \<Rightarrow> nat \<Rightarrow> bool" where
  "wire_ok n ph pg nx \<longleftrightarrow> n \<le> nx
     \<and> (\<forall>i. bt_get ph i \<noteq> None \<longrightarrow> n \<le> i \<and> i < nx \<and> bt_get pg i = None)
     \<and> (\<forall>i. bt_get pg i \<noteq> None \<longrightarrow> n \<le> i \<and> i < nx)"

text \<open>Every probe held anywhere is the one the plan decodes for its identifier.\<close>

definition probe_ok :: "ScanPlan \<Rightarrow> actives \<Rightarrow> logicals \<Rightarrow> LogicalProbe list \<Rightarrow> bool" where
  "probe_ok pl act P df \<longleftrightarrow>
     (\<forall>i a. bt_get act i = Some a \<longrightarrow> logical_probe_at pl i = Ok (ap_probe a))
     \<and> (\<forall>i lg. bt_get P i = Some lg \<longrightarrow> logical_probe_at pl i = Ok (lg_probe lg))
     \<and> (\<forall>p \<in> set df. logical_probe_at pl (logical_id p) = Ok p)"

text \<open>
  A programme with variants left is queued or has a frame in flight, and its cursor into
  the variants stays in range.
\<close>

definition programme_shape :: "ScanPlan \<Rightarrow> ProgrammeLogical \<Rightarrow> bool" where
  "programme_shape pl lg \<longleftrightarrow>
     (\<exists>prog q. udp_programme_for pl (lg_probe lg) = Some prog \<and> port (lg_probe lg) = Some q
        \<and> variant_count lg = variant_count_for prog (target_address (target (lg_probe lg))) q
        \<and> lg_active lg \<le> maximum_concurrent (strategy prog))
     \<and> next_variant lg \<le> variant_count lg
     \<and> (neighbor_ready lg \<or> neighbor_setup (lg_context lg) \<noteq> None)"

definition waiting_turn :: "nat list \<Rightarrow> nat \<Rightarrow> ProgrammeLogical \<Rightarrow> bool" where
  "waiting_turn rdy lid lg \<longleftrightarrow>
     (\<not> stop_unsent lg \<and> next_variant lg < variant_count lg \<longrightarrow> lid \<in> set rdy \<or> 0 < lg_active lg)"

definition prog_ok :: "ScanPlan \<Rightarrow> logicals \<Rightarrow> nat list \<Rightarrow> bool" where
  "prog_ok pl P rdy \<longleftrightarrow>
     (\<forall>lid lg. bt_get P lid = Some lg \<longrightarrow> programme_shape pl lg \<and> waiting_turn rdy lid lg)"

definition held :: "LogicalProbe list \<Rightarrow> actives \<Rightarrow> logicals \<Rightarrow> TraceEvent list \<Rightarrow> nat multiset" where
  "held df act P tr = mset (map logical_id df) + key_mset act + key_mset P + mset (committed tr)"

text \<open>
  Identifier accounting. \<open>H\<close> are the identifiers of candidates in hand. While nothing was
  cut short, the identifiers drawn so far are exactly the held and the committed ones.
\<close>

definition ids_ok ::
  "nat multiset \<Rightarrow> nat \<Rightarrow> SeededPermutation \<Rightarrow> nat \<Rightarrow> bool \<Rightarrow> LogicalProbe list \<Rightarrow> actives \<Rightarrow> logicals
     \<Rightarrow> expiries \<Rightarrow> TraceEvent list \<Rightarrow> bool" where
  "ids_ok H n perm cur closed df act P gr tr \<longleftrightarrow>
     held df act P tr + H \<subseteq># mset_set {..<n}
     \<and> (StopRequested \<notin> set tr \<longrightarrow> \<not> closed \<longrightarrow> held df act P tr + H = mset_set (perm_image perm cur))
     \<and> cur \<le> n
     \<and> (\<forall>i. bt_get gr i \<noteq> None \<longrightarrow> i \<in> set (committed tr))"

definition trace_ok :: "ScanPlan \<Rightarrow> nat \<Rightarrow> nat \<Rightarrow> TraceEvent list \<Rightarrow> bool" where
  "trace_ok pl na np tr \<longleftrightarrow> orderly {} tr
     \<and> (\<forall>r. Committed r \<in> set tr \<longrightarrow>
           logical_probe_at pl (logical_id (result_probe r)) = Ok (result_probe r))
     \<and> reserved_rows tr = length (committed tr) + released_rows tr + na + np"

definition caps_ok :: "SchedulerConfig \<Rightarrow> actives \<Rightarrow> logicals \<Rightarrow> physicals \<Rightarrow> nat \<Rightarrow> nat \<Rightarrow> nat \<Rightarrow> bool" where
  "caps_ok c act P ph ng npg nd \<longleftrightarrow>
     length act + length ph \<le> max_outstanding c
     \<and> length act + length P \<le> max_outstanding c
     \<and> length act + length ph + ng + npg \<le> max_grace_entries c
     \<and> (\<forall>t. count (tgt_occ act P ph) t \<le> max_per_target c)
     \<and> (\<forall>k. count (pfx_occ act P ph) k \<le> max_per_prefix c)
     \<and> nd \<le> MAX_TRANSITIONS_PER_DRIVE"

definition life_ok ::
  "SessionLifecycle \<Rightarrow> StopState option \<Rightarrow> bool \<Rightarrow> bool \<Rightarrow> bool \<Rightarrow> bool \<Rightarrow> bool" where
  "life_ok lc st armed idle drained stopped \<longleftrightarrow>
     (st \<noteq> None \<longleftrightarrow> lc = Cancelling)
     \<and> (\<forall>x. st = Some x \<longrightarrow> final_lifecycle x = Completed \<or> final_lifecycle x = Failed)
     \<and> (lc \<in> {Running, Pausing, Paused} \<longrightarrow> armed)
     \<and> (lc \<in> {Created, Completed, Failed, Closed} \<longrightarrow> idle)
     \<and> (lc \<in> {Cancelling, Completed, Failed} \<longrightarrow> drained)
     \<and> (lc \<in> {Cancelling, Failed} \<longrightarrow> stopped)
     \<and> (stopped \<longrightarrow> lc \<in> {Cancelling, Completed, Failed, Closed})"

text \<open>
  The transmission budget: \<open>n\<close> frames of the current purpose were sent in the current
  stage, at most one plus the configured retransmissions, and cleanup is sent at most once.
\<close>

definition stage_budget :: "nat \<Rightarrow> (EmissionPurpose \<Rightarrow> nat) \<Rightarrow> ActiveStage \<Rightarrow> nat \<Rightarrow> bool" where
  "stage_budget lim f st n \<longleftrightarrow>
     f TcpResetCleanup = 0 \<and>
     (case st of
        StagePending pu \<Rightarrow> pu \<noteq> TcpResetCleanup \<and> f pu = n \<and> n \<le> lim \<and> (pu \<noteq> Probe \<longrightarrow> f Probe = 0)
      | StageWaiting pu _ \<Rightarrow>
          pu \<noteq> TcpResetCleanup \<and> f pu = n \<and> 0 < n \<and> n \<le> lim + 1 \<and> (pu \<noteq> Probe \<longrightarrow> f Probe = 0)
      | StagePendingCleanup _ \<Rightarrow> True)"

definition send_ok :: "nat \<Rightarrow> nat \<Rightarrow> bool \<Rightarrow> actives \<Rightarrow> physicals \<Rightarrow> nat \<Rightarrow> TraceEvent list \<Rightarrow> bool" where
  "send_ok lim n closed act ph nx tr \<longleftrightarrow>
     (\<forall>i pu. sent tr i pu \<le> lim + 1)
     \<and> (\<forall>i. sent tr i TcpResetCleanup \<le> 1)
     \<and> (\<forall>i a. bt_get act i = Some a \<longrightarrow> stage_budget lim (sent tr i) (ap_stage a) (stage_transmissions a))
     \<and> (\<forall>i p. bt_get ph i = Some p \<longrightarrow> stage_budget lim (sent tr i) (ph_stage p) (ph_transmissions p))
     \<and> (\<forall>i pu. \<not> closed \<longrightarrow> i < n \<longrightarrow> bt_get act i = None \<longrightarrow> i \<notin> set (committed tr) \<longrightarrow> sent tr i pu = 0)
     \<and> (\<forall>i pu. nx \<le> i \<longrightarrow> sent tr i pu = 0)"

text \<open>
  The rate limit over the whole session: the frames sent and the tokens left never exceed
  the burst and what the rate has added since the session started.
\<close>

definition rate_ok ::
  "SchedulerConfig \<Rightarrow> bool \<Rightarrow> TokenBucket option \<Rightarrow> MonotonicTime option \<Rightarrow> nat \<Rightarrow> bool" where
  "rate_ok c fresh bk sd k \<longleftrightarrow> (fresh \<longrightarrow> k = 0 \<and> sd = None) \<and>
     (case bk of
        None \<Rightarrow> k = 0
      | Some b \<Rightarrow>
          bucket_rate b = rate_per_second c \<and> capacity_scaled b = burst c * TOKEN_SCALE
          \<and> (\<exists>t0. sd = Some (t0 + session_deadline_after c) \<and> t0 \<le> last_refill b
               \<and> k * TOKEN_SCALE + tokens_scaled b
                   \<le> burst c * TOKEN_SCALE + rate_per_second c * (last_refill b - t0)))"

definition inv_with :: "nat multiset \<Rightarrow> ScanScheduler \<Rightarrow> TraceEvent list \<Rightarrow> bool" where
  "inv_with H s tr \<longleftrightarrow>
     fixed_ok (plan s) (config s) (permutation s)
     \<and> tables_ok (active s) (grace s) (programmes s) (physical s) (programme_grace s)
     \<and> occ_ok (active s) (programmes s) (physical s) (per_target s) (per_prefix s)
     \<and> link_ok (programmes s) (physical s) (programme_grace s)
     \<and> wire_ok (logical_probe_count (plan s)) (physical s) (programme_grace s) (next_wire_id s)
     \<and> probe_ok (plan s) (active s) (programmes s) (deferred s)
     \<and> prog_ok (plan s) (programmes s) (programme_ready s)
     \<and> ids_ok H (logical_probe_count (plan s)) (permutation s) (cursor s) (lifecycle s = Closed)
         (deferred s) (active s) (programmes s) (grace s) tr
     \<and> trace_ok (plan s) (length (active s)) (length (programmes s)) tr
     \<and> caps_ok (config s) (active s) (programmes s) (physical s) (length (grace s))
         (length (programme_grace s)) (length (deferred s))
     \<and> life_ok (lifecycle s) (stop s) (bucket s \<noteq> None \<and> session_deadline s \<noteq> None)
         (active s = [] \<and> programmes s = [])
         (cursor s = logical_probe_count (plan s) \<and> deferred s = []) (StopRequested \<in> set tr)
     \<and> send_ok (max_retransmissions (config s)) (logical_probe_count (plan s)) (lifecycle s = Closed)
         (active s) (physical s) (next_wire_id s) tr
     \<and> rate_ok (config s) (lifecycle s = Created) (bucket s) (session_deadline s) (frames tr)"

abbreviation inv :: "ScanScheduler \<Rightarrow> TraceEvent list \<Rightarrow> bool" where
  "inv s tr \<equiv> inv_with {#} s tr"

end
