(* ===== verification/Scheduler_Moves.thy ===== *)
theory Scheduler_Moves
  imports Scheduler_Inv
begin

text \<open>
  The elementary changes of the scheduler state, each shown to preserve the invariant and
  to meet the reservation checks the code makes on the way.
\<close>

section \<open>Fields the invariant does not read\<close>

lemma inv_frame [simp]:
  "inv_with H (s\<lparr>last_now := x1\<rparr>) tr = inv_with H s tr"
  "inv_with H (s\<lparr>adaptive_icmp_seen := x2\<rparr>) tr = inv_with H s tr"
  "inv_with H (s\<lparr>adaptive_not_before := x3\<rparr>) tr = inv_with H s tr"
  "inv_with H (s\<lparr>rtt := x4\<rparr>) tr = inv_with H s tr"
  "inv_with H (s\<lparr>diagnostics := x5\<rparr>) tr = inv_with H s tr"
  "inv_with H (s\<lparr>context_waiting := x6\<rparr>) tr = inv_with H s tr"
  "inv_with H (s\<lparr>sink_backpressured := x7\<rparr>) tr = inv_with H s tr"
  "inv_with H (s\<lparr>invalidating_generation := x8\<rparr>) tr = inv_with H s tr"
  by (simp_all add: inv_with_def)

lemma inv_bucket:
  "inv_with H s tr \<Longrightarrow> rate_ok (config s) (lifecycle s = Created) (Some b) (session_deadline s) (frames tr) \<Longrightarrow>
     inv_with H (s\<lparr>bucket := Some b\<rparr>) tr"
  by (auto simp: inv_with_def life_ok_def)

lemma sent_snoc [simp]:
  "sent (tr @ [Committed r]) i = sent tr i" "sent (tr @ [ReservedRow]) i = sent tr i"
  "sent (tr @ [ReleasedRows n]) i = sent tr i" "sent (tr @ [StopRequested]) i = sent tr i"
  by (simp_all add: fun_eq_iff)

lemma inv_parts:
  assumes "inv_with H s tr"
  shows inv_fixed: "fixed_ok (plan s) (config s) (permutation s)"
    and inv_tables: "tables_ok (active s) (grace s) (programmes s) (physical s) (programme_grace s)"
    and inv_occ: "occ_ok (active s) (programmes s) (physical s) (per_target s) (per_prefix s)"
    and inv_link: "link_ok (programmes s) (physical s) (programme_grace s)"
    and inv_wire: "wire_ok (logical_probe_count (plan s)) (physical s) (programme_grace s) (next_wire_id s)"
    and inv_probe: "probe_ok (plan s) (active s) (programmes s) (deferred s)"
    and inv_prog: "prog_ok (plan s) (programmes s) (programme_ready s)"
    and inv_ids: "ids_ok H (logical_probe_count (plan s)) (permutation s) (cursor s) (lifecycle s = Closed)
         (deferred s) (active s) (programmes s) (grace s) tr"
    and inv_trace: "trace_ok (plan s) (length (active s)) (length (programmes s)) tr"
    and inv_caps: "caps_ok (config s) (active s) (programmes s) (physical s) (length (grace s))
         (length (programme_grace s)) (length (deferred s))"
    and inv_life: "life_ok (lifecycle s) (stop s) (bucket s \<noteq> None \<and> session_deadline s \<noteq> None)
         (active s = [] \<and> programmes s = [])
         (cursor s = logical_probe_count (plan s) \<and> deferred s = []) (StopRequested \<in> set tr)"
    and inv_send: "send_ok (max_retransmissions (config s)) (logical_probe_count (plan s))
         (lifecycle s = Closed) (active s) (physical s) (next_wire_id s) tr"
    and inv_rate: "rate_ok (config s) (lifecycle s = Created) (bucket s) (session_deadline s) (frames tr)"
  using assms unfolding inv_with_def by blast+

lemma life_mono:
  "life_ok lc st armed idle drained stopped \<Longrightarrow> (idle \<Longrightarrow> idle') \<Longrightarrow> (drained \<Longrightarrow> drained') \<Longrightarrow>
     (stopped \<longleftrightarrow> stopped') \<Longrightarrow> life_ok lc st armed idle' drained' stopped'"
  unfolding life_ok_def by blast

section \<open>Consequences of the accounting\<close>

lemma genuine_id: "fixed_ok pl c perm \<Longrightarrow> logical_probe_at pl i = Ok p \<Longrightarrow> logical_id p = i"
  using decoded_bij(2) [of pl i]
  by (cases "i < logical_probe_count pl") (auto simp: fixed_ok_def logical_probe_at_def)

lemma count_mset_set_le: "count (mset_set A) i \<le> 1"
  by (cases "finite A"; cases "i \<in> A") auto

lemma ids_count:
  assumes "ids_ok H n perm cur cl df act P gr tr"
  shows "count (mset (map logical_id df)) i + count (key_mset act) i + count (key_mset P) i
     + count (mset (committed tr)) i + count H i \<le> (if i < n then 1 else 0)"
proof -
  have "count (held df act P tr + H) i \<le> count (mset_set {..<n}) i"
    by (intro mset_subset_eq_count) (use assms in \<open>simp add: ids_ok_def\<close>)
  also have "\<dots> = (if i < n then 1 else 0)" by (simp add: count_mset_set')
  finally show ?thesis by (simp only: held_def plus_multiset.rep_eq)
qed

lemma one_of_four:
  assumes "a + b + c + d \<le> (if q then 1 else (0::nat))"
  shows "0 < a \<Longrightarrow> q \<and> b = 0 \<and> c = 0" and "0 < b \<Longrightarrow> q \<and> a = 0 \<and> c = 0"
    and "0 < d \<Longrightarrow> q \<and> a = 0 \<and> b = 0 \<and> c = 0"
  using assms by (cases q; simp; linarith)+

lemma ids_fresh:
  assumes ids: "ids_ok H n perm cur cl df act P gr tr"
  shows active_fresh: "bt_get act i = Some a \<Longrightarrow>
      i \<notin> set (committed tr) \<and> bt_get P i = None \<and> i < n \<and> bt_get gr i = None"
    and programme_fresh: "bt_get P i = Some lg \<Longrightarrow>
      i \<notin> set (committed tr) \<and> bt_get act i = None \<and> i < n"
    and hand_fresh: "i \<in># H \<Longrightarrow>
      i \<notin> set (committed tr) \<and> bt_get act i = None \<and> bt_get P i = None \<and> i < n"
proof -
  have grace: "bt_get gr i = None" if "i \<notin> set (committed tr)"
    using ids that by (auto simp: ids_ok_def)
  have a: "0 < count (key_mset act) i \<longleftrightarrow> bt_get act i \<noteq> None"
    and p: "0 < count (key_mset P) i \<longleftrightarrow> bt_get P i \<noteq> None"
    and c: "0 < count (mset (committed tr)) i \<longleftrightarrow> i \<in> set (committed tr)"
    by (simp_all add: key_mset_iff del: not_None_eq)
  note one = one_of_four [OF order_trans [OF _ ids_count [OF ids, of i]],
      of "count (key_mset act) i" "count (key_mset P) i" "count (mset (committed tr)) i" "count H i"]
  show "i \<notin> set (committed tr) \<and> bt_get P i = None \<and> i < n \<and> bt_get gr i = None"
    if "bt_get act i = Some a" for a
    using one(1) a p c that grace by (auto simp: count_eq_zero_iff)
  show "i \<notin> set (committed tr) \<and> bt_get act i = None \<and> i < n" if "bt_get P i = Some lg" for lg
    using one(2) a p c that by (auto simp: count_eq_zero_iff)
  show "i \<notin> set (committed tr) \<and> bt_get act i = None \<and> bt_get P i = None \<and> i < n" if "i \<in># H"
    using one(3) a p c that by (auto simp: count_eq_zero_iff)
qed

lemma inv_orderly: "inv_with H s tr \<Longrightarrow> orderly {} tr"
  by (simp add: inv_with_def trace_ok_def)

section \<open>Occupancy\<close>

lemma occ_counts:
  assumes "occ_ok act P ph pt pp"
  shows "count_of pt t = count (tgt_occ act P ph) t" and "count_of pp k = count (pfx_occ act P ph) k"
  using assms by (simp_all add: occ_ok_def counts.holds_def)

lemma occ_release:
  assumes "occ_ok act P ph pt pp"
    and "tgt_occ act P ph = add_mset t (tgt_occ act' P' ph')"
    and "pfx_occ act P ph = add_mset k (pfx_occ act' P' ph')"
  obtains pt' pp' where "decrement pt t = Some pt'" and "decrement pp k = Some pp'"
    and "occ_ok act' P' ph' pt' pp'" and "0 < count_of pt t" and "0 < count_of pp k"
proof -
  from assms obtain pt' pp' where "decrement pt t = Some pt'" "counts.holds pt' (tgt_occ act' P' ph')"
    and "decrement pp k = Some pp'" "counts.holds pp' (pfx_occ act' P' ph')"
    unfolding occ_ok_def by (metis counts.holds_decr)
  then show thesis
    using assms occ_counts [OF assms(1)] by (intro that) (simp_all add: occ_ok_def)
qed

lemma occ_acquire:
  assumes "occ_ok act P ph pt pp"
    and "tgt_occ act' P' ph' = add_mset t (tgt_occ act P ph)"
    and "pfx_occ act' P' ph' = add_mset k (pfx_occ act P ph)"
  shows "occ_ok act' P' ph' (increment pt t) (increment pp k)"
  using assms by (simp add: occ_ok_def counts.holds_incr)

lemma active_occ_remove:
  assumes "bt_wf act" and "bt_get act i = Some a"
  shows "tgt_occ act P ph = add_mset (target (ap_probe a)) (tgt_occ (bt_remove i act) P ph)"
    and "pfx_occ act P ph = add_mset (prefix_key (ap_context a)) (pfx_occ (bt_remove i act) P ph)"
  using act_remove [OF assms] by (simp_all add: tgt_occ_def pfx_occ_def)

lemma active_occ_insert:
  assumes "bt_wf act" and "bt_get act i = None"
  shows "tgt_occ (bt_insert i a act) P ph = add_mset (target (ap_probe a)) (tgt_occ act P ph)"
    and "pfx_occ (bt_insert i a act) P ph = add_mset (prefix_key (ap_context a)) (pfx_occ act P ph)"
  using act_insert [OF assms] by (simp_all add: tgt_occ_def pfx_occ_def)

lemma physical_occ_remove:
  assumes "bt_wf ph" and "bt_get ph i = Some p"
  shows "tgt_occ act P ph = add_mset (prog_target P (ph_logical_id p)) (tgt_occ act P (bt_remove i ph))"
    and "pfx_occ act P ph = add_mset (prog_prefix P (ph_logical_id p)) (pfx_occ act P (bt_remove i ph))"
  using owners_remove [OF assms] by (simp_all add: tgt_occ_def pfx_occ_def)

lemma physical_occ_insert:
  assumes "bt_wf ph" and "bt_get ph i = None"
  shows "tgt_occ act P (bt_insert i p ph) = add_mset (prog_target P (ph_logical_id p)) (tgt_occ act P ph)"
    and "pfx_occ act P (bt_insert i p ph) = add_mset (prog_prefix P (ph_logical_id p)) (pfx_occ act P ph)"
  using owners_insert [OF assms] by (simp_all add: tgt_occ_def pfx_occ_def)

section \<open>A single probe ends\<close>

lemma caps_mono:
  assumes "caps_ok c act P ph ng npg nd"
    and "tgt_occ act' P' ph' \<subseteq># tgt_occ act P ph" and "pfx_occ act' P' ph' \<subseteq># pfx_occ act P ph"
    and "length act' + length ph' \<le> length act + length ph"
    and "length act' + length P' \<le> length act + length P"
    and "length act' + length ph' + ng' + npg' \<le> length act + length ph + ng + npg"
    and "nd' \<le> MAX_TRANSITIONS_PER_DRIVE"
  shows "caps_ok c act' P' ph' ng' npg' nd'"
  using assms mset_subset_eq_count [OF assms(2)] mset_subset_eq_count [OF assms(3)]
  unfolding caps_ok_def by (meson order_trans)

lemma caps_deferred: "caps_ok c act P ph ng npg nd \<Longrightarrow> nd \<le> MAX_TRANSITIONS_PER_DRIVE"
  by (simp add: caps_ok_def)

lemma caps_remove_active:
  assumes "bt_wf act" and "bt_get act i = Some a" and "caps_ok c act P ph ng npg nd" and "ng' \<le> Suc ng"
  shows "caps_ok c (bt_remove i act) P ph ng' npg nd"
  using assms(3)
proof (rule caps_mono)
  show "tgt_occ (bt_remove i act) P ph \<subseteq># tgt_occ act P ph" "pfx_occ (bt_remove i act) P ph \<subseteq># pfx_occ act P ph"
    using active_occ_remove [OF assms(1,2)] by simp_all
qed (use bt_length_remove [OF assms(1,2)] assms(4) caps_deferred [OF assms(3)] in simp_all)

lemma ids_commit_active:
  assumes "ids_ok H n perm cur cl df act P gr tr" and "bt_wf act" and "bt_get act i = Some a"
    and "logical_id (result_probe res) = i"
  shows "ids_ok H n perm cur cl df (bt_remove i act) P (bt_insert i e gr) (tr @ [Committed res])"
proof -
  have "held df (bt_remove i act) P (tr @ [Committed res]) = held df act P tr"
    using table_mset_remove [OF assms(2,3)] assms(4) by (simp add: held_def)
  then show ?thesis using assms(1,4) by (auto simp: ids_ok_def)
qed

lemma send_commit:
  assumes "send_ok lim n cl act ph nx tr" and "logical_id (result_probe res) = i"
  shows "send_ok lim n cl (bt_remove i act) ph nx (tr @ [Committed res])"
  using assms by (auto simp: send_ok_def)

lemma bt_length_insert_le: "length (bt_insert k v m) \<le> Suc (length m)"
  by (induction k v m rule: bt_insert.induct) auto

lemma inv_terminalize:
  assumes I: "inv_with H s tr" and a: "bt_get (active s) i = Some a" and res: "result_probe res = ap_probe a"
  obtains pt pp where "bt_get (grace s) i = None"
    and "0 < count_of (per_target s) (target (ap_probe a))"
    and "0 < count_of (per_prefix s) (prefix_key (ap_context a))"
    and "decrement (per_target s) (target (ap_probe a)) = Some pt"
    and "decrement (per_prefix s) (prefix_key (ap_context a)) = Some pp"
    and "inv_with H (s\<lparr>active := bt_remove i (active s), per_target := pt, per_prefix := pp,
           grace := bt_insert i e (grace s)\<rparr>) (tr @ [Committed res])"
proof -
  note G = inv_parts [OF I]
  have wf: "bt_wf (active s)" using inv_tables [OF I] by (simp add: tables_ok_def)
  have genuine: "logical_probe_at (plan s) i = Ok (ap_probe a)"
    using inv_probe [OF I] a by (simp add: probe_ok_def)
  have id: "logical_id (result_probe res) = i"
    using genuine_id [OF inv_fixed [OF I] genuine] res by simp
  note fresh = active_fresh [OF inv_ids [OF I] a]
  obtain pt pp where dec: "decrement (per_target s) (target (ap_probe a)) = Some pt"
    "decrement (per_prefix s) (prefix_key (ap_context a)) = Some pp"
    and occ: "occ_ok (bt_remove i (active s)) (programmes s) (physical s) pt pp"
    and pos: "0 < count_of (per_target s) (target (ap_probe a))"
      "0 < count_of (per_prefix s) (prefix_key (ap_context a))"
    using occ_release [OF inv_occ [OF I] active_occ_remove [OF wf a]] by blast
  have len: "length (active s) = Suc (length (bt_remove i (active s)))"
    by (rule bt_length_remove [OF wf a])
  have "trace_ok (plan s) (length (bt_remove i (active s))) (length (programmes s)) (tr @ [Committed res])"
    using inv_trace [OF I] fresh genuine id res len by (auto simp: trace_ok_def)
  moreover have "life_ok (lifecycle s) (stop s) (bucket s \<noteq> None \<and> session_deadline s \<noteq> None)
      (bt_remove i (active s) = [] \<and> programmes s = [])
      (cursor s = logical_probe_count (plan s) \<and> deferred s = []) (StopRequested \<in> set (tr @ [Committed res]))"
    by (rule life_mono [OF inv_life [OF I]]) (use a in auto)
  moreover have "tables_ok (bt_remove i (active s)) (bt_insert i e (grace s)) (programmes s) (physical s)
      (programme_grace s)" and "probe_ok (plan s) (bt_remove i (active s)) (programmes s) (deferred s)"
    using inv_tables [OF I] inv_probe [OF I] by (simp_all add: tables_ok_def probe_ok_def)
  ultimately have "inv_with H (s\<lparr>active := bt_remove i (active s), per_target := pt, per_prefix := pp,
      grace := bt_insert i e (grace s)\<rparr>) (tr @ [Committed res])"
    using G occ ids_commit_active [OF inv_ids [OF I] wf a id]
      caps_remove_active [OF wf a inv_caps [OF I] bt_length_insert_le]
      send_commit [OF inv_send [OF I] id]
    by (simp add: inv_with_def)
  then show thesis using dec pos fresh by (intro that) auto
qed

section \<open>A programme ends\<close>

lemma bt_remove_sub: "bt_get (bt_remove k m) i = Some v \<Longrightarrow> bt_get m i = Some v"
  by (simp split: if_splits)

lemma link_remove_programme:
  assumes "link_ok P ph pg" and "bt_get P lid = Some lg" and "lg_active lg = 0" and "lg_grace lg = 0"
  shows "link_ok (bt_remove lid P) ph pg" and "lid \<notin># owners ph"
proof -
  have "count (owners ph) lid = 0" "count (grace_owners pg) lid = 0"
    using assms by (auto simp: link_ok_def)
  then show "lid \<notin># owners ph" "link_ok (bt_remove lid P) ph pg"
    using assms(1) by (auto simp: link_ok_def count_eq_zero_iff)
qed

lemma occ_remove_programme:
  assumes "lid \<notin># owners ph"
  shows "tgt_occ act (bt_remove lid P) ph = tgt_occ act P ph"
    and "pfx_occ act (bt_remove lid P) ph = pfx_occ act P ph"
  using assms by (simp_all add: tgt_occ_def pfx_occ_def prog_image_cong)

lemma ids_commit_programme:
  assumes "ids_ok H n perm cur cl df act P gr tr" and "bt_wf P" and "bt_get P i = Some lg"
    and "logical_id (result_probe res) = i"
  shows "ids_ok H n perm cur cl df act (bt_remove i P) gr (tr @ [Committed res])"
proof -
  have "held df act (bt_remove i P) (tr @ [Committed res]) = held df act P tr"
    using table_mset_remove [OF assms(2,3)] assms(4) by (simp add: held_def)
  then show ?thesis using assms(1,4) by (auto simp: ids_ok_def)
qed

lemma inv_settle:
  assumes I: "inv_with H s tr" and lg: "bt_get (programmes s) lid = Some lg"
    and none: "lg_active lg = 0" "lg_grace lg = 0" and res: "result_probe res = lg_probe lg"
  shows "inv_with H (s\<lparr>programmes := bt_remove lid (programmes s)\<rparr>) (tr @ [Committed res])"
proof -
  have wf: "bt_wf (programmes s)" using inv_tables [OF I] by (simp add: tables_ok_def)
  have genuine: "logical_probe_at (plan s) lid = Ok (lg_probe lg)"
    using inv_probe [OF I] lg by (simp add: probe_ok_def)
  have id: "logical_id (result_probe res) = lid"
    using genuine_id [OF inv_fixed [OF I] genuine] res by simp
  note fresh = programme_fresh [OF inv_ids [OF I] lg]
  note link = link_remove_programme [OF inv_link [OF I] lg none]
  note occ = occ_remove_programme [OF link(2)]
  have len: "length (programmes s) = Suc (length (bt_remove lid (programmes s)))"
    by (rule bt_length_remove [OF wf lg])
  have "occ_ok (active s) (bt_remove lid (programmes s)) (physical s) (per_target s) (per_prefix s)"
    using inv_occ [OF I] by (simp add: occ_ok_def occ)
  moreover have "caps_ok (config s) (active s) (bt_remove lid (programmes s)) (physical s) (length (grace s))
      (length (programme_grace s)) (length (deferred s))"
    by (rule caps_mono [OF inv_caps [OF I]])
      (use occ len caps_deferred [OF inv_caps [OF I]] in simp_all)
  moreover have "trace_ok (plan s) (length (active s)) (length (bt_remove lid (programmes s))) (tr @ [Committed res])"
    using inv_trace [OF I] fresh genuine id res len by (auto simp: trace_ok_def)
  moreover have "life_ok (lifecycle s) (stop s) (bucket s \<noteq> None \<and> session_deadline s \<noteq> None)
      (active s = [] \<and> bt_remove lid (programmes s) = [])
      (cursor s = logical_probe_count (plan s) \<and> deferred s = []) (StopRequested \<in> set (tr @ [Committed res]))"
    by (rule life_mono [OF inv_life [OF I]]) (use lg in auto)
  moreover have "send_ok (max_retransmissions (config s)) (logical_probe_count (plan s)) (lifecycle s = Closed)
      (active s) (physical s) (next_wire_id s) (tr @ [Committed res])"
    using send_commit [OF inv_send [OF I] id] bt_remove_absent [of "active s" lid] fresh by simp
  moreover have "tables_ok (active s) (grace s) (bt_remove lid (programmes s)) (physical s) (programme_grace s)"
    and "probe_ok (plan s) (active s) (bt_remove lid (programmes s)) (deferred s)"
    and "prog_ok (plan s) (bt_remove lid (programmes s)) (programme_ready s)"
    using inv_tables [OF I] inv_probe [OF I] inv_prog [OF I]
    by (simp_all add: tables_ok_def probe_ok_def prog_ok_def)
  ultimately show ?thesis
    using inv_parts [OF I] link ids_commit_programme [OF inv_ids [OF I] wf lg id]
    by (simp add: inv_with_def)
qed

section \<open>Updates in place\<close>

lemma occ_adjust:
  assumes "\<And>v. lg_probe (f v) = lg_probe v" and "\<And>v. lg_context (f v) = lg_context v"
  shows "tgt_occ act (bt_adjust lid f P) ph = tgt_occ act P ph"
    and "pfx_occ act (bt_adjust lid f P) ph = pfx_occ act P ph"
  using assms by (simp_all add: tgt_occ_def pfx_occ_def)

lemma bt_adjust_Nil_iff [simp]: "bt_adjust k f m = [] \<longleftrightarrow> m = []"
  by (simp add: bt_adjust_def)

lemma inv_programme_adjust:
  assumes I: "inv_with H s tr"
    and pres: "\<And>v. lg_probe (f v) = lg_probe v" "\<And>v. lg_context (f v) = lg_context v"
    and link: "link_ok (bt_adjust lid f (programmes s)) (physical s) (programme_grace s)"
    and prog: "prog_ok (plan s) (bt_adjust lid f (programmes s)) rdy"
  shows "inv_with H (s\<lparr>programmes := bt_adjust lid f (programmes s), programme_ready := rdy\<rparr>) tr"
proof -
  have "probe_ok (plan s) (active s) (bt_adjust lid f (programmes s)) (deferred s)"
    using inv_probe [OF I] pres by (auto simp: probe_ok_def split: if_splits)
  moreover have "ids_ok H (logical_probe_count (plan s)) (permutation s) (cursor s) (lifecycle s = Closed)
      (deferred s) (active s) (bt_adjust lid f (programmes s)) (grace s) tr"
    using inv_ids [OF I] by (simp add: ids_ok_def held_def)
  moreover have "caps_ok (config s) (active s) (bt_adjust lid f (programmes s)) (physical s)
      (length (grace s)) (length (programme_grace s)) (length (deferred s))"
    using inv_caps [OF I] by (simp add: caps_ok_def occ_adjust pres)
  moreover have "occ_ok (active s) (bt_adjust lid f (programmes s)) (physical s) (per_target s) (per_prefix s)"
    using inv_occ [OF I] by (simp add: occ_ok_def occ_adjust pres)
  moreover have "tables_ok (active s) (grace s) (bt_adjust lid f (programmes s)) (physical s) (programme_grace s)"
    using inv_tables [OF I] by (simp add: tables_ok_def)
  ultimately show ?thesis using inv_parts [OF I] link prog by (simp add: inv_with_def)
qed

lemma link_adjust:
  assumes "link_ok P ph pg" and "\<And>v. lg_active (f v) = lg_active v" and "\<And>v. lg_grace (f v) = lg_grace v"
  shows "link_ok (bt_adjust lid f P) ph pg"
  using assms by (auto simp: link_ok_def)

lemma prog_adjust_ok:
  assumes "prog_ok pl P rdy" and "bt_get P lid = Some lg"
    and "programme_shape pl (f lg)" and "waiting_turn rdy' lid (f lg)"
    and "\<And>x. x \<noteq> lid \<Longrightarrow> x \<in> set rdy \<Longrightarrow> x \<in> set rdy'"
  shows "prog_ok pl (bt_adjust lid f P) rdy'"
  unfolding prog_ok_def
proof (intro allI impI)
  fix x l
  assume l: "bt_get (bt_adjust lid f P) x = Some l"
  show "programme_shape pl l \<and> waiting_turn rdy' x l"
  proof (cases "x = lid")
    case True
    then show ?thesis using l assms(2-4) by simp
  next
    case False
    then have "programme_shape pl l \<and> waiting_turn rdy x l" using l assms(1) by (simp add: prog_ok_def)
    with assms(5) [OF False] show ?thesis by (auto simp: waiting_turn_def)
  qed
qed

text \<open>A change of a programme's own notes that keeps its counters.\<close>

lemma inv_programme_note:
  assumes I: "inv_with H s tr" and lg: "bt_get (programmes s) lid = Some lg"
    and pres: "\<And>v. lg_probe (f v) = lg_probe v" "\<And>v. lg_context (f v) = lg_context v"
      "\<And>v. lg_active (f v) = lg_active v" "\<And>v. lg_grace (f v) = lg_grace v"
    and shape: "programme_shape (plan s) (f lg)" and turn: "waiting_turn rdy lid (f lg)"
    and ready: "\<And>x. x \<noteq> lid \<Longrightarrow> x \<in> set (programme_ready s) \<Longrightarrow> x \<in> set rdy"
  shows "inv_with H (s\<lparr>programmes := bt_adjust lid f (programmes s), programme_ready := rdy\<rparr>) tr"
  using pres ready
  by (intro inv_programme_adjust [OF I] link_adjust [OF inv_link [OF I]]
      prog_adjust_ok [where f = f, OF inv_prog [OF I] lg shape turn])

lemma inv_ready:
  assumes I: "inv_with H s tr"
    and "\<And>x lg. x \<in> set (programme_ready s) \<Longrightarrow> x \<notin> set rdy \<Longrightarrow> bt_get (programmes s) x = Some lg
      \<Longrightarrow> waiting_turn rdy x lg"
  shows "inv_with H (s\<lparr>programme_ready := rdy\<rparr>) tr"
proof -
  have "prog_ok (plan s) (programmes s) rdy"
    using inv_prog [OF I] assms(2) unfolding prog_ok_def waiting_turn_def by metis
  then show ?thesis using inv_parts [OF I] by (simp add: inv_with_def)
qed

lemma inv_active_adjust:
  assumes I: "inv_with H s tr" and a: "bt_get (active s) i = Some a"
    and pres: "\<And>v. ap_probe (f v) = ap_probe v" "\<And>v. ap_context (f v) = ap_context v"
    and trace: "trace_ok (plan s) (length (active s)) (length (programmes s)) tr'"
      "committed tr' = committed tr" "StopRequested \<in> set tr' \<longleftrightarrow> StopRequested \<in> set tr"
    and send: "send_ok (max_retransmissions (config s)) (logical_probe_count (plan s)) (lifecycle s = Closed)
        (bt_adjust i f (active s)) (physical s) (next_wire_id s) tr'"
    and rate: "rate_ok (config s) (lifecycle s = Created) (bucket s) (session_deadline s) (frames tr')"
  shows "inv_with H (s\<lparr>active := bt_adjust i f (active s)\<rparr>) tr'"
proof -
  have "probe_ok (plan s) (bt_adjust i f (active s)) (programmes s) (deferred s)"
    using inv_probe [OF I] pres by (auto simp: probe_ok_def split: if_splits)
  moreover have "ids_ok H (logical_probe_count (plan s)) (permutation s) (cursor s) (lifecycle s = Closed)
      (deferred s) (bt_adjust i f (active s)) (programmes s) (grace s) tr'"
    using inv_ids [OF I] trace by (simp add: ids_ok_def held_def)
  moreover have "caps_ok (config s) (bt_adjust i f (active s)) (programmes s) (physical s)
      (length (grace s)) (length (programme_grace s)) (length (deferred s))"
    using inv_caps [OF I] by (simp add: caps_ok_def tgt_occ_def pfx_occ_def pres)
  moreover have "occ_ok (bt_adjust i f (active s)) (programmes s) (physical s) (per_target s) (per_prefix s)"
    using inv_occ [OF I] by (simp add: occ_ok_def tgt_occ_def pfx_occ_def pres)
  moreover have "tables_ok (bt_adjust i f (active s)) (grace s) (programmes s) (physical s) (programme_grace s)"
    using inv_tables [OF I] by (simp add: tables_ok_def)
  ultimately show ?thesis using inv_parts [OF I] trace send rate by (simp add: inv_with_def)
qed

lemma inv_physical_adjust:
  assumes I: "inv_with H s tr" and p: "bt_get (physical s) i = Some p"
    and pres: "\<And>v. ph_logical_id (f v) = ph_logical_id v"
    and trace: "trace_ok (plan s) (length (active s)) (length (programmes s)) tr'"
      "committed tr' = committed tr" "StopRequested \<in> set tr' \<longleftrightarrow> StopRequested \<in> set tr"
    and send: "send_ok (max_retransmissions (config s)) (logical_probe_count (plan s)) (lifecycle s = Closed)
        (active s) (bt_adjust i f (physical s)) (next_wire_id s) tr'"
    and rate: "rate_ok (config s) (lifecycle s = Created) (bucket s) (session_deadline s) (frames tr')"
  shows "inv_with H (s\<lparr>physical := bt_adjust i f (physical s)\<rparr>) tr'"
proof -
  have own: "owners (bt_adjust i f (physical s)) = owners (physical s)" using pres by simp
  have "ids_ok H (logical_probe_count (plan s)) (permutation s) (cursor s) (lifecycle s = Closed)
      (deferred s) (active s) (programmes s) (grace s) tr'"
    using inv_ids [OF I] trace by (simp add: ids_ok_def held_def)
  moreover have "caps_ok (config s) (active s) (programmes s) (bt_adjust i f (physical s))
      (length (grace s)) (length (programme_grace s)) (length (deferred s))"
    using inv_caps [OF I] by (simp add: caps_ok_def tgt_occ_def pfx_occ_def own)
  moreover have "occ_ok (active s) (programmes s) (bt_adjust i f (physical s)) (per_target s) (per_prefix s)"
    using inv_occ [OF I] by (simp add: occ_ok_def tgt_occ_def pfx_occ_def own)
  moreover have "tables_ok (active s) (grace s) (programmes s) (bt_adjust i f (physical s)) (programme_grace s)"
    using inv_tables [OF I] by (simp add: tables_ok_def)
  moreover have "link_ok (programmes s) (bt_adjust i f (physical s)) (programme_grace s)"
    using inv_link [OF I] by (simp add: link_ok_def own)
  moreover have "wire_ok (logical_probe_count (plan s)) (bt_adjust i f (physical s)) (programme_grace s) (next_wire_id s)"
    using inv_wire [OF I] by (auto simp: wire_ok_def)
  ultimately show ?thesis using inv_parts [OF I] trace send rate by (simp add: inv_with_def)
qed

end
