(* ===== verification/Scheduler_Moves_Admit.thy ===== *)
theory Scheduler_Moves_Admit
  imports Scheduler_Moves
begin

text \<open>
  Frames leave, a programme's correlations end, and candidates are drawn, admitted or put
  back: each of these changes preserves the invariant.
\<close>

section \<open>Frames\<close>

lemma send_adjust_active:
  assumes "send_ok lim n cl act ph nx tr" and "bt_get act i = Some a"
    and "stage_budget lim (sent tr i) (ap_stage (f a)) (stage_transmissions (f a))"
  shows "send_ok lim n cl (bt_adjust i f act) ph nx tr"
  using assms by (auto simp: send_ok_def)

lemma send_adjust_physical:
  assumes "send_ok lim n cl act ph nx tr" and "bt_get ph i = Some p"
    and "stage_budget lim (sent tr i) (ph_stage (f p)) (ph_transmissions (f p))"
  shows "send_ok lim n cl act (bt_adjust i f ph) nx tr"
  using assms by (auto simp: send_ok_def)

lemma sent_emitted:
  "sent (tr @ [Emitted em]) i =
     (if em_probe_id em = i then (sent tr i)(em_purpose em := sent tr i (em_purpose em) + 1) else sent tr i)"
  by (auto simp: fun_eq_iff)

lemma budget_sent:
  assumes "stage_budget lim f (StagePending pu) k"
  shows "stage_budget lim (f(pu := f pu + 1)) (StageWaiting pu d) (k + 1)"
  using assms by (auto simp: stage_budget_def)

lemma send_emit_active:
  assumes send: "send_ok lim n cl act ph nx tr" and a: "bt_get act i = Some a"
    and stage: "ap_stage a = StagePending pu" and em: "em_probe_id em = i" "em_purpose em = pu"
    and f: "ap_stage (f a) = StageWaiting pu d" "stage_transmissions (f a) = stage_transmissions a + 1"
    and apart: "i < n" "n \<le> nx" "bt_get ph i = None"
  shows "send_ok lim n cl (bt_adjust i f act) ph nx (tr @ [Emitted em])"
proof -
  have budget: "stage_budget lim (sent tr i) (StagePending pu) (stage_transmissions a)"
    using send a unfolding send_ok_def stage [symmetric] by blast
  then have le: "sent tr i pu \<le> lim" and pu: "pu \<noteq> TcpResetCleanup" by (auto simp: stage_budget_def)
  show ?thesis
    using send a f em apart le pu budget_sent [OF budget, of d]
    by (auto simp: send_ok_def sent_emitted simp del: sent_append)
qed

lemma send_emit_physical:
  assumes send: "send_ok lim n cl act ph nx tr" and p: "bt_get ph i = Some p"
    and stage: "ph_stage p = StagePending pu" and em: "em_probe_id em = i" "em_purpose em = pu"
    and f: "ph_stage (f p) = StageWaiting pu d" "ph_transmissions (f p) = ph_transmissions p + 1"
    and apart: "n \<le> i" "i < nx" "bt_get act i = None"
  shows "send_ok lim n cl act (bt_adjust i f ph) nx (tr @ [Emitted em])"
proof -
  have budget: "stage_budget lim (sent tr i) (StagePending pu) (ph_transmissions p)"
    using send p unfolding send_ok_def stage [symmetric] by blast
  then have le: "sent tr i pu \<le> lim" and pu: "pu \<noteq> TcpResetCleanup" by (auto simp: stage_budget_def)
  show ?thesis
    using send p f em apart le pu budget_sent [OF budget, of d]
    by (auto simp: send_ok_def sent_emitted simp del: sent_append)
qed

lemma trace_emit:
  "trace_ok pl na np tr \<Longrightarrow> logical_id (em_probe em) \<notin> set (committed tr) \<Longrightarrow>
     trace_ok pl na np (tr @ [Emitted em])"
  by (auto simp: trace_ok_def)

section \<open>The end of a programme's correlations\<close>

lemma shape_keep:
  assumes "programme_shape pl lg" and "lg_probe lg' = lg_probe lg" and "lg_context lg' = lg_context lg"
    and "variant_count lg' = variant_count lg" and "lg_active lg' \<le> lg_active lg"
    and "next_variant lg' \<le> variant_count lg" and "neighbor_ready lg \<Longrightarrow> neighbor_ready lg'"
  shows "programme_shape pl lg'"
proof -
  obtain prog q where "udp_programme_for pl (lg_probe lg) = Some prog" "port (lg_probe lg) = Some q"
    "variant_count lg = variant_count_for prog (target_address (target (lg_probe lg))) q"
    "lg_active lg \<le> maximum_concurrent (strategy prog)"
    using assms(1) by (auto simp: programme_shape_def)
  moreover have "neighbor_ready lg \<or> neighbor_setup (lg_context lg) \<noteq> None"
    using assms(1) by (simp add: programme_shape_def)
  ultimately show ?thesis using assms(2-) unfolding programme_shape_def by auto
qed

lemma prog_get:
  assumes "prog_ok pl P rdy" and "bt_get P lid = Some lg"
  shows "programme_shape pl lg" and "waiting_turn rdy lid lg" and "next_variant lg \<le> variant_count lg"
  using assms by (simp_all add: prog_ok_def programme_shape_def)

definition others :: "nat \<Rightarrow> physicals \<Rightarrow> physicals" where
  "others lid ph = filter (\<lambda>e. ph_logical_id (snd e) \<noteq> lid) ph"

lemma owners_others: "owners (others lid ph) = filter_mset (\<lambda>x. x \<noteq> lid) (owners ph)"
  by (induction ph) (auto simp: owners_def others_def)

lemma grace_owners_retain:
  "grace_owners (bt_retain (\<lambda>_ g. pg_logical_id g \<noteq> lid) pg) = filter_mset (\<lambda>x. x \<noteq> lid) (grace_owners pg)"
  by (induction pg) (auto simp: grace_owners_def bt_retain_def)

lemma bt_get_others:
  "bt_wf ph \<Longrightarrow> bt_get (others lid ph) i =
     (case bt_get ph i of None \<Rightarrow> None | Some p \<Rightarrow> if ph_logical_id p \<noteq> lid then Some p else None)"
  using bt_get_retain [of ph "\<lambda>_ p. ph_logical_id p \<noteq> lid" i] by (simp add: others_def bt_retain_def)

lemma inv_finish:
  assumes I: "inv_with H s tr" and lg: "bt_get (programmes s) lid = Some lg"
    and occ: "occ_ok (active s) (programmes s) (others lid (physical s)) pt pp"
    and f: "\<And>v. lg_probe (f v) = lg_probe v" "\<And>v. lg_context (f v) = lg_context v"
      "lg_active (f lg) = 0" "lg_grace (f lg) = 0" "stop_unsent (f lg)"
      "next_variant (f lg) = next_variant lg" "variant_count (f lg) = variant_count lg"
      "neighbor_ready (f lg) = neighbor_ready lg"
  shows "inv_with H (s\<lparr>physical := others lid (physical s), per_target := pt, per_prefix := pp,
      programme_grace := bt_retain (\<lambda>_ g. pg_logical_id g \<noteq> lid) (programme_grace s),
      programme_ready := filter (\<lambda>i. i \<noteq> lid) (programme_ready s),
      programmes := bt_adjust lid f (programmes s)\<rparr>) tr"
proof -
  let ?ph = "others lid (physical s)" and ?P = "bt_adjust lid f (programmes s)"
  let ?pg = "bt_retain (\<lambda>_ g. pg_logical_id g \<noteq> lid) (programme_grace s)"
  let ?rdy = "filter (\<lambda>i. i \<noteq> lid) (programme_ready s)"
  have wf: "bt_wf (physical s)" "bt_wf (programme_grace s)"
    using inv_tables [OF I] by (simp_all add: tables_ok_def)
  have shape: "programme_shape (plan s) (f lg)"
    using prog_get [OF inv_prog [OF I] lg] f by (intro shape_keep [of "plan s" lg "f lg"]) simp_all
  have "owners ?ph \<subseteq># owners (physical s)" by (simp add: owners_others)
  then have sub: "tgt_occ (active s) ?P ?ph \<subseteq># tgt_occ (active s) (programmes s) (physical s)"
    "pfx_occ (active s) ?P ?ph \<subseteq># pfx_occ (active s) (programmes s) (physical s)"
    using f by (simp_all add: tgt_occ_def pfx_occ_def image_mset_subseteq_mono)
  have len: "length ?ph \<le> length (physical s)" "length ?pg \<le> length (programme_grace s)"
    by (simp_all add: others_def bt_retain_def)
  have "caps_ok (config s) (active s) ?P ?ph (length (grace s)) (length ?pg) (length (deferred s))"
    by (rule caps_mono [OF inv_caps [OF I] sub])
      (use len caps_deferred [OF inv_caps [OF I]] in simp_all)
  moreover have "occ_ok (active s) ?P ?ph pt pp"
    using occ f by (simp add: occ_ok_def occ_adjust)
  moreover have "link_ok ?P ?ph ?pg"
    using inv_link [OF I] lg f
    by (auto simp: link_ok_def owners_others grace_owners_retain)
  moreover have "prog_ok (plan s) ?P ?rdy"
    using inv_prog [OF I] lg shape by (rule prog_adjust_ok) (use f in \<open>auto simp: waiting_turn_def\<close>)
  moreover have "wire_ok (logical_probe_count (plan s)) ?ph ?pg (next_wire_id s)"
    using inv_wire [OF I] wf
    by (auto simp: wire_ok_def bt_get_others bt_get_retain split: option.splits if_splits)
  moreover have "tables_ok (active s) (grace s) ?P ?ph ?pg"
    using inv_tables [OF I] by (simp add: tables_ok_def others_def)
  moreover have "probe_ok (plan s) (active s) ?P (deferred s)"
    using inv_probe [OF I] f by (auto simp: probe_ok_def split: if_splits)
  moreover have "ids_ok H (logical_probe_count (plan s)) (permutation s) (cursor s) (lifecycle s = Closed)
      (deferred s) (active s) ?P (grace s) tr"
    using inv_ids [OF I] by (simp add: ids_ok_def held_def)
  moreover have "send_ok (max_retransmissions (config s)) (logical_probe_count (plan s))
      (lifecycle s = Closed) (active s) ?ph (next_wire_id s) tr"
    using inv_send [OF I] wf by (auto simp: send_ok_def bt_get_others split: option.splits if_splits)
  ultimately show ?thesis
    using inv_parts [OF I] by (simp add: inv_with_def)
qed

lemma bt_remove_adjust [simp]: "bt_remove k (bt_adjust k f m) = bt_remove k m"
  by (induction m) (auto simp: bt_remove_def bt_adjust_def)

lemma inv_abort:
  assumes I: "inv_with H s tr" and lg: "bt_get (programmes s) lid = Some lg"
    and occ: "occ_ok (active s) (programmes s) (others lid (physical s)) pt pp"
    and res: "result_probe res = lg_probe lg"
  shows "inv_with H (s\<lparr>programmes := bt_remove lid (programmes s), physical := others lid (physical s),
      per_target := pt, per_prefix := pp,
      programme_grace := bt_retain (\<lambda>_ g. pg_logical_id g \<noteq> lid) (programme_grace s),
      programme_ready := filter (\<lambda>i. i \<noteq> lid) (programme_ready s)\<rparr>) (tr @ [Committed res])"
proof -
  let ?f = "\<lambda>v. v\<lparr>lg_active := 0, lg_grace := 0, stop_unsent := True\<rparr>"
  have "inv_with H (s\<lparr>physical := others lid (physical s), per_target := pt, per_prefix := pp,
      programme_grace := bt_retain (\<lambda>_ g. pg_logical_id g \<noteq> lid) (programme_grace s),
      programme_ready := filter (\<lambda>i. i \<noteq> lid) (programme_ready s),
      programmes := bt_adjust lid ?f (programmes s)\<rparr>) tr"
    by (rule inv_finish [OF I lg occ]) simp_all
  from inv_settle [OF this, of lid "?f lg" res] lg res show ?thesis
    by (simp add: inv_with_def)
qed

lemma turn_mono: "waiting_turn rdy x lg \<Longrightarrow> set rdy \<subseteq> set rdy' \<Longrightarrow> waiting_turn rdy' x lg"
  by (auto simp: waiting_turn_def)

section \<open>Admission\<close>

definition live :: "ScanScheduler \<Rightarrow> bool" where
  "live s \<longleftrightarrow> lifecycle s \<in> {Running, Pausing, Paused}"

definition genuine :: "ScanScheduler \<Rightarrow> LogicalProbe \<Rightarrow> bool" where
  "genuine s p \<longleftrightarrow> logical_probe_at (plan s) (logical_id p) = Ok p"

definition has_room :: "ScanScheduler \<Rightarrow> bool" where
  "has_room s \<longleftrightarrow> length (active s) + length (physical s) < max_outstanding (config s)
     \<and> length (active s) + length (physical s) + length (grace s) + length (programme_grace s)
         < max_grace_entries (config s)"

lemma life_live:
  assumes "life_ok lc st armed idle drained stopped" and "lc \<in> {Running, Pausing, Paused}"
  shows "life_ok lc st armed idle' drained' stopped" and "\<not> stopped"
  using assms by (cases lc; simp add: life_ok_def)+

lemma life_undrained:
  assumes "life_ok lc st armed idle drained stopped" and "\<not> drained"
  shows "lc \<notin> {Cancelling, Completed, Failed}" and "life_ok lc st armed idle drained' stopped"
    and "lc \<noteq> Closed \<Longrightarrow> \<not> stopped"
  using assms by (cases lc; simp add: life_ok_def)+

lemma caps_add_active:
  assumes "caps_ok c act P ph ng npg nd" and "bt_wf act" and "bt_get act i = None"
    and "length act + length ph < max_outstanding c" and "length act + length P < max_outstanding c"
    and "length act + length ph + ng + npg < max_grace_entries c"
    and "count (tgt_occ act P ph) (target (ap_probe a)) < max_per_target c"
    and "count (pfx_occ act P ph) (prefix_key (ap_context a)) < max_per_prefix c"
  shows "caps_ok c (bt_insert i a act) P ph ng npg nd"
  using assms(1,4-) bt_length_insert [OF assms(2,3)] active_occ_insert [OF assms(2,3)]
  unfolding caps_ok_def by (auto simp: Suc_le_eq)

lemma ids_admit_active:
  assumes "ids_ok {#i#} n perm cur cl df act P gr tr" and "bt_wf act" and "bt_get act i = None"
  shows "ids_ok {#} n perm cur cl df (bt_insert i a act) P gr (tr @ [ReservedRow])"
  using assms table_mset_insert [OF assms(2,3), of a] by (auto simp: ids_ok_def held_def)

lemma inv_admit_single:
  assumes I: "inv_with {#logical_id p#} s tr" and live: "live s" and p: "genuine s p" and room: "has_room s"
    and rows: "length (active s) + length (programmes s) < max_outstanding (config s)"
    and tgt: "count_of (per_target s) (target p) < max_per_target (config s)"
    and pfx: "count_of (per_prefix s) (prefix_key ctx) < max_per_prefix (config s)"
  shows "bt_get (active s) (logical_id p) = None"
    and "inv_with {#} (s\<lparr>active := bt_insert (logical_id p) (new_active p ctx) (active s),
      per_target := increment (per_target s) (target p),
      per_prefix := increment (per_prefix s) (prefix_key ctx)\<rparr>) (tr @ [ReservedRow])"
proof -
  let ?i = "logical_id p" and ?a = "new_active p ctx"
  let ?act = "bt_insert ?i ?a (active s)"
  have wf: "bt_wf (active s)" using inv_tables [OF I] by (simp add: tables_ok_def)
  note fresh = hand_fresh [OF inv_ids [OF I], of ?i, simplified]
  show none: "bt_get (active s) ?i = None" using fresh by simp
  have a: "ap_probe ?a = p" "ap_context ?a = ctx" by (simp_all add: new_active_def)
  have zero: "sent tr ?i pu = 0" for pu
    using inv_send [OF I] fresh live none by (auto simp: send_ok_def live_def)
  have budget: "stage_budget (max_retransmissions (config s)) (sent tr ?i) (ap_stage ?a) (stage_transmissions ?a)"
    by (simp add: stage_budget_def new_active_def zero split: option.splits)
  have "caps_ok (config s) ?act (programmes s) (physical s) (length (grace s)) (length (programme_grace s))
      (length (deferred s))"
    using caps_add_active [OF inv_caps [OF I] wf none, of ?a] room rows tgt pfx
      occ_counts [OF inv_occ [OF I]] by (simp add: has_room_def a)
  moreover have "occ_ok ?act (programmes s) (physical s) (increment (per_target s) (target p))
      (increment (per_prefix s) (prefix_key ctx))"
    using occ_acquire [OF inv_occ [OF I] active_occ_insert [OF wf none, of ?a]] a by simp
  moreover have "send_ok (max_retransmissions (config s)) (logical_probe_count (plan s))
      (lifecycle s = Closed) ?act (physical s) (next_wire_id s) (tr @ [ReservedRow])"
    using inv_send [OF I] budget by (auto simp: send_ok_def)
  moreover have "tables_ok ?act (grace s) (programmes s) (physical s) (programme_grace s)"
    using inv_tables [OF I] by (simp add: tables_ok_def)
  moreover have "probe_ok (plan s) ?act (programmes s) (deferred s)"
    using inv_probe [OF I] p a by (auto simp: probe_ok_def genuine_def)
  moreover have "trace_ok (plan s) (length ?act) (length (programmes s)) (tr @ [ReservedRow])"
    using inv_trace [OF I] bt_length_insert [OF wf none, of ?a] by (auto simp: trace_ok_def)
  moreover have "life_ok (lifecycle s) (stop s) (bucket s \<noteq> None \<and> session_deadline s \<noteq> None)
      (?act = [] \<and> programmes s = [])
      (cursor s = logical_probe_count (plan s) \<and> deferred s = []) (StopRequested \<in> set (tr @ [ReservedRow]))"
    using life_live(1) [OF inv_life [OF I]] live by (simp add: live_def)
  ultimately show "inv_with {#} (s\<lparr>active := ?act, per_target := increment (per_target s) (target p),
      per_prefix := increment (per_prefix s) (prefix_key ctx)\<rparr>) (tr @ [ReservedRow])"
    using inv_parts [OF I] ids_admit_active [OF inv_ids [OF I] wf none] by (simp add: inv_with_def)
qed

lemma ids_admit_programme:
  assumes "ids_ok {#i#} n perm cur cl df act P gr tr" and "bt_wf P" and "bt_get P i = None"
  shows "ids_ok {#} n perm cur cl df act (bt_insert i lg P) gr (tr @ [ReservedRow])"
  using assms table_mset_insert [OF assms(2,3), of lg] by (auto simp: ids_ok_def held_def)

lemma link_admit:
  assumes "link_ok P ph pg" and "bt_get P lid = None" and "lg_active lg = 0" and "lg_grace lg = 0"
  shows "link_ok (bt_insert lid lg P) ph pg" and "lid \<notin># owners ph"
  using assms by (auto simp: link_ok_def count_eq_zero_iff)

lemma inv_admit_programme:
  assumes I: "inv_with {#logical_id p#} s tr" and live: "live s" and p: "genuine s p"
    and rows: "length (active s) + length (programmes s) < max_outstanding (config s)"
    and prog: "udp_programme_for (plan s) p = Some prog" "port p = Some q"
    and vc: "vc = variant_count_for prog (target_address (target p)) q"
    and rdy: "set (programme_ready s) \<subseteq> set rdy" "vc \<noteq> 0 \<Longrightarrow> logical_id p \<in> set rdy"
  shows "bt_get (programmes s) (logical_id p) = None"
    and "inv_with {#} (s\<lparr>programmes := bt_insert (logical_id p) (new_logical p ctx vc bytes) (programmes s),
      programme_ready := rdy\<rparr>) (tr @ [ReservedRow])"
proof -
  let ?i = "logical_id p" and ?lg = "new_logical p ctx vc bytes"
  let ?P = "bt_insert ?i ?lg (programmes s)"
  have wf: "bt_wf (programmes s)" using inv_tables [OF I] by (simp add: tables_ok_def)
  note fresh = hand_fresh [OF inv_ids [OF I], of ?i, simplified]
  show none: "bt_get (programmes s) ?i = None" using fresh by simp
  note link = link_admit [OF inv_link [OF I] none, of ?lg, unfolded new_logical_def, simplified,
      folded new_logical_def]
  have occ: "tgt_occ (active s) ?P (physical s) = tgt_occ (active s) (programmes s) (physical s)"
    "pfx_occ (active s) ?P (physical s) = pfx_occ (active s) (programmes s) (physical s)"
    using link(2) by (simp_all add: tgt_occ_def pfx_occ_def prog_image_cong)
  have len: "length ?P = Suc (length (programmes s))" by (rule bt_length_insert [OF wf none])
  have "programme_shape (plan s) ?lg"
    using prog vc by (auto simp: programme_shape_def new_logical_def)
  moreover have "waiting_turn rdy ?i ?lg" using rdy by (auto simp: waiting_turn_def new_logical_def)
  ultimately have "prog_ok (plan s) ?P rdy"
    using prog_get(1,2) [OF inv_prog [OF I]] turn_mono [OF _ rdy(1)] unfolding prog_ok_def by simp
  moreover have "caps_ok (config s) (active s) ?P (physical s) (length (grace s)) (length (programme_grace s))
      (length (deferred s))"
    using inv_caps [OF I] rows by (simp add: caps_ok_def occ len)
  moreover have "occ_ok (active s) ?P (physical s) (per_target s) (per_prefix s)"
    using inv_occ [OF I] by (simp add: occ_ok_def occ)
  moreover have "tables_ok (active s) (grace s) ?P (physical s) (programme_grace s)"
    and "probe_ok (plan s) (active s) ?P (deferred s)"
    using inv_tables [OF I] inv_probe [OF I] p
    by (simp_all add: tables_ok_def probe_ok_def genuine_def new_logical_def)
  moreover have "trace_ok (plan s) (length (active s)) (length ?P) (tr @ [ReservedRow])"
    using inv_trace [OF I] by (auto simp: trace_ok_def len)
  moreover have "send_ok (max_retransmissions (config s)) (logical_probe_count (plan s))
      (lifecycle s = Closed) (active s) (physical s) (next_wire_id s) (tr @ [ReservedRow])"
    using inv_send [OF I] by (auto simp: send_ok_def)
  moreover have "life_ok (lifecycle s) (stop s) (bucket s \<noteq> None \<and> session_deadline s \<noteq> None)
      (active s = [] \<and> ?P = [])
      (cursor s = logical_probe_count (plan s) \<and> deferred s = []) (StopRequested \<in> set (tr @ [ReservedRow]))"
    using life_live(1) [OF inv_life [OF I]] live by (simp add: live_def)
  ultimately show "inv_with {#} (s\<lparr>programmes := ?P, programme_ready := rdy\<rparr>) (tr @ [ReservedRow])"
    using inv_parts [OF I] link(1) ids_admit_programme [OF inv_ids [OF I] wf none] by (simp add: inv_with_def)
qed

text \<open>A candidate is taken from the deferred queue or from the permutation, and put back.\<close>

lemma inv_pop_deferred:
  assumes I: "inv_with {#} s tr" and df: "deferred s = p # ps"
  shows "inv_with {#logical_id p#} (s\<lparr>deferred := ps\<rparr>) tr" and "genuine s p"
    and "lifecycle s \<notin> {Cancelling, Completed, Failed}"
proof -
  show "genuine s p" using inv_probe [OF I] df by (simp add: probe_ok_def genuine_def)
  note life = life_undrained [OF inv_life [OF I]]
  show lc: "lifecycle s \<notin> {Cancelling, Completed, Failed}" using life(1) df by simp
  have "ids_ok {#logical_id p#} (logical_probe_count (plan s)) (permutation s) (cursor s)
      (lifecycle s = Closed) ps (active s) (programmes s) (grace s) tr"
    using inv_ids [OF I] df by (simp add: ids_ok_def held_def)
  moreover have "probe_ok (plan s) (active s) (programmes s) ps"
    using inv_probe [OF I] df by (simp add: probe_ok_def)
  moreover have "caps_ok (config s) (active s) (programmes s) (physical s) (length (grace s))
      (length (programme_grace s)) (length ps)"
    using inv_caps [OF I] df by (simp add: caps_ok_def)
  moreover have "life_ok (lifecycle s) (stop s) (bucket s \<noteq> None \<and> session_deadline s \<noteq> None)
      (active s = [] \<and> programmes s = [])
      (cursor s = logical_probe_count (plan s) \<and> ps = []) (StopRequested \<in> set tr)"
    using life(2) df by simp
  ultimately show "inv_with {#logical_id p#} (s\<lparr>deferred := ps\<rparr>) tr"
    using inv_parts [OF I] by (simp add: inv_with_def)
qed

lemma inv_draw:
  assumes I: "inv_with {#} s tr" and cur: "cursor s < logical_probe_count (plan s)" and opened: "lifecycle s \<noteq> Closed"
  obtains lid p where "permute (permutation s) (cursor s) = Some lid"
    and "logical_probe_at (plan s) lid = Ok p" and "genuine s p"
    and "inv_with {#logical_id p#} (s\<lparr>cursor := cursor s + 1\<rparr>) tr"
    and "lifecycle s \<notin> {Cancelling, Completed, Failed}"
proof -
  have fixed: "perm_ok (permutation s)" "perm_length (permutation s) = logical_probe_count (plan s)"
    "plan_ok (plan s)"
    using inv_fixed [OF I] by (simp_all add: fixed_ok_def)
  obtain lid where lid: "permute (permutation s) (cursor s) = Some lid" "lid < logical_probe_count (plan s)"
    using permute_eq [OF fixed(1), of "cursor s"] permute_less(2) [OF fixed(1), of "cursor s"] cur fixed(2)
    by simp
  obtain p where p: "logical_probe_at (plan s) lid = Ok p" "logical_id p = lid"
    using decoded_bij(2) [OF fixed(3) lid(2)] by blast
  note life = life_undrained [OF inv_life [OF I]]
  have lc: "lifecycle s \<notin> {Cancelling, Completed, Failed}" and nostop: "StopRequested \<notin> set tr"
    using life(1,3) cur opened by auto
  have eq: "held (deferred s) (active s) (programmes s) tr = mset_set (perm_image (permutation s) (cursor s))"
    using inv_ids [OF I] nostop opened by (simp add: ids_ok_def)
  have below: "perm_image (permutation s) c \<subseteq> {..<logical_probe_count (plan s)}" for c
    using permute_less(2) [OF fixed(1)] fixed(2) by (auto simp: perm_image_def)
  then have finite: "finite (perm_image (permutation s) c)" for c
    by (rule finite_subset) simp
  note img = perm_image_Suc [OF lid(1)] perm_image_fresh [OF fixed(1) lid(1)]
    finite [of "cursor s"] below [of "Suc (cursor s)"]
  have held: "held (deferred s) (active s) (programmes s) tr + {#lid#}
      = mset_set (perm_image (permutation s) (Suc (cursor s)))"
    using eq img by simp
  have grace: "\<forall>i. bt_get (grace s) i \<noteq> None \<longrightarrow> i \<in> set (committed tr)"
    using inv_ids [OF I] by (simp add: ids_ok_def)
  have "held (deferred s) (active s) (programmes s) tr + {#lid#} \<subseteq># mset_set {..<logical_probe_count (plan s)}"
    unfolding held by (rule subset_imp_msubset_mset_set [OF img(4)]) simp
  with held grace cur have "ids_ok {#lid#} (logical_probe_count (plan s)) (permutation s) (cursor s + 1)
      (lifecycle s = Closed) (deferred s) (active s) (programmes s) (grace s) tr"
    unfolding ids_ok_def Suc_eq_plus1 [symmetric] by (intro conjI impI) simp_all
  moreover have "life_ok (lifecycle s) (stop s) (bucket s \<noteq> None \<and> session_deadline s \<noteq> None)
      (active s = [] \<and> programmes s = [])
      (cursor s + 1 = logical_probe_count (plan s) \<and> deferred s = []) (StopRequested \<in> set tr)"
    using life(2) cur by simp
  ultimately have "inv_with {#logical_id p#} (s\<lparr>cursor := cursor s + 1\<rparr>) tr"
    using inv_parts [OF I] p(2) by (simp add: inv_with_def)
  then show thesis using that lid p lc by (simp add: genuine_def)
qed

lemma inv_put_back:
  assumes I: "inv_with {#logical_id p#} s tr" and p: "genuine s p" and live: "live s"
    and df: "mset df = add_mset p (mset (deferred s))" and len: "length (deferred s) < MAX_TRANSITIONS_PER_DRIVE"
  shows "inv_with {#} (s\<lparr>deferred := df\<rparr>) tr"
proof -
  have set: "set df = insert p (set (deferred s))" using mset_eq_setD [of df "p # deferred s"] df by simp
  have size: "length df = Suc (length (deferred s))" using arg_cong [OF df, of size] by simp
  have "image_mset logical_id (mset df) = add_mset (logical_id p) (image_mset logical_id (mset (deferred s)))"
    using df by simp
  then have "ids_ok {#} (logical_probe_count (plan s)) (permutation s) (cursor s)
      (lifecycle s = Closed) df (active s) (programmes s) (grace s) tr"
    using inv_ids [OF I] by (simp add: ids_ok_def held_def)
  moreover have "probe_ok (plan s) (active s) (programmes s) df"
    using inv_probe [OF I] p set by (simp add: probe_ok_def genuine_def)
  moreover have "caps_ok (config s) (active s) (programmes s) (physical s) (length (grace s))
      (length (programme_grace s)) (length df)"
    using inv_caps [OF I] size len by (simp add: caps_ok_def)
  moreover have "life_ok (lifecycle s) (stop s) (bucket s \<noteq> None \<and> session_deadline s \<noteq> None)
      (active s = [] \<and> programmes s = [])
      (cursor s = logical_probe_count (plan s) \<and> df = []) (StopRequested \<in> set tr)"
    using life_live(1) [OF inv_life [OF I]] live by (simp add: live_def)
  ultimately show ?thesis using inv_parts [OF I] by (simp add: inv_with_def)
qed

end
