(* ===== verification/Scheduler_Moves_Wire.thy ===== *)
theory Scheduler_Moves_Wire
  imports Scheduler_Moves_Admit
begin

text \<open>
  A variant gets a wire identifier, a physical probe retires into its grace window, the
  window expires, and the lifecycle moves: each of these changes preserves the invariant.
\<close>

section \<open>Scheduling a variant\<close>

lemma caps_add_physical:
  assumes "caps_ok c act P ph ng npg nd" and "bt_wf ph" and "bt_get ph i = None"
    and "length act + length ph < max_outstanding c"
    and "length act + length ph + ng + npg < max_grace_entries c"
    and "count (tgt_occ act P ph) (prog_target P (ph_logical_id p)) < max_per_target c"
    and "count (pfx_occ act P ph) (prog_prefix P (ph_logical_id p)) < max_per_prefix c"
  shows "caps_ok c act P (bt_insert i p ph) ng npg nd"
  using assms(1,4-) bt_length_insert [OF assms(2,3)] physical_occ_insert [OF assms(2,3)]
  unfolding caps_ok_def by (auto simp: Suc_le_eq)

lemma link_schedule:
  assumes "link_ok P ph pg" and "bt_wf ph" and "bt_get ph i = None" and "bt_get P lid = Some lg"
    and "ph_logical_id p = lid" and f: "lg_active (f lg) = lg_active lg + 1" "lg_grace (f lg) = lg_grace lg"
  shows "link_ok (bt_adjust lid f P) (bt_insert i p ph) pg"
  using assms owners_insert [OF assms(2,3), of p] by (auto simp: link_ok_def)

lemma inv_schedule:
  assumes I: "inv_with H s tr" and lg: "bt_get (programmes s) lid = Some lg" and room: "has_room s"
    and tgt: "count_of (per_target s) (target (lg_probe lg)) < max_per_target (config s)"
    and pfx: "count_of (per_prefix s) (prefix_key (lg_context lg)) < max_per_prefix (config s)"
    and prog: "udp_programme_for (plan s) (lg_probe lg) = Some prog"
      "lg_active lg < maximum_concurrent (strategy prog)"
    and index: "index < variant_count lg"
    and p: "ph_logical_id p = lid" "ph_stage p = StagePending pu" "pu \<noteq> TcpResetCleanup" "ph_transmissions p = 0"
    and rdy: "\<And>x. x \<noteq> lid \<Longrightarrow> x \<in> set (programme_ready s) \<Longrightarrow> x \<in> set rdy"
  defines "f \<equiv> \<lambda>v. v\<lparr>next_variant := index + 1, lg_active := lg_active v + 1\<rparr>"
  shows "bt_get (physical s) (next_wire_id s) = None"
    and "inv_with H (s\<lparr>next_wire_id := next_wire_id s + 1,
      physical := bt_insert (next_wire_id s) p (physical s),
      programmes := bt_adjust lid f (programmes s),
      per_target := increment (per_target s) (target (lg_probe lg)),
      per_prefix := increment (per_prefix s) (prefix_key (lg_context lg)), programme_ready := rdy\<rparr>) tr"
proof -
  let ?w = "next_wire_id s" and ?P = "bt_adjust lid f (programmes s)"
  let ?ph = "bt_insert ?w p (physical s)"
  have wf: "bt_wf (physical s)" using inv_tables [OF I] by (simp add: tables_ok_def)
  show none: "bt_get (physical s) ?w = None" using inv_wire [OF I] by (auto simp: wire_ok_def)
  have gnone: "bt_get (programme_grace s) ?w = None" using inv_wire [OF I] by (auto simp: wire_ok_def)
  have tp: "prog_target (programmes s) lid = target (lg_probe lg)"
    "prog_prefix (programmes s) lid = prefix_key (lg_context lg)"
    using lg by (simp_all add: prog_target_def prog_prefix_def)
  have f: "\<And>v. lg_probe (f v) = lg_probe v" "\<And>v. lg_context (f v) = lg_context v"
    by (simp_all add: f_def)
  note occs = occ_counts [OF inv_occ [OF I]]
  have zero: "sent tr ?w pu = 0" for pu using inv_send [OF I] by (simp add: send_ok_def)
  have shape: "programme_shape (plan s) (f lg)"
    using prog_get(1) [OF inv_prog [OF I] lg] prog index by (auto simp: programme_shape_def f_def)
  have "prog_ok (plan s) ?P rdy"
    by (rule prog_adjust_ok [where f = f, OF inv_prog [OF I] lg shape])
      (auto simp: waiting_turn_def f_def rdy)
  moreover have "link_ok ?P ?ph (programme_grace s)"
    by (rule link_schedule [OF inv_link [OF I] wf none lg p(1)]) (simp_all add: f_def)
  moreover have "caps_ok (config s) (active s) ?P ?ph (length (grace s)) (length (programme_grace s))
      (length (deferred s))"
    using caps_add_physical [OF inv_caps [OF I] wf none, of p] room tgt pfx occs p(1) tp
    by (simp add: has_room_def caps_ok_def occ_adjust f)
  moreover have "occ_ok (active s) ?P ?ph (increment (per_target s) (target (lg_probe lg)))
      (increment (per_prefix s) (prefix_key (lg_context lg)))"
    using occ_acquire [OF inv_occ [OF I] physical_occ_insert [OF wf none, of _ _ p]] p(1) tp
    by (simp add: occ_ok_def occ_adjust f)
  moreover have "tables_ok (active s) (grace s) ?P ?ph (programme_grace s)"
    using inv_tables [OF I] by (simp add: tables_ok_def)
  moreover have "probe_ok (plan s) (active s) ?P (deferred s)"
    using inv_probe [OF I] f by (auto simp: probe_ok_def split: if_splits)
  moreover have "ids_ok H (logical_probe_count (plan s)) (permutation s) (cursor s) (lifecycle s = Closed)
      (deferred s) (active s) ?P (grace s) tr"
    using inv_ids [OF I] by (simp add: ids_ok_def held_def)
  moreover have "wire_ok (logical_probe_count (plan s)) ?ph (programme_grace s) (?w + 1)"
    using inv_wire [OF I] gnone by (auto simp: wire_ok_def)
  moreover have "send_ok (max_retransmissions (config s)) (logical_probe_count (plan s))
      (lifecycle s = Closed) (active s) ?ph (?w + 1) tr"
    using inv_send [OF I] p zero by (auto simp: send_ok_def stage_budget_def)
  ultimately show "inv_with H (s\<lparr>next_wire_id := ?w + 1, physical := ?ph, programmes := ?P,
      per_target := increment (per_target s) (target (lg_probe lg)),
      per_prefix := increment (per_prefix s) (prefix_key (lg_context lg)), programme_ready := rdy\<rparr>) tr"
    using inv_parts [OF I] by (simp add: inv_with_def)
qed

section \<open>Retirement and expiry\<close>

lemma link_get:
  assumes "link_ok P ph pg" and "bt_get ph i = Some p"
  obtains lg where "bt_get P (ph_logical_id p) = Some lg" and "0 < lg_active lg"
proof -
  have "ph_logical_id p \<in># owners ph" using bt_get_Some_mem [OF assms(2)] by (auto simp: owners_mem)
  moreover from this obtain lg where "bt_get P (ph_logical_id p) = Some lg"
    using assms(1) by (auto simp: link_ok_def)
  ultimately show thesis using assms(1) by (intro that) (auto simp: link_ok_def)
qed

lemma link_get_grace:
  assumes "link_ok P ph pg" and "bt_get pg i = Some g"
  obtains lg where "bt_get P (pg_logical_id g) = Some lg" and "0 < lg_grace lg"
proof -
  have "pg_logical_id g \<in># grace_owners pg"
    using bt_get_Some_mem [OF assms(2)] by (force simp: grace_owners_def)
  moreover from this obtain lg where "bt_get P (pg_logical_id g) = Some lg"
    using assms(1) by (auto simp: link_ok_def)
  ultimately show thesis using assms(1) by (intro that) (auto simp: link_ok_def)
qed

lemma link_retire:
  assumes "link_ok P ph pg" and "bt_wf ph" and "bt_get ph i = Some p" and "bt_wf pg" and "bt_get pg i = None"
    and "bt_get P lid = Some lg" and "ph_logical_id p = lid" and "pg_logical_id g = lid"
    and f: "lg_active (f lg) = lg_active lg - 1" "lg_grace (f lg) = lg_grace lg + 1"
  shows "link_ok (bt_adjust lid f P) (bt_remove i ph) (bt_insert i g pg)"
  using assms owners_remove [OF assms(2,3)] grace_owners_insert [OF assms(4,5), of g]
  by (auto simp: link_ok_def)

lemma inv_retire:
  assumes I: "inv_with H s tr" and p: "bt_get (physical s) w = Some p" and lid: "lid = ph_logical_id p"
    and lg: "bt_get (programmes s) lid = Some lg" and g: "pg_logical_id g = lid"
    and rdy: "set (programme_ready s) \<subseteq> set rdy"
      "\<not> stop_unsent lg \<Longrightarrow> next_variant lg < variant_count lg \<Longrightarrow> lid \<in> set rdy"
  defines "f \<equiv> \<lambda>v. v\<lparr>lg_active := lg_active lg - 1, lg_grace := lg_grace v + 1\<rparr>"
  obtains pt pp where "decrement (per_target s) (target (lg_probe lg)) = Some pt"
    and "decrement (per_prefix s) (prefix_key (lg_context lg)) = Some pp"
    and "inv_with H (s\<lparr>physical := bt_remove w (physical s), programmes := bt_adjust lid f (programmes s),
      per_target := pt, per_prefix := pp, programme_grace := bt_insert w g (programme_grace s),
      programme_ready := rdy\<rparr>) tr"
proof -
  let ?P = "bt_adjust lid f (programmes s)" and ?ph = "bt_remove w (physical s)"
  let ?pg = "bt_insert w g (programme_grace s)"
  have wf: "bt_wf (physical s)" "bt_wf (programme_grace s)"
    using inv_tables [OF I] by (simp_all add: tables_ok_def)
  have gnone: "bt_get (programme_grace s) w = None" using inv_wire [OF I] p by (auto simp: wire_ok_def)
  have tp: "prog_target (programmes s) (ph_logical_id p) = target (lg_probe lg)"
    "prog_prefix (programmes s) (ph_logical_id p) = prefix_key (lg_context lg)"
    using lg lid by (simp_all add: prog_target_def prog_prefix_def)
  have f: "\<And>v. lg_probe (f v) = lg_probe v" "\<And>v. lg_context (f v) = lg_context v"
    by (simp_all add: f_def)
  obtain pt pp where dec: "decrement (per_target s) (target (lg_probe lg)) = Some pt"
    "decrement (per_prefix s) (prefix_key (lg_context lg)) = Some pp"
    and occ: "occ_ok (active s) (programmes s) ?ph pt pp"
    using occ_release [OF inv_occ [OF I] physical_occ_remove [OF wf(1) p, of "active s" "programmes s",
        unfolded tp]] by blast
  have shape: "programme_shape (plan s) (f lg)"
    using prog_get [OF inv_prog [OF I] lg] by (intro shape_keep [of "plan s" lg "f lg"]) (simp_all add: f_def)
  have "prog_ok (plan s) ?P rdy"
  proof (rule prog_adjust_ok [where f = f, OF inv_prog [OF I] lg shape])
    show "waiting_turn rdy lid (f lg)" using rdy(2) by (simp add: waiting_turn_def f_def)
  qed (use rdy(1) in blast)
  moreover have "link_ok ?P ?ph ?pg"
    by (rule link_retire [OF inv_link [OF I] wf(1) p wf(2) gnone lg lid [symmetric] g]) (simp_all add: f_def)
  moreover have "caps_ok (config s) (active s) ?P ?ph (length (grace s)) (length ?pg) (length (deferred s))"
  proof (rule caps_mono [OF inv_caps [OF I]])
    show "tgt_occ (active s) ?P ?ph \<subseteq># tgt_occ (active s) (programmes s) (physical s)"
      "pfx_occ (active s) ?P ?ph \<subseteq># pfx_occ (active s) (programmes s) (physical s)"
      using physical_occ_remove [OF wf(1) p] by (simp_all add: occ_adjust f)
  qed (use bt_length_remove [OF wf(1) p] bt_length_insert [OF wf(2) gnone]
      caps_deferred [OF inv_caps [OF I]] in simp_all)
  moreover have "occ_ok (active s) ?P ?ph pt pp" using occ by (simp add: occ_ok_def occ_adjust f)
  moreover have "tables_ok (active s) (grace s) ?P ?ph ?pg"
    using inv_tables [OF I] by (simp add: tables_ok_def)
  moreover have "probe_ok (plan s) (active s) ?P (deferred s)"
    using inv_probe [OF I] f by (auto simp: probe_ok_def split: if_splits)
  moreover have "ids_ok H (logical_probe_count (plan s)) (permutation s) (cursor s) (lifecycle s = Closed)
      (deferred s) (active s) ?P (grace s) tr"
    using inv_ids [OF I] by (simp add: ids_ok_def held_def)
  moreover have "wire_ok (logical_probe_count (plan s)) ?ph ?pg (next_wire_id s)"
    using inv_wire [OF I] p by (auto simp: wire_ok_def)
  moreover have "send_ok (max_retransmissions (config s)) (logical_probe_count (plan s))
      (lifecycle s = Closed) (active s) ?ph (next_wire_id s) tr"
    using inv_send [OF I] by (auto simp: send_ok_def)
  ultimately have "inv_with H (s\<lparr>physical := ?ph, programmes := ?P, per_target := pt, per_prefix := pp,
      programme_grace := ?pg, programme_ready := rdy\<rparr>) tr"
    using inv_parts [OF I] by (simp add: inv_with_def)
  then show thesis by (rule that [OF dec])
qed

lemma inv_expire:
  assumes I: "inv_with H s tr" and g: "bt_get (programme_grace s) w = Some g" and lid: "lid = pg_logical_id g"
    and lg: "bt_get (programmes s) lid = Some lg"
  shows "inv_with H (s\<lparr>programme_grace := bt_remove w (programme_grace s),
      programmes := bt_adjust lid (\<lambda>v. v\<lparr>lg_grace := lg_grace lg - 1\<rparr>) (programmes s)\<rparr>) tr"
proof -
  let ?f = "\<lambda>v. v\<lparr>lg_grace := lg_grace lg - 1\<rparr>"
  let ?P = "bt_adjust lid ?f (programmes s)" and ?pg = "bt_remove w (programme_grace s)"
  have wf: "bt_wf (programme_grace s)" using inv_tables [OF I] by (simp add: tables_ok_def)
  have shape: "programme_shape (plan s) (?f lg)"
    by (rule shape_keep [OF prog_get(1) [OF inv_prog [OF I] lg]])
      (use prog_get(3) [OF inv_prog [OF I] lg] in simp_all)
  have "prog_ok (plan s) ?P (programme_ready s)"
    by (rule prog_adjust_ok [where f = ?f, OF inv_prog [OF I] lg shape])
      (use prog_get(2) [OF inv_prog [OF I] lg] in \<open>simp_all add: waiting_turn_def\<close>)
  moreover have "link_ok ?P (physical s) ?pg"
    using inv_link [OF I] lg lid grace_owners_remove [OF wf g] by (auto simp: link_ok_def)
  moreover have "caps_ok (config s) (active s) ?P (physical s) (length (grace s)) (length ?pg) (length (deferred s))"
    by (rule caps_mono [OF inv_caps [OF I]])
      (use bt_length_remove [OF wf g] caps_deferred [OF inv_caps [OF I]] in \<open>simp_all add: occ_adjust\<close>)
  moreover have "occ_ok (active s) ?P (physical s) (per_target s) (per_prefix s)"
    using inv_occ [OF I] by (simp add: occ_ok_def occ_adjust)
  moreover have "tables_ok (active s) (grace s) ?P (physical s) ?pg"
    using inv_tables [OF I] by (simp add: tables_ok_def)
  moreover have "probe_ok (plan s) (active s) ?P (deferred s)"
    using inv_probe [OF I] by (auto simp: probe_ok_def split: if_splits)
  moreover have "ids_ok H (logical_probe_count (plan s)) (permutation s) (cursor s) (lifecycle s = Closed)
      (deferred s) (active s) ?P (grace s) tr"
    using inv_ids [OF I] by (simp add: ids_ok_def held_def)
  moreover have "wire_ok (logical_probe_count (plan s)) (physical s) ?pg (next_wire_id s)"
    using inv_wire [OF I] by (auto simp: wire_ok_def)
  ultimately show ?thesis using inv_parts [OF I] by (simp add: inv_with_def)
qed

section \<open>Lifecycle\<close>

lemma inv_prune_grace:
  assumes I: "inv_with H s tr"
  shows "inv_with H (s\<lparr>grace := bt_retain Q (grace s)\<rparr>) tr"
proof -
  have wf: "bt_wf (grace s)" using inv_tables [OF I] by (simp add: tables_ok_def)
  have "ids_ok H (logical_probe_count (plan s)) (permutation s) (cursor s) (lifecycle s = Closed)
      (deferred s) (active s) (programmes s) (bt_retain Q (grace s)) tr"
    using inv_ids [OF I] by (auto simp: ids_ok_def bt_get_retain [OF wf] split: option.splits if_splits)
  moreover have "caps_ok (config s) (active s) (programmes s) (physical s) (length (bt_retain Q (grace s)))
      (length (programme_grace s)) (length (deferred s))"
    by (rule caps_mono [OF inv_caps [OF I]])
      (use caps_deferred [OF inv_caps [OF I]] in \<open>simp_all add: bt_retain_def\<close>)
  moreover have "tables_ok (active s) (bt_retain Q (grace s)) (programmes s) (physical s) (programme_grace s)"
    using inv_tables [OF I] by (simp add: tables_ok_def)
  ultimately show ?thesis using inv_parts [OF I] by (simp add: inv_with_def)
qed

lemma inv_lifecycle:
  assumes I: "inv_with H s tr" and "lc \<noteq> Closed" and "lifecycle s \<noteq> Closed"
    and "life_ok lc (stop s) (bk \<noteq> None \<and> sd \<noteq> None) (active s = [] \<and> programmes s = [])
         (cursor s = logical_probe_count (plan s) \<and> deferred s = []) (StopRequested \<in> set tr)"
    and "rate_ok (config s) (lc = Created) bk sd (frames tr)"
  shows "inv_with H (s\<lparr>lifecycle := lc, bucket := bk, session_deadline := sd\<rparr>) tr"
  using inv_parts [OF I] assms(2-) by (simp add: inv_with_def)

lemma inv_initiate_stop:
  assumes I: "inv_with {#} s tr" and final: "final = Completed \<or> final = Failed" and opened: "lifecycle s \<noteq> Closed"
  shows "inv_with {#} (s\<lparr>cursor := logical_probe_count (plan s), deferred := [],
      invalidating_generation := g, lifecycle := Cancelling,
      stop := Some \<lparr>stop_outcome = oc, stop_reason = reason, final_lifecycle = final\<rparr>\<rparr>)
      (tr @ [StopRequested])"
proof -
  have "held [] (active s) (programmes s) (tr @ [StopRequested])
      \<subseteq># held (deferred s) (active s) (programmes s) tr" by (simp add: held_def)
  moreover have "held (deferred s) (active s) (programmes s) tr \<subseteq># mset_set {..<logical_probe_count (plan s)}"
    using inv_ids [OF I] by (simp add: ids_ok_def)
  ultimately have "ids_ok {#} (logical_probe_count (plan s)) (permutation s) (logical_probe_count (plan s))
      False [] (active s) (programmes s) (grace s) (tr @ [StopRequested])"
    using inv_ids [OF I] by (simp add: ids_ok_def)
  moreover have "probe_ok (plan s) (active s) (programmes s) []"
    using inv_probe [OF I] by (simp add: probe_ok_def)
  moreover have "caps_ok (config s) (active s) (programmes s) (physical s) (length (grace s))
      (length (programme_grace s)) 0"
    using inv_caps [OF I] by (simp add: caps_ok_def)
  moreover have "trace_ok (plan s) (length (active s)) (length (programmes s)) (tr @ [StopRequested])"
    using inv_trace [OF I] by (auto simp: trace_ok_def)
  moreover have "send_ok (max_retransmissions (config s)) (logical_probe_count (plan s))
      False (active s) (physical s) (next_wire_id s) (tr @ [StopRequested])"
    using inv_send [OF I] opened by (simp add: send_ok_def)
  moreover have "rate_ok (config s) False (bucket s) (session_deadline s) (frames (tr @ [StopRequested]))"
    using inv_rate [OF I] by (simp add: rate_ok_def)
  ultimately show ?thesis using inv_parts [OF I] final by (simp add: inv_with_def life_ok_def)
qed

lemma inv_close:
  assumes I: "inv_with {#} s tr"
  shows "inv_with {#} (s\<lparr>active := [], grace := [], programmes := [], programme_ready := [],
      physical := [], programme_grace := [], deferred := [], per_target := [],
      per_prefix := [], stop := None, invalidating_generation := None, lifecycle := Closed\<rparr>)
      (tr @ [ReleasedRows (length (active s)), ReleasedRows (length (programmes s))])"
proof -
  let ?tr = "(tr @ [ReleasedRows (length (active s))]) @ [ReleasedRows (length (programmes s))]"
  have c: "committed ?tr = committed tr" by (simp del: append_assoc)
  have t: "sent ?tr i = sent tr i" for i by (simp add: fun_eq_iff del: append_assoc)
  have "mset (committed tr) \<subseteq># held (deferred s) (active s) (programmes s) tr" by (simp add: held_def)
  also have "\<dots> \<subseteq># mset_set {..<logical_probe_count (plan s)}"
    using inv_ids [OF I] by (simp add: ids_ok_def)
  finally have "ids_ok {#} (logical_probe_count (plan s)) (permutation s) (cursor s) True [] [] [] [] ?tr"
    using inv_ids [OF I] unfolding ids_ok_def held_def c by simp
  moreover have "rate_ok (config s) False (bucket s) (session_deadline s) (frames ?tr)"
    using inv_rate [OF I] by (simp add: rate_ok_def del: append_assoc)
  moreover have "trace_ok (plan s) 0 0 ?tr"
    using inv_trace [OF I] unfolding trace_ok_def c by (simp del: append_assoc)
  moreover have "send_ok (max_retransmissions (config s)) (logical_probe_count (plan s)) True [] []
      (next_wire_id s) ?tr"
    using inv_send [OF I] unfolding send_ok_def t c by simp
  moreover have "occ_ok [] [] [] [] []" by (simp add: occ_ok_def tgt_occ_def pfx_occ_def counts.holds_zero)
  moreover have "wire_ok (logical_probe_count (plan s)) [] [] (next_wire_id s)"
    using inv_wire [OF I] by (simp add: wire_ok_def)
  moreover have "life_ok Closed None ab True dr (StopRequested \<in> set ?tr)" for ab dr
    by (simp add: life_ok_def)
  ultimately show ?thesis
    using inv_fixed [OF I]
    by (simp add: inv_with_def tables_ok_def link_ok_def probe_ok_def prog_ok_def caps_ok_def
        tgt_occ_def pfx_occ_def)
qed

end
