(* ===== verification/Scheduler_Ends.thy ===== *)
theory Scheduler_Ends
  imports Scheduler_Moves_Wire
begin

text \<open>
  Weakest preconditions of the state accessors and the outside calls, and the operations
  that end probes: under the invariant they never fail with the reservation-invariant
  error, never panic, and preserve the invariant.
\<close>

section \<open>Accessors\<close>

lemma wp_gets [wp_simps]: "wp E (gets f) Q w = Q (f (sched w)) w"
  by (simp add: gets_def wp_simps)

lemma wp_upd [wp_simps]: "wp E (upd f) Q w = Q () (w\<lparr>sched := f (sched w)\<rparr>)"
  by (simp add: upd_def wp_simps)

lemma wp_get [wp_simps]:
  "wp E (get_active i) Q w = (case bt_get (active (sched w)) i of None \<Rightarrow> E (Engine ReservationInvariant) w | Some a \<Rightarrow> Q a w)"
  "wp E (get_physical i) Q' w = (case bt_get (physical (sched w)) i of None \<Rightarrow> E (Engine ReservationInvariant) w | Some p \<Rightarrow> Q' p w)"
  "wp E (get_programme i) Q'' w = (case bt_get (programmes (sched w)) i of None \<Rightarrow> E (Engine ReservationInvariant) w | Some g \<Rightarrow> Q'' g w)"
  by (simp_all add: get_active_def get_physical_def get_programme_def wp_simps split: option.splits)

lemma wp_upd_entry [wp_simps]:
  "wp E (upd_active i f) Q w = (case bt_get (active (sched w)) i of None \<Rightarrow> E (Engine ReservationInvariant) w
     | Some _ \<Rightarrow> Q () (w\<lparr>sched := (sched w)\<lparr>active := bt_adjust i f (active (sched w))\<rparr>\<rparr>))"
  "wp E (upd_physical i g) Q w = (case bt_get (physical (sched w)) i of None \<Rightarrow> E (Engine ReservationInvariant) w
     | Some _ \<Rightarrow> Q () (w\<lparr>sched := (sched w)\<lparr>physical := bt_adjust i g (physical (sched w))\<rparr>\<rparr>))"
  "wp E (upd_programme i h) Q w = (case bt_get (programmes (sched w)) i of None \<Rightarrow> E (Engine ReservationInvariant) w
     | Some _ \<Rightarrow> Q () (w\<lparr>sched := (sched w)\<lparr>programmes := bt_adjust i h (programmes (sched w))\<rparr>\<rparr>))"
  by (simp_all add: upd_active_def upd_physical_def upd_programme_def wp_simps split: option.splits)

lemma wp_release_count [wp_simps]:
  "wp E (release_target t) Q w = (case decrement (per_target (sched w)) t of None \<Rightarrow> E (Engine ReservationInvariant) w
     | Some c \<Rightarrow> Q () (w\<lparr>sched := (sched w)\<lparr>per_target := c\<rparr>\<rparr>))"
  "wp E (release_prefix k) Q w = (case decrement (per_prefix (sched w)) k of None \<Rightarrow> E (Engine ReservationInvariant) w
     | Some c \<Rightarrow> Q () (w\<lparr>sched := (sched w)\<lparr>per_prefix := c\<rparr>\<rparr>))"
  by (simp_all add: release_target_def release_prefix_def wp_simps split: option.splits)

lemma wp_report [wp_simps]:
  "wp E bump_transitions Q w = Q () (w\<lparr>report := (report w)\<lparr>transitions := transitions (report w) + 1\<rparr>\<rparr>)"
  "wp E bump_results Q w = Q () (w\<lparr>report := (report w)\<lparr>results := results (report w) + 1\<rparr>\<rparr>)"
  "wp E bump_emissions Q w = Q () (w\<lparr>report := (report w)\<lparr>emissions := emissions (report w) + 1\<rparr>\<rparr>)"
  "wp E reset_report Q w = Q () (w\<lparr>report := \<lparr>transitions = 0, emissions = 0, results = 0\<rparr>\<rparr>)"
  by (simp_all add: bump_transitions_def bump_results_def bump_emissions_def reset_report_def wp_simps)

lemma wp_misc [wp_simps]:
  "wp E (count_diag f) Q w = Q () (w\<lparr>sched := (sched w)\<lparr>diagnostics := f (diagnostics (sched w))\<rparr>\<rparr>)"
  "wp E (log_event ev) Q w = Q () (w\<lparr>trace := trace w @ [ev]\<rparr>)"
  "wp E (call_retire env i) Q w = Q () (w\<lparr>transport := retire env (transport w) i\<rparr>)"
  by (simp_all add: count_diag_def log_event_def call_retire_def wp_simps)

lemma wp_call_commit [wp_simps]:
  "wp E (call_commit env res) Q w = (case commit_reserved env (sink w) res of
     (Inl c, s') \<Rightarrow> E (Engine (EngineSink c)) (w\<lparr>sink := s'\<rparr>)
   | (Inr _, s') \<Rightarrow> Q () (w\<lparr>sink := s', trace := trace w @ [Committed res]\<rparr>))"
  "wp E (call_commit_bytes env res m n) Q w = (case commit_reserved_with_bytes env (sink w) res m n of
     (Inl c, s') \<Rightarrow> E (Engine (EngineSink c)) (w\<lparr>sink := s'\<rparr>)
   | (Inr _, s') \<Rightarrow> Q () (w\<lparr>sink := s', trace := trace w @ [Committed res]\<rparr>))"
  by (simp_all add: wp_def call_commit_def call_commit_bytes_def split: prod.splits sum.splits)

lemma wp_call_release [wp_simps]:
  "wp E (call_release env n) Q w = (case release_reserved env (sink w) n of
     (Inl c, s') \<Rightarrow> E (Engine (EngineSink c)) (w\<lparr>sink := s'\<rparr>)
   | (Inr _, s') \<Rightarrow> Q () (w\<lparr>sink := s', trace := trace w @ [ReleasedRows n]\<rparr>))"
  "wp E (call_release_bytes env n b) Q w = (case release_reserved_with_bytes env (sink w) n b of
     (Inl c, s') \<Rightarrow> E (Engine (EngineSink c)) (w\<lparr>sink := s'\<rparr>)
   | (Inr _, s') \<Rightarrow> Q () (w\<lparr>sink := s', trace := trace w @ [ReleasedRows n]\<rparr>))"
  by (simp_all add: wp_def call_release_def call_release_bytes_def split: prod.splits sum.splits)

lemma wp_call_emit [wp_simps]:
  "wp E (call_emit env em) Q w = (case emit env (transport w) em of
     (Inl c, t') \<Rightarrow> Q (Inl c) (w\<lparr>transport := t'\<rparr>)
   | (Inr u, t') \<Rightarrow> Q (Inr u) (w\<lparr>transport := t', trace := trace w @ [Emitted em]\<rparr>))"
  by (simp add: wp_def call_emit_def split: prod.splits sum.splits)

lemma wp_call_resolve [wp_simps]:
  "wp E (call_resolve env p) Q w = (case resolve env (resolver w) p of (r, r') \<Rightarrow> Q r (w\<lparr>resolver := r'\<rparr>))"
  by (simp add: wp_def call_resolve_def split: prod.splits)

lemma wp_call_reserve [wp_simps]:
  "wp E (call_reserve env) Q w = (case try_reserve env (sink w) of
     (r, s') \<Rightarrow> Q r (w\<lparr>sink := s', trace := note_reservation r (trace w)\<rparr>))"
  "wp E (call_reserve_bytes env n) Q w = (case try_reserve_with_bytes env (sink w) n of
     (r, s') \<Rightarrow> Q r (w\<lparr>sink := s', trace := note_reservation r (trace w)\<rparr>))"
  by (simp_all add: wp_def call_reserve_def call_reserve_bytes_def split: prod.splits)

lemma note_reservation_simps [simp]:
  "note_reservation (Inr Reserved) tr = tr @ [ReservedRow]" "note_reservation (Inr Saturated) tr = tr"
  "note_reservation (Inl c) tr = tr"
  by (simp_all add: note_reservation_def)

section \<open>What operations promise\<close>

text \<open>
  A failure is never a panic or a broken reservation, and the trace stays orderly. After most
  failures the whole invariant holds, so the session can go on. It need not hold after the
  \<open>breaking\<close> ones: a result sink that fails, a time beyond 64 bits, a counter that is exhausted.
\<close>

definition good :: "('t, 'r, 's) sys \<Rightarrow> bool" where
  "good w \<longleftrightarrow> inv (sched w) (trace w)"

fun breaking :: "Fault \<Rightarrow> bool" where
  "breaking (Engine (EngineSink c)) = True"
| "breaking (Engine DeadlineOverflow) = True"
| "breaking (Engine StateCapacityExceeded) = True"
| "breaking _ = False"

definition clean_fault :: "Fault \<Rightarrow> bool" where
  "clean_fault e \<longleftrightarrow> e \<noteq> Panic \<and> e \<noteq> Engine ReservationInvariant"

definition sane :: "Fault \<Rightarrow> ('t, 'r, 's) sys \<Rightarrow> bool" where
  "sane e w \<longleftrightarrow> clean_fault e \<and> orderly {} (trace w) \<and> (breaking e \<or> good w)"

lemma clean_fault_simps [simp]:
  "\<not> clean_fault Panic" "clean_fault (Engine e) \<longleftrightarrow> e \<noteq> ReservationInvariant"
  by (simp_all add: clean_fault_def)

lemma breaking_clean: "breaking e \<Longrightarrow> clean_fault e"
  by (auto simp: clean_fault_def)

lemma sane_iff [simp]: "sane e w \<longleftrightarrow> clean_fault e \<and> orderly {} (trace w) \<and> (breaking e \<or> good w)"
  by (simp add: sane_def)

lemma good_orderly: "good w \<Longrightarrow> orderly {} (trace w)"
  by (simp add: good_def inv_orderly)

text \<open>The part of the state that the settling operations leave alone.\<close>

definition mode :: "ScanScheduler \<Rightarrow> ScanPlan \<times> SchedulerConfig \<times> SeededPermutation \<times> SessionLifecycle
    \<times> StopState option \<times> GenerationFilter option \<times> nat \<times> LogicalProbe list" where
  "mode s = (plan s, config s, permutation s, lifecycle s, stop s, invalidating_generation s, cursor s, deferred s)"

lemma mode_eqD:
  assumes "mode s' = mode s"
  shows "plan s' = plan s" "config s' = config s" "permutation s' = permutation s" "lifecycle s' = lifecycle s"
    "stop s' = stop s" "invalidating_generation s' = invalidating_generation s" "cursor s' = cursor s"
    "deferred s' = deferred s"
  using assms by (simp_all add: mode_def)

section \<open>Ending a single probe\<close>

lemma wp_terminalize:
  assumes I: "inv_with H (sched w) tr" and a: "bt_get (active (sched w)) i = Some a"
    and E: "\<And>e w'. breaking e \<Longrightarrow> trace w' = trace w \<Longrightarrow> E e w'"
    and Q: "\<And>w' s'. sched w' = s' \<Longrightarrow> mode s' = mode (sched w) \<Longrightarrow>
      active s' = bt_remove i (active (sched w)) \<Longrightarrow> programmes s' = programmes (sched w) \<Longrightarrow>
      physical s' = physical (sched w) \<Longrightarrow> programme_grace s' = programme_grace (sched w) \<Longrightarrow>
      bucket s' = bucket (sched w) \<Longrightarrow> session_deadline s' = session_deadline (sched w) \<Longrightarrow>
      next_wire_id s' = next_wire_id (sched w) \<Longrightarrow>
      trace w' = trace w @ [Committed (call_terminal_result a now t)] \<Longrightarrow>
      transitions (report w') = transitions (report w) + (if b then 1 else 0) \<Longrightarrow>
      (\<And>H tr'. inv_with H (sched w) tr' \<Longrightarrow> inv_with H s' (tr' @ [Committed (call_terminal_result a now t)])) \<Longrightarrow>
      Q () w'"
  shows "wp E (terminalize env i now t b) Q w"
proof -
  let ?s = "sched w" and ?r = "call_terminal_result a now t"
  have r: "result_probe ?r = ap_probe a" by (simp add: call_terminal_result_def)
  obtain pt pp where ok: "bt_get (grace ?s) i = None"
    "count_of (per_target ?s) (target (ap_probe a)) \<noteq> 0"
    "count_of (per_prefix ?s) (prefix_key (ap_context a)) \<noteq> 0"
    and dec: "decrement (per_target ?s) (target (ap_probe a)) = Some pt"
      "decrement (per_prefix ?s) (prefix_key (ap_context a)) = Some pp"
    using inv_terminalize [OF I a r] by (metis less_not_refl)
  have keep: "inv_with H' (?s\<lparr>active := bt_remove i (active ?s), per_target := pt, per_prefix := pp,
      grace := bt_insert i e (grace ?s)\<rparr>) (tr' @ [Committed ?r])" if "inv_with H' ?s tr'" for H' tr' e
    by (rule inv_terminalize [OF that a r, of e]) (use dec in simp)
  show ?thesis
    unfolding terminalize_def
    by (simp add: wp_simps a ok dec E split: option.splits prod.splits sum.splits)
      (auto intro!: Q E keep simp: mode_def)
qed

lemma safe_terminalize:
  assumes "good w" and "bt_get (active (sched w)) i = Some a"
  shows "wp sane (terminalize env i now t b) (\<lambda>_ w'. good w' \<and> mode (sched w') = mode (sched w)
    \<and> active (sched w') = bt_remove i (active (sched w)) \<and> programmes (sched w') = programmes (sched w)
    \<and> physical (sched w') = physical (sched w)
    \<and> transitions (report w') = transitions (report w) + (if b then 1 else 0)) w"
  by (rule wp_terminalize [OF assms(1) [unfolded good_def] assms(2)])
    (use assms(1) good_orderly [OF assms(1)] in \<open>simp_all add: good_def breaking_clean\<close>)

section \<open>Ending a programme\<close>

lemma wp_prune_adaptive [wp_simps]:
  "wp E (prune_adaptive_target_state t) Q w =
     (if \<not> list_ex (\<lambda>lg. target (lg_probe lg) = t) (bt_values (programmes (sched w)))
      then Q () (w\<lparr>sched := (sched w)\<lparr>adaptive_icmp_seen := bt_remove t (adaptive_icmp_seen (sched w)),
             adaptive_not_before := bt_remove t (adaptive_not_before (sched w))\<rparr>\<rparr>)
      else Q () w)"
  by (simp add: prune_adaptive_target_state_def wp_simps)

lemma safe_settle:
  assumes "good w" and "bt_get (programmes (sched w)) lid = Some lg" and "lg_active lg = 0" and "lg_grace lg = 0"
  shows "wp sane (settle_programme env lid now) (\<lambda>_ w'. good w' \<and> mode (sched w') = mode (sched w)
    \<and> programmes (sched w') = bt_remove lid (programmes (sched w)) \<and> active (sched w') = active (sched w)
    \<and> physical (sched w') = physical (sched w)
    \<and> transitions (report w') = transitions (report w) + 1) w"
proof -
  have r: "result_probe (programme_result lg now) = lg_probe lg" by (simp add: programme_result_def)
  have "inv ((sched w)\<lparr>programmes := bt_remove lid (programmes (sched w))\<rparr>)
      (trace w @ [Committed (programme_result lg now)])"
    by (rule inv_settle [OF assms(1) [unfolded good_def] assms(2-4) r])
  then show ?thesis
    using good_orderly [OF assms(1)]
    by (simp add: settle_programme_def wp_simps assms(2) good_def mode_def split: prod.splits sum.splits)
qed

lemma others_remove:
  assumes "bt_wf ph" and "bt_get ph i = Some p" and "ph_logical_id p = lid"
  shows "others lid (bt_remove i ph) = others lid ph"
proof -
  have "\<And>e. e \<in> set ph \<Longrightarrow> fst e = i \<Longrightarrow> ph_logical_id (snd e) = lid"
    using assms bt_mem_get [OF assms(1)] by force
  then show ?thesis by (auto simp: others_def bt_remove_def intro!: filter_cong)
qed

lemma physical_of_Cons:
  assumes wf: "bt_wf ph" and ids: "map fst (filter (\<lambda>e. ph_logical_id (snd e) = lid) ph) = i # ids"
  obtains p where "bt_get ph i = Some p" and "ph_logical_id p = lid"
    and "map fst (filter (\<lambda>e. ph_logical_id (snd e) = lid) (bt_remove i ph)) = ids"
proof -
  obtain e es where f: "filter (\<lambda>e. ph_logical_id (snd e) = lid) ph = e # es" "fst e = i" "map fst es = ids"
    using ids by (auto simp: map_eq_Cons_conv)
  have "e \<in> set ph" "ph_logical_id (snd e) = lid" using f(1) by (auto simp: filter_eq_Cons_iff)
  then have e: "bt_get ph i = Some (snd e)" using f(2) bt_mem_get [OF wf, of i "snd e"] by force
  have "distinct (map fst (e # es))"
    unfolding f(1) [symmetric] by (rule bt_keys_filter_distinct) (rule bt_wf_distinct [OF wf])
  then have "filter (\<lambda>e. fst e \<noteq> i) (e # es) = es" using f(2) by (simp add: filter_id_conv image_iff) metis
  moreover have "filter (\<lambda>e. ph_logical_id (snd e) = lid) (bt_remove i ph)
      = filter (\<lambda>e. fst e \<noteq> i) (filter (\<lambda>e. ph_logical_id (snd e) = lid) ph)"
    by (simp add: bt_remove_def conj_commute)
  ultimately show thesis
    using e f \<open>ph_logical_id (snd e) = lid\<close> by (intro that) simp_all
qed

lemma wp_drop_loop:
  fixes w :: "('t, 'r, 's) sys"
  assumes wf: "bt_wf (physical (sched w))"
    and occ: "occ_ok (active (sched w)) P (physical (sched w)) (per_target (sched w)) (per_prefix (sched w))"
    and tk: "prog_target P lid = t" "prog_prefix P lid = k"
    and body: "body = drop_physical t k \<or> body = (\<lambda>i. sbind (get_physical i) (\<lambda>_. drop_physical t k i))"
    and Q: "\<And>w' pt pp. sched w' = (sched w)\<lparr>physical := others lid (physical (sched w)), per_target := pt,
        per_prefix := pp\<rparr> \<Longrightarrow> occ_ok (active (sched w)) P (others lid (physical (sched w))) pt pp \<Longrightarrow>
      trace w' = trace w \<Longrightarrow> report w' = report w \<Longrightarrow> Q () w'"
  shows "wp E (sfor body (physical_of lid (sched w))) Q w"
proof -
  define J where "J ids w' \<longleftrightarrow> (\<exists>ph pt pp. sched w' = (sched w)\<lparr>physical := ph, per_target := pt, per_prefix := pp\<rparr>
      \<and> bt_wf ph \<and> occ_ok (active (sched w)) P ph pt pp
      \<and> ids = map fst (filter (\<lambda>e. ph_logical_id (snd e) = lid) ph)
      \<and> others lid ph = others lid (physical (sched w)) \<and> trace w' = trace w \<and> report w' = report w)"
    for ids and w' :: "('t, 'r, 's) sys"
  have step: "wp E (body i) (\<lambda>_. J ids) w'" if "J (i # ids) w'" for i ids w'
  proof -
    obtain ph pt pp where J: "sched w' = (sched w)\<lparr>physical := ph, per_target := pt, per_prefix := pp\<rparr>"
      "bt_wf ph" "occ_ok (active (sched w)) P ph pt pp"
      "map fst (filter (\<lambda>e. ph_logical_id (snd e) = lid) ph) = i # ids"
      "others lid ph = others lid (physical (sched w))" "trace w' = trace w" "report w' = report w"
      using \<open>J (i # ids) w'\<close> unfolding J_def by metis
    obtain p where p: "bt_get ph i = Some p" "ph_logical_id p = lid"
      and rest: "map fst (filter (\<lambda>e. ph_logical_id (snd e) = lid) (bt_remove i ph)) = ids"
      using physical_of_Cons [OF J(2,4)] by blast
    obtain pt' pp' where dec: "decrement pt t = Some pt'" "decrement pp k = Some pp'"
      and occ': "occ_ok (active (sched w)) P (bt_remove i ph) pt' pp'"
      using occ_release [OF J(3) physical_occ_remove [OF J(2) p(1), of "active (sched w)" P,
          unfolded p(2) tk]] by blast
    have next_J: "J ids w''" if "sched w'' = (sched w)\<lparr>physical := bt_remove i ph, per_target := pt',
        per_prefix := pp'\<rparr>" "trace w'' = trace w" "report w'' = report w" for w''
      unfolding J_def
      by (intro exI conjI, rule that) (use that J occ' rest others_remove [OF J(2) p] in simp_all)
    show ?thesis
      using body J(1,6,7) p(1) dec by (auto simp: drop_physical_def wp_simps intro!: next_J)
  qed
  have fin: "wp E (sfor body (physical_of lid (sched w))) (\<lambda>_. J []) w"
  proof (rule wp_sfor [where I = J])
    show "J (physical_of lid (sched w)) w"
      unfolding J_def physical_of_def
      by (rule exI [of _ "physical (sched w)"], rule exI [of _ "per_target (sched w)"],
          rule exI [of _ "per_prefix (sched w)"]) (use wf occ in simp)
  qed (auto intro: step)
  then show ?thesis
  proof (rule wp_cons)
    fix u w'
    assume "J [] w'"
    then obtain ph pt pp where J: "sched w' = (sched w)\<lparr>physical := ph, per_target := pt, per_prefix := pp\<rparr>"
      "occ_ok (active (sched w)) P ph pt pp" "filter (\<lambda>e. ph_logical_id (snd e) = lid) ph = []"
      "others lid ph = others lid (physical (sched w))" "trace w' = trace w" "report w' = report w"
      unfolding J_def by auto
    have "others lid ph = ph" using J(3) by (auto simp: others_def filter_id_conv filter_empty_conv)
    then show "Q u w'" using J by (cases u) (auto intro: Q)
  qed
qed

lemma wp_forget [wp_simps]:
  "wp E (forget_programme_queues lid) Q w = Q () (w\<lparr>sched := (sched w)\<lparr>
     programme_grace := bt_retain (\<lambda>_ g. pg_logical_id g \<noteq> lid) (programme_grace (sched w)),
     programme_ready := filter (\<lambda>i. i \<noteq> lid) (programme_ready (sched w))\<rparr>\<rparr>)"
  by (simp add: forget_programme_queues_def wp_simps)

lemma prog_route:
  "bt_get P lid = Some lg \<Longrightarrow> prog_target P lid = target (lg_probe lg) \<and> prog_prefix P lid = prefix_key (lg_context lg)"
  by (simp add: prog_target_def prog_prefix_def)

lemma safe_finish:
  assumes G: "good w" and lg: "bt_get (programmes (sched w)) lid = Some lg"
  shows "wp sane (finish_programme_correlations lid nd) (\<lambda>_ w'. good w' \<and> mode (sched w') = mode (sched w)
    \<and> active (sched w') = active (sched w) \<and> bt_keys (programmes (sched w')) = bt_keys (programmes (sched w))
    \<and> (\<exists>lg'. bt_get (programmes (sched w')) lid = Some lg' \<and> lg_active lg' = 0 \<and> lg_grace lg' = 0)
    \<and> transitions (report w') = transitions (report w)) w"
proof -
  note I = G [unfolded good_def]
  have wf: "bt_wf (physical (sched w))" using inv_tables [OF I] by (simp add: tables_ok_def)
  have loop: "wp sane (sfor (drop_physical (target (lg_probe lg)) (prefix_key (lg_context lg)))
      (physical_of lid (sched w))) Q w"
    if Q: "\<And>w' pt pp. sched w' = (sched w)\<lparr>physical := others lid (physical (sched w)), per_target := pt,
          per_prefix := pp\<rparr> \<Longrightarrow>
        occ_ok (active (sched w)) (programmes (sched w)) (others lid (physical (sched w))) pt pp \<Longrightarrow>
        trace w' = trace w \<Longrightarrow> report w' = report w \<Longrightarrow> Q () w'" for Q
    using wp_drop_loop [of w "programmes (sched w)" lid "target (lg_probe lg)" "prefix_key (lg_context lg)"
        "drop_physical (target (lg_probe lg)) (prefix_key (lg_context lg))" Q sane]
      wf inv_occ [OF I] prog_route [OF lg] Q by simp
  show ?thesis
    unfolding finish_programme_correlations_def
  proof (simp add: wp_simps lg, rule loop, goal_cases)
    case (1 w' pt pp)
    let ?f = "\<lambda>g. g\<lparr>lg_active := 0, lg_grace := 0, stop_unsent := True,
        contradictions := if nd then 0 else contradictions g\<rparr>"
    have "inv ((sched w)\<lparr>physical := others lid (physical (sched w)), per_target := pt, per_prefix := pp,
      programme_grace := bt_retain (\<lambda>_ g. pg_logical_id g \<noteq> lid) (programme_grace (sched w)),
      programme_ready := filter (\<lambda>i. i \<noteq> lid) (programme_ready (sched w)),
      programmes := bt_adjust lid ?f (programmes (sched w))\<rparr>) (trace w)"
      by (rule inv_finish [OF I lg 1(2)]) simp_all
    then show ?case using 1 lg by (simp add: good_def mode_def wp_simps)
  qed
qed

lemma safe_abort:
  assumes G: "good w" and lg: "bt_get (programmes (sched w)) lid = Some lg"
  shows "wp sane (abort_programme env lid now oc reason) (\<lambda>_ w'. good w' \<and> mode (sched w') = mode (sched w)
    \<and> active (sched w') = active (sched w)
    \<and> bt_keys (programmes (sched w')) = removeAll lid (bt_keys (programmes (sched w)))
    \<and> transitions (report w') = transitions (report w) + 1) w"
proof -
  note I = G [unfolded good_def]
  let ?s = "(sched w)\<lparr>programmes := bt_remove lid (programmes (sched w))\<rparr>"
  let ?w = "w\<lparr>sched := ?s\<rparr>"
  have wf: "bt_wf (physical (sched w))" using inv_tables [OF I] by (simp add: tables_ok_def)
  have loop: "wp sane (sfor (\<lambda>i. sbind (get_physical i) (\<lambda>_. drop_physical (target (lg_probe lg))
      (prefix_key (lg_context lg)) i)) (physical_of lid ?s)) Q ?w"
    if Q: "\<And>w' pt pp. sched w' = ?s\<lparr>physical := others lid (physical (sched w)), per_target := pt,
          per_prefix := pp\<rparr> \<Longrightarrow>
        occ_ok (active (sched w)) (programmes (sched w)) (others lid (physical (sched w))) pt pp \<Longrightarrow>
        trace w' = trace w \<Longrightarrow> report w' = report w \<Longrightarrow> Q () w'" for Q
    using wp_drop_loop [of ?w "programmes (sched w)" lid "target (lg_probe lg)" "prefix_key (lg_context lg)"
        "\<lambda>i. sbind (get_physical i) (\<lambda>_. drop_physical (target (lg_probe lg)) (prefix_key (lg_context lg)) i)" Q sane]
      wf inv_occ [OF I] prog_route [OF lg] Q by simp
  have r: "result_probe (abort_result lg now oc reason) = lg_probe lg" by (simp add: abort_result_def)
  show ?thesis
    unfolding abort_programme_def
  proof (simp add: wp_simps lg, rule loop, goal_cases)
    case (1 w' pt pp)
    have "inv ((sched w)\<lparr>programmes := bt_remove lid (programmes (sched w)),
      physical := others lid (physical (sched w)), per_target := pt, per_prefix := pp,
      programme_grace := bt_retain (\<lambda>_ g. pg_logical_id g \<noteq> lid) (programme_grace (sched w)),
      programme_ready := filter (\<lambda>i. i \<noteq> lid) (programme_ready (sched w))\<rparr>)
      (trace w @ [Committed (abort_result lg now oc reason)])"
      by (rule inv_abort [OF I lg 1(2) r])
    then show ?case
      using 1 lg good_orderly [OF G]
      by (simp add: good_def mode_def wp_simps bt_keys_remove split: prod.splits sum.splits)
  qed
qed

lemma safe_settle_or_abort:
  assumes G: "good w" and lg: "bt_get (programmes (sched w)) lid = Some lg"
  shows "wp sane (settle_or_abort env now oc reason lid) (\<lambda>_ w'. good w' \<and> mode (sched w') = mode (sched w)
    \<and> active (sched w') = active (sched w)
    \<and> bt_keys (programmes (sched w')) = removeAll lid (bt_keys (programmes (sched w)))
    \<and> transitions (report w') = transitions (report w) + 1) w"
proof (cases "best lg = None")
  case True
  then show ?thesis using safe_abort [OF assms] by (simp add: settle_or_abort_def wp_simps lg)
next
  case False
  have "wp sane (sthen (finish_programme_correlations lid False) (settle_programme env lid now))
     (\<lambda>_ w'. good w' \<and> mode (sched w') = mode (sched w) \<and> active (sched w') = active (sched w)
    \<and> bt_keys (programmes (sched w')) = removeAll lid (bt_keys (programmes (sched w)))
    \<and> transitions (report w') = transitions (report w) + 1) w"
    unfolding wp_sthen
  proof (rule wp_cons [OF safe_finish [OF assms]], elim conjE exE, goal_cases)
    case (1 u w' lg')
    show ?case
      by (rule wp_cons [OF safe_settle [OF 1(1,6,7,8)]]) (use 1 in \<open>simp add: bt_keys_remove\<close>)
  qed
  then show ?thesis using False by (simp add: settle_or_abort_def wp_simps lg)
qed

end
