(* ===== verification/Scheduler_Stops.thy ===== *)
theory Scheduler_Stops
  imports Scheduler_Ends
begin

text \<open>
  Stopping, context invalidation, settling of finished programmes and explicit disposal.
  The bounded loops take a prefix of the identifiers, so that a call stays within the
  transition ceiling.
\<close>

section \<open>Bounded loops\<close>

definition within_ceiling :: "('t, 'r, 's) sys \<Rightarrow> ('t, 'r, 's) sys \<Rightarrow> bool" where
  "within_ceiling w w' \<longleftrightarrow>
     transitions (report w') \<le> max (transitions (report w)) MAX_TRANSITIONS_PER_DRIVE"

lemma within_ceiling_refl [simp]: "within_ceiling w w"
  by (simp add: within_ceiling_def)

lemma within_ceiling_trans: "within_ceiling w w' \<Longrightarrow> within_ceiling w' w'' \<Longrightarrow> within_ceiling w w''"
  by (auto simp: within_ceiling_def)

lemma take_within:
  assumes "transitions (report w') = transitions (report w) + length (take (remaining w) xs)"
  shows "within_ceiling w w'"
  using assms by (auto simp: within_ceiling_def remaining_def)

lemma distinct_take_filter: "bt_wf m \<Longrightarrow> distinct (take n (map fst (filter P m)))"
  using bt_keys_filter_distinct [OF bt_wf_distinct] by (rule distinct_take)

lemma set_take_filter: "set (take n (map fst (filter P m))) \<subseteq> set (bt_keys m)"
  using set_take_subset by fastforce

lemma bt_key_get: "i \<in> set (bt_keys m) \<Longrightarrow> \<exists>v. bt_get m i = Some v"
  by (metis bt_get_None_iff option.exhaust)

lemma safe_terminalize_all:
  fixes w :: "('t, 'r, 's) sys"
  assumes "good w" and "distinct ids" and "set ids \<subseteq> set (bt_keys (active (sched w)))"
  shows "wp sane (sfor (\<lambda>i. terminalize env i now tm True) ids) (\<lambda>_ w'. good w'
    \<and> mode (sched w') = mode (sched w) \<and> programmes (sched w') = programmes (sched w)
    \<and> physical (sched w') = physical (sched w)
    \<and> transitions (report w') = transitions (report w) + length ids) w"
proof (rule wp_sfor [where I = "\<lambda>is w'. good w' \<and> mode (sched w') = mode (sched w)
    \<and> programmes (sched w') = programmes (sched w) \<and> physical (sched w') = physical (sched w)
    \<and> distinct is \<and> set is \<subseteq> set (bt_keys (active (sched w')))
    \<and> transitions (report w') + length is = transitions (report w) + length ids"])
  fix x xs and w' :: "('t, 'r, 's) sys"
  assume I: "good w' \<and> mode (sched w') = mode (sched w)
    \<and> programmes (sched w') = programmes (sched w) \<and> physical (sched w') = physical (sched w)
    \<and> distinct (x # xs) \<and> set (x # xs) \<subseteq> set (bt_keys (active (sched w')))
    \<and> transitions (report w') + length (x # xs) = transitions (report w) + length ids"
  then have "x \<in> set (bt_keys (active (sched w')))" by simp
  from bt_key_get [OF this] obtain a where a: "bt_get (active (sched w')) x = Some a" ..
  have G: "good w'" using I by simp
  show "wp sane (terminalize env x now tm True) (\<lambda>_ w'. good w' \<and> mode (sched w') = mode (sched w)
    \<and> programmes (sched w') = programmes (sched w) \<and> physical (sched w') = physical (sched w)
    \<and> distinct xs \<and> set xs \<subseteq> set (bt_keys (active (sched w')))
    \<and> transitions (report w') + length xs = transitions (report w) + length ids) w'"
    by (rule wp_cons [OF safe_terminalize [OF G a]]) (use I in \<open>auto simp: bt_keys_remove\<close>)
qed (use assms in auto)

lemma safe_settle_all:
  fixes w :: "('t, 'r, 's) sys"
  assumes "good w" and "distinct ids" and "set ids \<subseteq> set (bt_keys (programmes (sched w)))"
  shows "wp sane (sfor (settle_or_abort env now oc reason) ids) (\<lambda>_ w'. good w'
    \<and> mode (sched w') = mode (sched w) \<and> active (sched w') = active (sched w)
    \<and> transitions (report w') = transitions (report w) + length ids) w"
proof (rule wp_sfor [where I = "\<lambda>is w'. good w' \<and> mode (sched w') = mode (sched w)
    \<and> active (sched w') = active (sched w)
    \<and> distinct is \<and> set is \<subseteq> set (bt_keys (programmes (sched w')))
    \<and> transitions (report w') + length is = transitions (report w) + length ids"])
  fix x xs and w' :: "('t, 'r, 's) sys"
  assume I: "good w' \<and> mode (sched w') = mode (sched w) \<and> active (sched w') = active (sched w)
    \<and> distinct (x # xs) \<and> set (x # xs) \<subseteq> set (bt_keys (programmes (sched w')))
    \<and> transitions (report w') + length (x # xs) = transitions (report w) + length ids"
  then have "x \<in> set (bt_keys (programmes (sched w')))" by simp
  from bt_key_get [OF this] obtain lg where lg: "bt_get (programmes (sched w')) x = Some lg" ..
  have G: "good w'" using I by simp
  show "wp sane (settle_or_abort env now oc reason x) (\<lambda>_ w'. good w' \<and> mode (sched w') = mode (sched w)
    \<and> active (sched w') = active (sched w)
    \<and> distinct xs \<and> set xs \<subseteq> set (bt_keys (programmes (sched w')))
    \<and> transitions (report w') + length xs = transitions (report w) + length ids) w'"
    by (rule wp_cons [OF safe_settle_or_abort [OF G lg]]) (use I in auto)
qed (use assms in auto)

section \<open>Settling finished programmes\<close>

lemma safe_settle_ready:
  fixes w :: "('t, 'r, 's) sys"
  assumes G: "good w"
  shows "wp sane (settle_ready_programmes env now) (\<lambda>_ w'. good w' \<and> mode (sched w') = mode (sched w)
    \<and> active (sched w') = active (sched w) \<and> within_ceiling w w') w"
proof -
  define fin where "fin e \<longleftrightarrow> (stop_unsent (snd e) \<or> next_variant (snd e) = variant_count (snd e))
        \<and> lg_active (snd e) = 0 \<and> lg_grace (snd e) = 0" for e :: "nat \<times> ProgrammeLogical"
  define ids where "ids = take (remaining w) (map fst (filter fin (programmes (sched w))))"
  have wf: "bt_wf (programmes (sched w))" using inv_tables G by (auto simp: good_def tables_ok_def)
  have ready: "\<forall>i \<in> set ids. \<exists>lg. bt_get (programmes (sched w)) i = Some lg \<and> lg_active lg = 0 \<and> lg_grace lg = 0"
  proof
    fix i
    assume "i \<in> set ids"
    then obtain lg where "(i, lg) \<in> set (programmes (sched w))" "fin (i, lg)"
      unfolding ids_def by (auto dest!: in_set_takeD)
    then show "\<exists>lg. bt_get (programmes (sched w)) i = Some lg \<and> lg_active lg = 0 \<and> lg_grace lg = 0"
      using bt_mem_get [OF wf] by (auto simp: fin_def)
  qed
  have "wp sane (sfor (\<lambda>lid. settle_programme env lid now) ids) (\<lambda>_ w'. good w' \<and> mode (sched w') = mode (sched w)
    \<and> active (sched w') = active (sched w) \<and> transitions (report w') = transitions (report w) + length ids) w"
  proof (rule wp_sfor [where I = "\<lambda>is w'. good w' \<and> mode (sched w') = mode (sched w)
      \<and> active (sched w') = active (sched w) \<and> distinct is
      \<and> (\<forall>i \<in> set is. \<exists>lg. bt_get (programmes (sched w')) i = Some lg \<and> lg_active lg = 0 \<and> lg_grace lg = 0)
      \<and> transitions (report w') + length is = transitions (report w) + length ids"])
    fix x xs and w' :: "('t, 'r, 's) sys"
    assume I: "good w' \<and> mode (sched w') = mode (sched w)
      \<and> active (sched w') = active (sched w) \<and> distinct (x # xs)
      \<and> (\<forall>i \<in> set (x # xs). \<exists>lg. bt_get (programmes (sched w')) i = Some lg \<and> lg_active lg = 0 \<and> lg_grace lg = 0)
      \<and> transitions (report w') + length (x # xs) = transitions (report w) + length ids"
    then obtain lg where lg: "bt_get (programmes (sched w')) x = Some lg" "lg_active lg = 0" "lg_grace lg = 0"
      by auto
    show "wp sane (settle_programme env x now) (\<lambda>_ w'. good w' \<and> mode (sched w') = mode (sched w)
      \<and> active (sched w') = active (sched w) \<and> distinct xs
      \<and> (\<forall>i \<in> set xs. \<exists>lg. bt_get (programmes (sched w')) i = Some lg \<and> lg_active lg = 0 \<and> lg_grace lg = 0)
      \<and> transitions (report w') + length xs = transitions (report w) + length ids) w'"
      by (rule wp_cons [OF safe_settle [OF conjunct1 [OF I] lg]]) (use I in auto)
  qed (use G ready wf in \<open>auto simp: ids_def intro: distinct_take_filter\<close>)
  then have "wp sane (sfor (\<lambda>lid. settle_programme env lid now) ids) (\<lambda>_ w'. good w' \<and> mode (sched w') = mode (sched w)
    \<and> active (sched w') = active (sched w) \<and> within_ceiling w w') w"
    by (rule wp_cons) (auto simp: ids_def intro: take_within)
  then show ?thesis by (simp add: settle_ready_programmes_def wp_simps ids_def fin_def [abs_def])
qed

section \<open>Stopping\<close>

lemma inv_stop_done:
  assumes I: "inv s tr" and st: "stop s = Some st" and none: "active s = []" "programmes s = []"
  shows "inv (s\<lparr>lifecycle := final_lifecycle st, stop := None\<rparr>) tr" and "lifecycle s = Cancelling"
    and "final_lifecycle st = Completed \<or> final_lifecycle st = Failed"
proof -
  note life = inv_life [OF I, unfolded life_ok_def]
  show c: "lifecycle s = Cancelling" and f: "final_lifecycle st = Completed \<or> final_lifecycle st = Failed"
    using life st by auto
  have drained: "cursor s = logical_probe_count (plan s) \<and> deferred s = []" and stopped: "StopRequested \<in> set tr"
    using life c by auto
  have "life_ok (final_lifecycle st) None (bucket s \<noteq> None \<and> session_deadline s \<noteq> None) True True True"
    using f by (auto simp: life_ok_def)
  then show "inv (s\<lparr>lifecycle := final_lifecycle st, stop := None\<rparr>) tr"
    using inv_parts [OF I] f c none drained stopped by (auto simp: inv_with_def)
qed

lemma safe_settle_stop:
  fixes w :: "('t, 'r, 's) sys"
  assumes G: "good w" and st: "stop (sched w) = Some st"
  shows "wp sane (settle_stop env now) (\<lambda>_ w'. good w'
    \<and> lifecycle (sched w') \<in> {Cancelling, Completed, Failed} \<and> within_ceiling w w') w"
proof -
  have life: "lifecycle (sched w) = Cancelling" "final_lifecycle st = Completed \<or> final_lifecycle st = Failed"
    using inv_life [OF G [unfolded good_def]] st by (auto simp: life_ok_def)
  have wf: "bt_wf (active (sched w))" using inv_tables G by (auto simp: good_def tables_ok_def)
  note key = distinct_take [OF bt_wf_distinct [OF wf]] set_take_subset
  have key': "distinct (take n (bt_keys (programmes (sched w'))))" if "good w'" for n and w' :: "('t, 'r, 's) sys"
    using inv_tables [OF that [unfolded good_def]]
    by (intro distinct_take bt_wf_distinct) (simp add: tables_ok_def)
  show ?thesis
    unfolding settle_stop_def
  proof (simp add: wp_simps st, rule wp_cons [OF safe_terminalize_all [OF G key]], elim conjE, goal_cases)
    case (1 u w')
    note one = this
    have c: "within_ceiling w w'" by (rule take_within) (rule 1(5))
    show ?case
    proof (simp add: wp_simps, rule wp_cons [OF safe_settle_all [OF 1(1) key' [OF 1(1)] set_take_subset]],
        elim conjE, goal_cases)
      case (1 u' w'')
      have "within_ceiling w' w''" by (rule take_within) (rule 1(4))
      then have c: "within_ceiling w w''" by (rule within_ceiling_trans [OF c])
      have m: "stop (sched w'') = Some st" "lifecycle (sched w'') = Cancelling"
        using mode_eqD [OF 1(2)] mode_eqD [OF one(2)] st life by auto
      show ?case
        using 1(1) m c life inv_stop_done [of "sched w''" "trace w''" st]
        by (auto simp: good_def within_ceiling_def wp_simps)
    qed
  qed
qed

lemma safe_fail_transport:
  assumes G: "good w" and opened: "lifecycle (sched w) \<noteq> Closed"
  shows "wp sane (fail_transport env now code) (\<lambda>_ w'. good w'
    \<and> lifecycle (sched w') \<in> {Cancelling, Completed, Failed} \<and> within_ceiling w w') w"
  unfolding fail_transport_def initiate_stop_def
  by (simp add: wp_simps, rule wp_cons [OF safe_settle_stop])
    (use inv_initiate_stop [OF G [unfolded good_def] _ opened] in \<open>auto simp: good_def within_ceiling_def\<close>)

section \<open>Invalidation\<close>

lemma safe_settle_context:
  fixes w :: "('t, 'r, 's) sys"
  assumes G: "good w" and f: "invalidating_generation (sched w) = Some f"
  shows "wp sane (settle_context_invalidation env now) (\<lambda>_ w'. good w'
    \<and> lifecycle (sched w') = lifecycle (sched w) \<and> stop (sched w') = stop (sched w) \<and> within_ceiling w w') w"
proof -
  have wf: "bt_wf (active (sched w))" using inv_tables G by (auto simp: good_def tables_ok_def)
  have wf': "bt_wf (programmes (sched w'))" if "good w'" for w' :: "('t, 'r, 's) sys"
    using inv_tables [OF that [unfolded good_def]] by (simp add: tables_ok_def)
  show ?thesis
    unfolding settle_context_invalidation_def
  proof (simp add: wp_simps f, rule wp_cons [OF safe_terminalize_all [OF G distinct_take_filter [OF wf]
        set_take_filter]], elim conjE, goal_cases)
    case (1 u w')
    note one = this
    have c: "within_ceiling w w'" by (rule take_within) (rule 1(5))
    show ?case
    proof (simp add: wp_simps, rule wp_cons [OF safe_settle_all [OF 1(1) distinct_take_filter [OF wf' [OF 1(1)]]
          set_take_filter]], elim conjE, goal_cases)
      case (1 u' w'')
      have "within_ceiling w' w''" by (rule take_within) (rule 1(4))
      then have "within_ceiling w w''" by (rule within_ceiling_trans [OF c])
      then show ?case
        using 1(1) mode_eqD [OF 1(2)] mode_eqD [OF one(2)]
        by (simp add: good_def within_ceiling_def wp_simps)
    qed
  qed
qed

lemma wp_observe_now [wp_simps]:
  "wp E (observe_now now) Q w =
     (if (case last_now (sched w) of None \<Rightarrow> False | Some prior \<Rightarrow> now < prior) then E (Engine ClockRegressed) w
      else Q () (w\<lparr>sched := (sched w)\<lparr>last_now := Some now\<rparr>\<rparr>))"
  by (simp add: observe_now_def wp_simps)

lemma safe_invalidate_context:
  assumes G: "good w"
  shows "wp sane (invalidate_context env now g) (\<lambda>_ w'. good w' \<and> lifecycle (sched w') = lifecycle (sched w)) w"
proof -
  let ?f = "case g of None \<Rightarrow> AllGenerations | Some x \<Rightarrow> ExactGeneration x"
  let ?s = "(sched w)\<lparr>last_now := Some now, context_waiting := True,
      diagnostics := inc_invalidations (diagnostics (sched w)), invalidating_generation := Some ?f\<rparr>"
  have "good (w\<lparr>sched := ?s, report := \<lparr>transitions = 0, emissions = 0, results = 0\<rparr>\<rparr>)"
    using G by (simp add: good_def)
  note wp_cons [OF safe_settle_context [OF this, of ?f], where Q' = "\<lambda>_ w'. good w' \<and> lifecycle (sched w') = lifecycle (sched w)"]
  moreover have "good (w\<lparr>sched := (sched w)\<lparr>last_now := Some now, context_waiting := True,
      diagnostics := inc_invalidations (diagnostics (sched w))\<rparr>\<rparr>)"
    using G by (simp add: good_def)
  ultimately show ?thesis
    using G good_orderly [OF G] by (simp add: invalidate_context_def Let_def wp_simps)
qed

section \<open>Requests of the embedder\<close>

lemma wp_initiate_stop [wp_simps]:
  "wp E (initiate_stop oc reason final) Q w = Q () (w\<lparr>trace := trace w @ [StopRequested], sched := (sched w)\<lparr>
     cursor := logical_probe_count (plan (sched w)), deferred := [], invalidating_generation := None,
     lifecycle := Cancelling,
     stop := Some \<lparr>stop_outcome = oc, stop_reason = reason, final_lifecycle = final\<rparr>\<rparr>\<rparr>)"
  by (simp add: initiate_stop_def wp_simps)

text \<open>A stop request followed by settling, on a report that may have been replaced in between.\<close>

lemma safe_stop:
  assumes "good w" and "lifecycle (sched w) \<noteq> Closed" and "final = Completed \<or> final = Failed"
    and "sched w' = (sched w)\<lparr>cursor := logical_probe_count (plan (sched w)), deferred := [],
      invalidating_generation := None, lifecycle := Cancelling,
      stop := Some \<lparr>stop_outcome = oc, stop_reason = reason, final_lifecycle = final\<rparr>\<rparr>"
    and "trace w' = trace w @ [StopRequested]"
  shows "wp sane (settle_stop env now) (\<lambda>_ w'. good w' \<and> lifecycle (sched w') \<in> {Cancelling, Completed, Failed}) w'"
proof -
  have "good w'" using inv_initiate_stop [where g = None, OF assms(1) [unfolded good_def] assms(3,2), of oc reason] assms(1,4,5) by (simp add: good_def)
  then show ?thesis
    by (intro wp_cons [OF safe_settle_stop [of w' "\<lparr>stop_outcome = oc, stop_reason = reason, final_lifecycle = final\<rparr>"]])
      (use assms(4) in auto)
qed

lemma safe_cancel:
  assumes G: "good w"
  shows "wp sane (cancel env now) (\<lambda>_ w'. good w' \<and> lifecycle (sched w') \<in> {Cancelling, Completed, Failed}) w"
proof -
  have g: "good (w\<lparr>sched := (sched w)\<lparr>last_now := Some now\<rparr>\<rparr>)" using G by (simp add: good_def)
  show ?thesis
    using G good_orderly [OF G]
    by (auto simp: cancel_def wp_simps intro!: wp_cons [OF safe_stop [OF g]])
qed

lemma safe_transport_failed:
  assumes G: "good w"
  shows "wp sane (transport_failed env now code) (\<lambda>_ w'. good w') w"
proof (cases "is_terminal (sched w) \<or> stop (sched w) \<noteq> None")
  case True
  then show ?thesis using G by (auto simp: transport_failed_def wp_simps)
next
  case False
  let ?w = "w\<lparr>sched := (sched w)\<lparr>last_now := Some now\<rparr>, report := \<lparr>transitions = 0, emissions = 0, results = 0\<rparr>\<rparr>"
  have "good ?w" "lifecycle (sched ?w) \<noteq> Closed" using G False by (auto simp: good_def is_terminal_def)
  from wp_cons [OF safe_fail_transport [OF this], where Q' = "\<lambda>_ w'. good w'"] show ?thesis
    using G good_orderly [OF G] False by (auto simp: transport_failed_def wp_simps)
qed

lemma safe_context_failed:
  assumes G: "good w"
  shows "wp sane (context_failed env now) (\<lambda>_ w'. good w') w"
proof (cases "is_terminal (sched w) \<or> stop (sched w) \<noteq> None")
  case True
  then show ?thesis using G by (auto simp: context_failed_def wp_simps)
next
  case False
  let ?w = "w\<lparr>sched := (sched w)\<lparr>last_now := Some now\<rparr>\<rparr>"
  have g: "good ?w" and o: "lifecycle (sched ?w) \<noteq> Closed" using G False by (auto simp: good_def is_terminal_def)
  show ?thesis
    using G good_orderly [OF G] False
    by (auto simp: context_failed_def wp_simps intro!: wp_cons [OF safe_stop [where final = Failed, OF g o]])
qed

lemma safe_close:
  assumes G: "good w"
  shows "wp sane (close env) (\<lambda>_ w'. good w' \<and> lifecycle (sched w') = Closed) w"
proof (cases "lifecycle (sched w) = Closed")
  case True
  then show ?thesis using G by (simp add: close_def wp_simps)
next
  case False
  then show ?thesis
    using inv_close [OF G [unfolded good_def]] good_orderly [OF G]
    by (simp add: close_def wp_simps good_def split: prod.splits sum.splits option.splits)
qed

lemma life_switch:
  assumes "life_ok lc st armed idle drained stopped" and "lc \<in> {Created, Running, Pausing, Paused}"
    and "lc' \<in> {Running, Pausing, Paused}" and "armed'"
  shows "life_ok lc' st armed' idle' drained' stopped"
proof -
  have "stopped \<longrightarrow> lc \<in> {Cancelling, Completed, Failed, Closed}" and "st \<noteq> None \<longrightarrow> lc = Cancelling"
    using assms(1) unfolding life_ok_def by blast+
  then have "\<not> stopped" and "st = None" using assms(2) by auto
  then show ?thesis using assms(3,4) unfolding life_ok_def by auto
qed

lemma safe_start:
  assumes G: "good w"
  shows "wp sane (start now) (\<lambda>_ w'. good w' \<and> lifecycle (sched w') = Running) w"
proof -
  note I = G [unfolded good_def]
  have run: "inv ((sched w)\<lparr>lifecycle := Running, bucket := Some b, session_deadline := Some d\<rparr>) (trace w)"
    if "lifecycle (sched w) = Created" "time_add now (session_deadline_after (config (sched w))) = Some d"
      "TokenBucket_new (rate_per_second (config (sched w))) (burst (config (sched w))) now = Ok b" for b d
  proof (rule inv_lifecycle [OF I _ _ life_switch [OF inv_life [OF I]]])
    have "frames (trace w) = 0" using inv_rate [OF I] that(1) by (simp add: rate_ok_def)
    then show "rate_ok (config (sched w)) (Running = Created) (Some b) (Some d) (frames (trace w))"
      using that(2,3) by (auto simp: rate_ok_def TokenBucket_new_def time_add_def result_simps Let_def
          split: if_splits)
  qed (use that in auto)
  have new: "TokenBucket_new (rate_per_second (config (sched w))) (burst (config (sched w))) now \<noteq> Err e" for e
    using inv_fixed [OF I] by (auto simp: fixed_ok_def config_ok_def TokenBucket_new_def Let_def)
  show ?thesis
    using I good_orderly [OF G]
    by (simp add: start_def wp_simps good_def new split: option.splits sum.splits)
      (use run in \<open>simp add: inv_with_def\<close>)
qed

lemma safe_switch:
  assumes G: "good w" and "lifecycle (sched w) \<in> {Running, Pausing, Paused}" and "lc \<in> {Running, Pausing, Paused}"
  shows "good (w\<lparr>sched := (sched w)\<lparr>lifecycle := lc\<rparr>, report := r\<rparr>)"
proof -
  note I = G [unfolded good_def]
  have armed: "bucket (sched w) \<noteq> None \<and> session_deadline (sched w) \<noteq> None"
    using inv_life [OF I] assms(2) by (auto simp: life_ok_def)
  have "inv ((sched w)\<lparr>lifecycle := lc, bucket := bucket (sched w), session_deadline := session_deadline (sched w)\<rparr>) (trace w)"
    by (rule inv_lifecycle [OF I _ _ life_switch [OF inv_life [OF I]]])
      (use assms(2,3) armed inv_rate [OF I] in \<open>auto simp: rate_ok_def\<close>)
  then show ?thesis by (simp add: good_def)
qed

lemma safe_requests:
  assumes G: "good w"
  shows "wp sane request_pause (\<lambda>_ w'. good w' \<and> lifecycle (sched w') = Pausing) w"
    and "wp sane resume (\<lambda>_ w'. good w' \<and> lifecycle (sched w') = Running) w"
    and "wp sane context_restored (\<lambda>_ w'. good w') w" and "wp sane (record_diagnostic k) (\<lambda>_ w'. good w') w"
proof -
  show "wp sane request_pause (\<lambda>_ w'. good w' \<and> lifecycle (sched w') = Pausing) w"
    using G good_orderly [OF G] safe_switch [OF G, of Pausing "report w"] by (simp add: request_pause_def wp_simps)
  show "wp sane resume (\<lambda>_ w'. good w' \<and> lifecycle (sched w') = Running) w"
    using G good_orderly [OF G] safe_switch [OF G, of Running "report w"] by (simp add: resume_def wp_simps)
  show "wp sane context_restored (\<lambda>_ w'. good w') w" "wp sane (record_diagnostic k) (\<lambda>_ w'. good w') w"
    using G by (simp_all add: context_restored_def record_diagnostic_def wp_simps good_def)
qed

end
