(* ===== verification/Scheduler_Admission.thy ===== *)
theory Scheduler_Admission
  imports Scheduler_Stops
begin

text \<open>
  Admission keeps the invariant: the candidate in hand is admitted, deferred or put back,
  the deferred queue never overflows, and every limit of the configuration is respected.
\<close>

section \<open>Guards\<close>

definition within_one :: "('t, 'r, 's) sys \<Rightarrow> ('t, 'r, 's) sys \<Rightarrow> bool" where
  "within_one w w' \<longleftrightarrow>
     transitions (report w') \<le> max (transitions (report w)) (MAX_TRANSITIONS_PER_DRIVE + 1)"

lemma within_one_refl [simp]: "within_one w w"
  by (simp add: within_one_def)

lemma within_one_trans: "within_one w w' \<Longrightarrow> within_one w' w'' \<Longrightarrow> within_one w w''"
  by (auto simp: within_one_def)

lemma ceiling_one: "within_ceiling w w' \<Longrightarrow> within_one w w'"
  by (auto simp: within_one_def within_ceiling_def)

lemma saturating_less:
  "saturating_add w a b + c < m \<Longrightarrow> m \<le> max_of w \<Longrightarrow> a + b + c < m"
  by (auto simp: saturating_add_def min_def split: if_splits)

lemma guard_room:
  assumes "good w" and "outstanding_physical (sched w) < max_outstanding (config (sched w))"
    and "total_correlation_entries (sched w) < max_grace_entries (config (sched w))"
  shows "has_room (sched w)"
proof -
  have c: "max_outstanding (config (sched w)) \<le> max_of 64" "max_grace_entries (config (sched w)) \<le> max_of 64"
    using inv_fixed [OF assms(1) [unfolded good_def]]
    by (auto simp: fixed_ok_def config_ok_def bounds_defs max_of_def)
  have "length (active (sched w)) + length (physical (sched w)) < max_outstanding (config (sched w))"
    using saturating_less [of 64 _ _ 0] assms(2) c(1) by (simp add: outstanding_physical_def)
  moreover have "length (active (sched w)) + length (physical (sched w)) + length (grace (sched w))
      + length (programme_grace (sched w)) < max_grace_entries (config (sched w))"
  proof -
    let ?a = "length (active (sched w))" and ?p = "length (physical (sched w))" and ?g = "length (grace (sched w))"
      and ?q = "length (programme_grace (sched w))" and ?m = "max_grace_entries (config (sched w))"
    have "saturating_add 64 (saturating_add 64 (saturating_add 64 ?a ?p) ?g) ?q + 0 < ?m"
      using assms(3) by (simp add: total_correlation_entries_def)
    from saturating_less [OF this c(2)] have "saturating_add 64 (saturating_add 64 ?a ?p) ?g + ?q < ?m" by simp
    from saturating_less [OF this c(2)] have "saturating_add 64 ?a ?p + (?g + ?q) < ?m" by simp
    from saturating_less [OF this c(2)] show ?thesis by simp
  qed
  ultimately show ?thesis by (simp add: has_room_def)
qed

lemma udp_port:
  assumes ok: "plan_ok pl" and p: "logical_probe_at pl i = Ok p" and prog: "udp_programme_for pl p = Some prog"
  shows "\<exists>q. port p = Some q"
proof -
  obtain d where d: "d \<in> set (dimensions pl)" "def_family (dim_definition d) = family p"
    "udp_programme (dim_definition d) = Some prog"
    using prog nth_mem by (fastforce simp: udp_programme_for_def Option.bind_eq_Some_conv find_Some_iff)
  have "def_ok (dim_definition d)" using ok d(1) by (auto simp: plan_ok_def dims_ok_def)
  then have "family p = Udp" using d by (auto simp: def_ok_def)
  then show ?thesis
    using p by (auto simp: logical_probe_at_def Let_def rbind_Ok_iff split: if_splits)
qed

section \<open>A candidate in hand\<close>

definition hand :: "LogicalProbe \<Rightarrow> ('t, 'r, 's) sys \<Rightarrow> bool" where
  "hand p w \<longleftrightarrow> inv_with {#logical_id p#} (sched w) (trace w) \<and> live (sched w) \<and> genuine (sched w) p
     \<and> length (deferred (sched w)) < MAX_TRANSITIONS_PER_DRIVE"

lemma hand_room: "hand p w \<Longrightarrow> length (deferred (sched w)) \<noteq> MAX_DEFERRED_CANDIDATES"
  by (auto simp: hand_def bounds_defs)

lemma hand_orderly: "hand p w \<Longrightarrow> orderly {} (trace w)"
  by (auto simp: hand_def inv_orderly)

lemma hand_put_back:
  assumes "hand p w"
  shows "inv ((sched w)\<lparr>deferred := p # deferred (sched w)\<rparr>) (trace w)"
    and "inv ((sched w)\<lparr>deferred := deferred (sched w) @ [p]\<rparr>) (trace w)"
  using assms by (auto simp: hand_def intro!: inv_put_back [of p])

lemma wp_requeue_front [wp_simps]:
  "wp E (requeue_front p) Q w = (if length (deferred (sched w)) = MAX_DEFERRED_CANDIDATES
     then E (Engine StateCapacityExceeded) w
     else Q () (w\<lparr>sched := (sched w)\<lparr>deferred := p # deferred (sched w)\<rparr>\<rparr>))"
  "wp E (push_front p) Q w = Q () (w\<lparr>sched := (sched w)\<lparr>deferred := p # deferred (sched w)\<rparr>\<rparr>)"
  "wp E (defer_probe p) Q w = (if length (deferred (sched w)) = MAX_DEFERRED_CANDIDATES
     then E (Engine StateCapacityExceeded) w
     else Q () (w\<lparr>sched := (sched w)\<lparr>deferred := deferred (sched w) @ [p]\<rparr>\<rparr>))"
  by (simp_all add: requeue_front_def push_front_def defer_probe_def wp_simps)

text \<open>What one round of the admission loop leaves behind.\<close>

definition admitted :: "('t, 'r, 's) sys \<Rightarrow> ('t, 'r, 's) sys \<Rightarrow> bool" where
  "admitted w w' \<longleftrightarrow> good w' \<and> lifecycle (sched w') = lifecycle (sched w)
     \<and> length (deferred (sched w')) \<le> Suc (length (deferred (sched w)))
     \<and> transitions (report w') \<le> transitions (report w) + 2"

lemma safe_admit_single:
  assumes h: "hand p w" and room: "has_room (sched w)"
    and rows: "length (active (sched w)) + length (programmes (sched w)) < max_outstanding (config (sched w))"
    and tgt: "count_of (per_target (sched w)) (target p) < max_per_target (config (sched w))"
    and pfx: "count_of (per_prefix (sched w)) (prefix_key ctx) < max_per_prefix (config (sched w))"
  shows "wp sane (admit_single env p ctx) (\<lambda>_. admitted w) w"
proof -
  note adm = inv_admit_single [OF _ _ _ room rows tgt pfx, of "trace w"]
  show ?thesis
    using adm h hand_put_back [OF h] hand_orderly [OF h] hand_room [OF h]
    by (auto simp: admit_single_def wp_simps hand_def admitted_def good_def
        split: prod.splits sum.splits SinkReservation.splits)
qed

lemma safe_admit_programme:
  assumes h: "hand p w"
    and rows: "length (active (sched w)) + length (programmes (sched w)) < max_outstanding (config (sched w))"
    and prog: "udp_programme_for (plan (sched w)) p = Some prog" "port p = Some q"
    and vc: "vc = variant_count_for prog (target_address (target p)) q"
  shows "wp sane (admit_programme env now p ctx vc bytes) (\<lambda>_. admitted w) w"
proof -
  let ?lg = "new_logical p ctx vc bytes"
  have adm: "bt_get (programmes (sched w)) (logical_id p) = None"
    "inv ((sched w)\<lparr>programmes := bt_insert (logical_id p) ?lg (programmes (sched w)), programme_ready := rdy\<rparr>)
       (trace w @ [ReservedRow])"
    if "set (programme_ready (sched w)) \<subseteq> set rdy" "vc \<noteq> 0 \<Longrightarrow> logical_id p \<in> set rdy" for rdy
    using inv_admit_programme [OF _ _ _ rows prog vc that, of "trace w"] h by (auto simp: hand_def)
  have settle: "wp sane (settle_programme env (logical_id p) now) (\<lambda>_ w''. good w'' \<and> mode (sched w'') = mode (sched w)
      \<and> transitions (report w'') = transitions (report w) + 1) w'"
    if "vc = 0" "sched w' = (sched w)\<lparr>programmes := bt_insert (logical_id p) ?lg (programmes (sched w))\<rparr>"
      "trace w' = trace w @ [ReservedRow]" "report w' = report w" for w'
  proof -
    have "good w'" using adm(2) [of "programme_ready (sched w)"] that by (simp add: good_def)
    from wp_cons [OF safe_settle [OF this, of "logical_id p" ?lg]] that show ?thesis
      by (auto simp: new_logical_def mode_def)
  qed
  have none: "bt_get (programmes (sched w)) (logical_id p) = None"
    and queued: "inv ((sched w)\<lparr>programmes := bt_insert (logical_id p) ?lg (programmes (sched w)),
        programme_ready := programme_ready (sched w) @ [logical_id p]\<rparr>) (trace w @ [ReservedRow])"
    using adm [of "programme_ready (sched w) @ [logical_id p]"] by auto
  show ?thesis
    using none queued h hand_put_back [OF h] hand_orderly [OF h] hand_room [OF h]
    by (auto simp: admit_programme_def wp_simps hand_def admitted_def good_def mode_def
        intro!: wp_cons [OF settle] split: prod.splits sum.splits SinkReservation.splits)
qed

lemma safe_admit_ready:
  assumes h: "hand p w" and room: "has_room (sched w)"
    and rows: "length (active (sched w)) + length (programmes (sched w)) < max_outstanding (config (sched w))"
    and tgt: "count_of (per_target (sched w)) (target p) < max_per_target (config (sched w))"
  shows "wp sane (admit_ready env now p ctx) (\<lambda>_. admitted w) w"
proof -
  have port: "\<exists>q. port p = Some q" if "udp_programme_for (plan (sched w)) p = Some prog" for prog
    using udp_port [OF _ _ that] h inv_fixed [of "{#logical_id p#}" "sched w" "trace w"]
    by (auto simp: hand_def genuine_def fixed_ok_def)
  note single = safe_admit_single [OF h room rows tgt] and programme = safe_admit_programme [OF h rows]
  show ?thesis
    using hand_put_back [OF h] hand_orderly [OF h] hand_room [OF h] h port
    by (auto simp: admit_ready_def wp_simps hand_def admitted_def good_def
        intro!: single programme
        split: option.splits)
qed

lemma hand_frame:
  assumes "hand p w" and "sched w' = sched w" and "trace w' = trace w"
  shows "hand p w'"
  using assms by (simp add: hand_def)

lemma safe_admit_one:
  assumes h: "hand p w" and room: "has_room (sched w)"
    and rows: "length (active (sched w)) + length (programmes (sched w)) < max_outstanding (config (sched w))"
  shows "wp sane (admit_one env now p) (\<lambda>_. admitted w) w"
proof -
  have ready: "wp sane (admit_ready env now p ctx) (\<lambda>_. admitted w) (w\<lparr>resolver := r\<rparr>)"
    if "count_of (per_target (sched w)) (target p) < max_per_target (config (sched w))" for ctx r
    using safe_admit_ready [of p "w\<lparr>resolver := r\<rparr>" env now ctx] that room rows
      hand_frame [OF h, of "w\<lparr>resolver := r\<rparr>"] by (simp add: admitted_def [abs_def])
  show ?thesis
    using hand_put_back [OF h] hand_orderly [OF h] hand_room [OF h] h ready
    by (auto simp: admit_one_def wp_simps hand_def admitted_def good_def not_le
        split: prod.splits sum.splits ContextResolution.splits)
qed

section \<open>The loop\<close>

lemma wp_next_candidate:
  assumes G: "good w" and opened: "lifecycle (sched w) \<notin> {Created, Closed}"
    and bound: "length (deferred (sched w)) < dr + MAX_TRANSITIONS_PER_DRIVE - n" "dr \<le> Suc n"
      "Suc n \<le> MAX_TRANSITIONS_PER_DRIVE"
    and Q: "Q (None, dr - 1) w" "Q (None, 0) w"
      "\<And>p w'. hand p w' \<Longrightarrow> lifecycle (sched w') = lifecycle (sched w) \<Longrightarrow> report w' = report w \<Longrightarrow>
        config (sched w') = config (sched w) \<Longrightarrow> active (sched w') = active (sched w) \<Longrightarrow>
        physical (sched w') = physical (sched w) \<Longrightarrow> programmes (sched w') = programmes (sched w) \<Longrightarrow>
        grace (sched w') = grace (sched w) \<Longrightarrow> programme_grace (sched w') = programme_grace (sched w) \<Longrightarrow>
        Suc (length (deferred (sched w'))) \<le> dr - 1 + MAX_TRANSITIONS_PER_DRIVE - n \<Longrightarrow> Q (Some p, dr - 1) w'"
  shows "wp sane (next_candidate dr) Q w"
proof (cases "0 < dr")
  case True
  show ?thesis
  proof (cases "deferred (sched w)")
    case Nil
    then show ?thesis using True Q(1) by (simp add: next_candidate_def wp_simps)
  next
    case (Cons p ps)
    note pop = inv_pop_deferred [OF G [unfolded good_def] Cons]
    have len: "length ps < MAX_TRANSITIONS_PER_DRIVE"
      using bound Cons inv_caps [OF G [unfolded good_def]] by (simp add: caps_ok_def)
    have "hand p (w\<lparr>sched := (sched w)\<lparr>deferred := ps\<rparr>\<rparr>)"
      using pop opened len by (cases "lifecycle (sched w)") (auto simp: hand_def live_def genuine_def)
    then have "Q (Some p, dr - 1) (w\<lparr>sched := (sched w)\<lparr>deferred := ps\<rparr>\<rparr>)"
      by (rule Q(3)) (use True Cons bound in simp_all)
    then show ?thesis using True Cons by (simp add: next_candidate_def wp_simps)
  qed
next
  case False
  then have dr: "dr = 0" by simp
  show ?thesis
  proof (cases "cursor (sched w) < logical_probe_count (plan (sched w))")
    case True
    obtain lid p where draw: "permute (permutation (sched w)) (cursor (sched w)) = Some lid"
      "logical_probe_at (plan (sched w)) lid = Ok p" "genuine (sched w) p"
      "inv_with {#logical_id p#} ((sched w)\<lparr>cursor := cursor (sched w) + 1\<rparr>) (trace w)"
      "lifecycle (sched w) \<notin> {Cancelling, Completed, Failed}"
      using inv_draw [OF G [unfolded good_def] True] opened by auto
    have "hand p (w\<lparr>sched := (sched w)\<lparr>cursor := cursor (sched w) + 1\<rparr>\<rparr>)"
      using draw opened bound dr by (cases "lifecycle (sched w)") (auto simp: hand_def live_def genuine_def)
    then have "Q (Some p, dr - 1) (w\<lparr>sched := (sched w)\<lparr>cursor := cursor (sched w) + 1\<rparr>\<rparr>)"
      by (rule Q(3)) (use dr bound in simp_all)
    then show ?thesis using True draw(1,2) dr by (simp add: next_candidate_def wp_simps)
  next
    case False
    then show ?thesis using dr Q(2) by (simp add: next_candidate_def wp_simps)
  qed
qed

lemma safe_admit_loop:
  assumes "good w" and "lifecycle (sched w) \<notin> {Created, Closed}"
    and "length (deferred (sched w)) \<le> dr + MAX_TRANSITIONS_PER_DRIVE - n" and "dr \<le> n"
    and "n \<le> MAX_TRANSITIONS_PER_DRIVE"
  shows "wp sane (admit_loop env now n dr) (\<lambda>_ w'. good w' \<and> lifecycle (sched w') = lifecycle (sched w)
    \<and> within_one w w') w"
  using assms
proof (induction n arbitrary: w dr)
  case 0
  then show ?case by (simp add: wp_simps)
next
  case (Suc n)
  show ?case
  proof (cases "admit_guard w")
    case False
    then show ?thesis using Suc.prems by (simp add: wp_simps)
  next
    case True
    note guard = True [unfolded admit_guard_def Let_def]
    have room: "has_room (sched w)" using guard_room [OF Suc.prems(1)] guard by simp
    have "wp sane (next_candidate dr) (\<lambda>r w'. wp sane (case r of (cand, dr') \<Rightarrow> case cand of
           None \<Rightarrow> sret ()
         | Some p \<Rightarrow> sbind (admit_one env now p) (\<lambda>go. if go then admit_loop env now n dr' else sret ()))
        (\<lambda>_ w'. good w' \<and> lifecycle (sched w') = lifecycle (sched w) \<and> within_one w w') w') w"
    proof (rule wp_next_candidate [OF Suc.prems(1,2), of dr n], goal_cases)
      case (6 p w')
      have one: "wp sane (admit_one env now p) (\<lambda>_. admitted w') w'"
        using room guard 6(3-9) by (intro safe_admit_one [OF 6(1)]) (simp_all add: has_room_def)
      show ?case
        unfolding prod.case option.case wp_sbind
      proof (rule wp_cons [OF one], goal_cases)
        case (1 go w2)
        have tr: "within_one w w2"
          using 1 6(3) guard by (auto simp: within_one_def admitted_def)
        have "wp sane (admit_loop env now n (dr - 1)) (\<lambda>_ w3. good w3 \<and> lifecycle (sched w3) = lifecycle (sched w2)
            \<and> within_one w2 w3) w2"
          using 1 6(2,10) Suc.prems by (intro Suc.IH) (auto simp: admitted_def)
        then show ?case
          using 1 6(2) tr by (auto simp: admitted_def wp_simps intro: within_one_trans elim!: wp_cons)
      qed
    qed (use Suc.prems in \<open>auto simp: wp_simps\<close>)
    then show ?thesis using True by (simp add: wp_simps del: sane_iff)
  qed
qed

lemma safe_admit:
  assumes "good w" and "lifecycle (sched w) \<notin> {Created, Closed}"
  shows "wp sane (admit env now) (\<lambda>_ w'. good w' \<and> lifecycle (sched w') = lifecycle (sched w)
    \<and> within_one w w') w"
proof -
  have "length (deferred (sched w)) \<le> MAX_TRANSITIONS_PER_DRIVE"
    using caps_deferred [OF inv_caps [OF assms(1) [unfolded good_def]]] .
  then show ?thesis using assms by (simp add: admit_def wp_simps) (rule safe_admit_loop; simp)
qed

end
