(* ===== verification/Scheduler_Frames.thy ===== *)
theory Scheduler_Frames
  imports Scheduler_Admission
begin

text \<open>
  Scheduling of programme variants and emission of frames keep the invariant: a frame
  leaves only against a token, within the retransmission budget of its identifier, and
  never for a probe whose result was committed.
\<close>

section \<open>Scheduling\<close>

lemma find_variant_index:
  assumes "find_variant prog a q fam i = Some (j, v)"
  shows "j < variant_count_for prog a q"
  using assms
proof (induction prog a q fam i rule: find_variant.induct)
  case (1 prog a q fam i)
  then show ?case
    by (subst (asm) (2) find_variant.simps)
      (auto simp: variant_at_for_def variant_count_for_def Let_def split: option.splits if_splits)
qed

definition scheduled :: "('t, 'r, 's) sys \<Rightarrow> ('t, 'r, 's) sys \<Rightarrow> bool" where
  "scheduled w w' \<longleftrightarrow> good w' \<and> mode (sched w') = mode (sched w)
     \<and> transitions (report w') \<le> transitions (report w) + 1"

lemma safe_schedule_physical:
  assumes G: "good w0" and s: "sched w = (sched w0)\<lparr>programme_ready := rest\<rparr>" "trace w = trace w0" "report w = report w0"
    and q: "programme_ready (sched w0) = lid # rest"
    and lg: "bt_get (programmes (sched w0)) lid = Some lg" and room: "has_room (sched w0)"
    and tgt: "count_of (per_target (sched w0)) (target (lg_probe lg)) < max_per_target (config (sched w0))"
    and pfx: "count_of (per_prefix (sched w0)) (prefix_key (lg_context lg)) < max_per_prefix (config (sched w0))"
    and prog: "udp_programme_for (plan (sched w0)) (lg_probe lg) = Some prog"
      "lg_active lg < maximum_concurrent (strategy prog)"
    and index: "index < variant_count lg" and pu: "pu \<noteq> TcpResetCleanup"
  shows "wp sane (schedule_physical lid lg m index v pu) (\<lambda>_. scheduled w0) w"
proof -
  let ?p = "\<lparr>ph_logical_id = lid, ph_variant = v, ph_stage = StagePending pu, ph_transmissions = 0,
      ph_last_sent_at = None\<rparr>"
  let ?s = "sched w0"
  have none: "bt_get (physical ?s) (next_wire_id ?s) = None"
    and inv: "inv (?s\<lparr>next_wire_id := next_wire_id ?s + 1,
      physical := bt_insert (next_wire_id ?s) ?p (physical ?s),
      programmes := bt_adjust lid (\<lambda>v. v\<lparr>next_variant := index + 1, lg_active := lg_active v + 1\<rparr>) (programmes ?s),
      per_target := increment (per_target ?s) (target (lg_probe lg)),
      per_prefix := increment (per_prefix ?s) (prefix_key (lg_context lg)), programme_ready := rdy\<rparr>) (trace w0)"
    if "\<And>x. x \<noteq> lid \<Longrightarrow> x \<in> set (programme_ready ?s) \<Longrightarrow> x \<in> set rdy" for rdy
    using inv_schedule [OF G [unfolded good_def] lg room tgt pfx prog index, of ?p pu rdy] pu that by auto
  have ready: "x \<in> set rest" "x \<in> set (rest @ [lid])" if "x \<noteq> lid" "x \<in> set (programme_ready ?s)" for x
    using that q by auto
  note keep = inv [of rest, OF ready(1)] inv [of "rest @ [lid]", OF ready(2)]
  show ?thesis
    using none [of rest, OF ready(1)] keep good_orderly [OF G] s lg
    by (simp add: schedule_physical_def wp_simps scheduled_def mode_def good_def Let_def result_simps
        split: option.splits) (simp add: inv_with_def)
qed

lemma safe_schedule_one:
  assumes G: "good w" and guard: "schedule_guard w"
  shows "wp sane (schedule_one now) (\<lambda>_. scheduled w) w"
proof (cases "programme_ready (sched w)")
  case Nil
  then show ?thesis using G by (simp add: schedule_one_def wp_simps scheduled_def)
next
  case (Cons lid rest)
  note I = G [unfolded good_def]
  have room: "has_room (sched w)" using guard_room [OF G] guard by (simp add: schedule_guard_def Let_def)
  have drop: "inv ((sched w)\<lparr>programme_ready := rest\<rparr>) (trace w)"
    if "\<And>lg. bt_get (programmes (sched w)) lid = Some lg \<Longrightarrow> waiting_turn rest lid lg"
    using inv_ready [OF I, of rest] Cons that by auto
  have requeue: "inv ((sched w)\<lparr>programme_ready := rest @ [lid]\<rparr>) (trace w)"
    using inv_ready [OF I, of "rest @ [lid]"] Cons by auto
  show ?thesis
  proof (cases "bt_get (programmes (sched w)) lid")
    case None
    then show ?thesis
      using drop Cons by (simp add: schedule_one_def wp_simps scheduled_def mode_def good_def)
  next
    case (Some lg)
    note get = prog_get [OF inv_prog [OF I] Some]
    obtain prog q where prog: "udp_programme_for (plan (sched w)) (lg_probe lg) = Some prog"
      "port (lg_probe lg) = Some q"
      "variant_count lg = variant_count_for prog (target_address (target (lg_probe lg))) q"
      and nb: "neighbor_ready lg \<or> neighbor_setup (lg_context lg) \<noteq> None"
      using get(1) by (auto simp: programme_shape_def)
    let ?f = "\<lambda>v. v\<lparr>next_variant := variant_count lg\<rparr>"
    have "inv ((sched w)\<lparr>programmes := bt_adjust lid ?f (programmes (sched w)), programme_ready := rest\<rparr>) (trace w)"
      by (rule inv_programme_note [OF I Some])
        (use get(1) Cons in \<open>auto simp: waiting_turn_def programme_shape_def\<close>)
    then have skip: "inv ((sched w)\<lparr>programme_ready := rest, programmes := bt_adjust lid ?f (programmes (sched w))\<rparr>) (trace w)"
      by (simp add: inv_with_def)
    let ?fv = "find_variant prog (target_address (target (lg_probe lg))) q (soft_service_family lg) (next_variant lg)"
    have phys: "wp sane (schedule_physical lid lg (maximum_concurrent (strategy prog)) index v pu) (\<lambda>_. scheduled w)
        (w\<lparr>sched := (sched w)\<lparr>programme_ready := rest\<rparr>\<rparr>)"
      if "?fv = Some (index, v)" "pu \<noteq> TcpResetCleanup" "lg_active lg < maximum_concurrent (strategy prog)"
        "count_of (per_target (sched w)) (target (lg_probe lg)) < max_per_target (config (sched w))"
        "count_of (per_prefix (sched w)) (prefix_key (lg_context lg)) < max_per_prefix (config (sched w))"
      for index v pu
      by (rule safe_schedule_physical [OF G _ _ _ Cons Some room that(4,5) prog(1) that(3) _ that(2)])
        (use find_variant_index [OF that(1)] prog(3) in simp_all)
    show ?thesis
      using drop requeue skip Cons Some prog(1,2) nb good_orderly [OF G]
      by (auto simp: schedule_one_def requeue_ready_def wp_simps scheduled_def mode_def good_def Let_def
          waiting_turn_def not_le intro!: phys
          split: option.splits prod.splits)
  qed
qed

lemma safe_schedule_loop:
  "good w \<Longrightarrow> wp sane (schedule_loop now turns) (\<lambda>_ w'. good w' \<and> mode (sched w') = mode (sched w)
     \<and> within_ceiling w w') w"
proof (induction now turns w rule: schedule_loop.induct)
  case (1 now turns w)
  show ?case
  proof (cases "turns > 0 \<and> schedule_guard w")
    case False
    then show ?thesis using 1(2) by (auto simp: wp_def schedule_loop.simps [of now turns w])
  next
    case True
    have one: "wp sane (schedule_one now) (\<lambda>_. scheduled w) w" using safe_schedule_one [OF 1(2)] True by simp
    obtain r w' where r: "schedule_one now w = (r, w')" by (cases "schedule_one now w")
    show ?thesis
    proof (cases r)
      case (Inl e)
      then show ?thesis using one r True by (simp add: wp_def schedule_loop.simps [of now turns w])
    next
      case (Inr again)
      have w': "good w'" "mode (sched w') = mode (sched w)" "within_ceiling w w'"
        using one r Inr True
        by (auto simp: wp_def scheduled_def within_ceiling_def schedule_guard_def Let_def)
      show ?thesis
      proof (cases again)
        case None
        then show ?thesis using w' r Inr True by (simp add: wp_def schedule_loop.simps [of now turns w])
      next
        case (Some a)
        have "wp sane (schedule_loop now (if a then turns else turns - 1)) (\<lambda>_ w''. good w''
            \<and> mode (sched w'') = mode (sched w') \<and> within_ceiling w' w'') w'"
          using 1(1) [OF True r [symmetric] Inr Some w'(1)] .
        then show ?thesis
          using w' r Inr Some True within_ceiling_trans [OF w'(3)]
          by (auto simp: wp_def schedule_loop.simps [of now turns w] split: prod.splits sum.splits)
      qed
    qed
  qed
qed

lemma safe_schedule_variants:
  "good w \<Longrightarrow> wp sane (schedule_programme_variants now) (\<lambda>_ w'. good w' \<and> mode (sched w') = mode (sched w)
     \<and> within_ceiling w w') w"
  by (simp add: schedule_programme_variants_def wp_simps safe_schedule_loop)

section \<open>Tokens\<close>

lemma rate_refill:
  assumes "rate_ok c fr (Some b) sd k" and "refill now b = Ok b'"
  shows "rate_ok c fr (Some b') sd k"
proof -
  obtain t0 where b: "\<not> fr" "bucket_rate b = rate_per_second c" "capacity_scaled b = burst c * TOKEN_SCALE"
    "sd = Some (t0 + session_deadline_after c)" "t0 \<le> last_refill b"
    "k * TOKEN_SCALE + tokens_scaled b \<le> burst c * TOKEN_SCALE + rate_per_second c * (last_refill b - t0)"
    using assms(1) by (auto simp: rate_ok_def)
  have le: "last_refill b \<le> now" and b': "b' = b\<lparr>tokens_scaled :=
      min (saturating_add 128 (tokens_scaled b) ((now - last_refill b) * bucket_rate b)) (capacity_scaled b),
      last_refill := now\<rparr>"
    using assms(2) by (auto simp: refill_def elapsed_since_def checked_sub_def Let_def split: option.splits if_splits)
  have "tokens_scaled b' \<le> tokens_scaled b + (now - last_refill b) * rate_per_second c"
    unfolding b' using b(2) by (simp add: saturating_add_def min_def)
  moreover have "rate_per_second c * (now - t0)
      = rate_per_second c * (last_refill b - t0) + (now - last_refill b) * rate_per_second c"
    using le b(5) by (simp add: add_mult_distrib2 [symmetric] mult.commute)
  ultimately have "k * TOKEN_SCALE + tokens_scaled b' \<le> burst c * TOKEN_SCALE + rate_per_second c * (now - t0)"
    using b(6) by linarith
  then show ?thesis using b le unfolding rate_ok_def by (auto simp: b')
qed

lemma rate_take:
  assumes "rate_ok c fr (Some b) sd k" and "TOKEN_SCALE \<le> tokens_scaled b"
  shows "rate_ok c False (Some (b\<lparr>tokens_scaled := tokens_scaled b - TOKEN_SCALE\<rparr>)) sd (k + 1)"
  using assms by (auto simp: rate_ok_def)

lemma rate_unused:
  "rate_ok c False (Some b) sd (k + 1) \<Longrightarrow> \<not> fr \<Longrightarrow> rate_ok c fr (Some b) sd k"
  by (auto simp: rate_ok_def)

lemma wp_take_token:
  assumes G: "good w"
    and Q: "\<And>ok b. good (w\<lparr>sched := (sched w)\<lparr>bucket := Some b\<rparr>\<rparr>) \<Longrightarrow>
      (ok \<Longrightarrow> rate_ok (config (sched w)) False (Some b) (session_deadline (sched w)) (frames (trace w) + 1)) \<Longrightarrow>
      Q ok (w\<lparr>sched := (sched w)\<lparr>bucket := Some b\<rparr>\<rparr>)"
  shows "wp sane (take_token now) Q w"
proof (cases "bucket (sched w)")
  case None
  then show ?thesis using G good_orderly [OF G] by (simp add: take_token_def wp_simps)
next
  case (Some b)
  note I = G [unfolded good_def]
  have rate: "rate_ok (config (sched w)) (lifecycle (sched w) = Created) (Some b) (session_deadline (sched w)) (frames (trace w))"
    using inv_rate [OF I] Some by simp
  have fr: "lifecycle (sched w) \<noteq> Created" using rate by (auto simp: rate_ok_def)
  have use: "good (w\<lparr>sched := (sched w)\<lparr>bucket := Some b'\<rparr>\<rparr>)"
    if "rate_ok (config (sched w)) (lifecycle (sched w) = Created) (Some b') (session_deadline (sched w)) (frames (trace w))" for b'
    using inv_bucket [OF I that] by (simp add: good_def)
  show ?thesis
  proof (cases "refill now b")
    case (Inl e)
    then have "e = ClockRegressed" by (auto simp: refill_def Let_def split: option.splits)
    then show ?thesis using Inl Some use [OF rate] good_orderly [OF G] by (simp add: take_token_def wp_simps try_take_def)
  next
    case (Inr b')
    note rate' = rate_refill [OF rate Inr]
    show ?thesis
    proof (cases "tokens_scaled b' < TOKEN_SCALE")
      case True
      then show ?thesis
        using Inr Some Q [OF use [OF rate'], of False] by (simp add: take_token_def wp_simps try_take_def)
    next
      case False
      note taken = rate_take [OF rate'] False
      have "Q True (w\<lparr>sched := (sched w)\<lparr>bucket := Some (b'\<lparr>tokens_scaled := tokens_scaled b' - TOKEN_SCALE\<rparr>)\<rparr>\<rparr>)"
        using rate_take [OF rate'] False by (intro Q use rate_unused [OF _ fr]) simp_all
      then show ?thesis using Inr Some False by (simp add: take_token_def wp_simps try_take_def)
    qed
  qed
qed

section \<open>Emission\<close>

lemma busy_life:
  assumes "inv_with H s tr" and "bt_get (active s) i = Some a \<or> bt_get (programmes s) j = Some lg"
  shows "lifecycle s \<notin> {Created, Completed, Failed, Closed}"
proof -
  have "active s \<noteq> [] \<or> programmes s \<noteq> []" using assms(2) by auto
  then show ?thesis using inv_life [OF assms(1)] unfolding life_ok_def by blast
qed

lemma wp_sret_fun: "wp E (sret a) Q = Q a"
  by (simp add: fun_eq_iff wp_simps)

lemma wp_deadline_for:
  assumes "orderly {} (trace w)" and "config_ok (config (sched w))" and "\<And>d. Q d w"
  shows "wp sane (deadline_for now k) Q w"
proof -
  obtain d where "timeout_for (config (sched w)) (rtt (sched w)) k = Ok d" using timeout_for_Ok [OF assms(2)] by blast
  then show ?thesis using assms(1,3) by (simp add: deadline_for_def wp_simps split: option.splits)
qed

lemma inv_config: "inv_with H s tr \<Longrightarrow> config_ok (config s)"
  by (drule inv_fixed) (simp add: fixed_ok_def)

lemma life_untouched [simp]: "frames (tr @ [Emitted em]) = frames tr + 1" "committed (tr @ [Emitted em]) = committed tr"
  "StopRequested \<in> set (tr @ [Emitted em]) \<longleftrightarrow> StopRequested \<in> set tr"
  by simp_all

text \<open>Where an operation may take the session besides leaving its phase alone.\<close>

definition onward :: "('t, 'r, 's) sys \<Rightarrow> ('t, 'r, 's) sys \<Rightarrow> bool" where
  "onward w w' \<longleftrightarrow> lifecycle (sched w') = lifecycle (sched w) \<or> lifecycle (sched w') \<in> {Cancelling, Completed, Failed}"

lemma onward_refl [simp]: "onward w w"
  by (simp add: onward_def)

lemma onward_trans: "onward w w' \<Longrightarrow> onward w' w'' \<Longrightarrow> onward w w''"
  by (auto simp: onward_def)

lemma inv_emit_physical:
  assumes I: "inv_with H s tr" and p: "bt_get (physical s) i = Some p"
    and lg: "bt_get (programmes s) (ph_logical_id p) = Some lg" and stage: "ph_stage p = StagePending pu"
    and em: "em_probe_id em = i" "em_purpose em = pu" "em_probe em = lg_probe lg"
    and f: "\<And>v. ph_logical_id (f v) = ph_logical_id v" "ph_stage (f p) = StageWaiting pu d"
      "ph_transmissions (f p) = ph_transmissions p + 1"
    and rate: "rate_ok (config s) False (bucket s) (session_deadline s) (frames tr + 1)"
  shows "inv_with H (s\<lparr>physical := bt_adjust i f (physical s)\<rparr>) (tr @ [Emitted em])"
    and "orderly {} (tr @ [Emitted em])"
proof -
  have wire: "logical_probe_count (plan s) \<le> i" "i < next_wire_id s"
    using inv_wire [OF I] p by (auto simp: wire_ok_def)
  have act: "bt_get (active s) i = None"
    using active_fresh [OF inv_ids [OF I], of i] wire(1) by (cases "bt_get (active s) i") auto
  have "logical_probe_at (plan s) (ph_logical_id p) = Ok (lg_probe lg)"
    using inv_probe [OF I] lg by (simp add: probe_ok_def)
  then have "logical_id (em_probe em) \<notin> set (committed tr)"
    using genuine_id [OF inv_fixed [OF I]] programme_fresh [OF inv_ids [OF I] lg] em(3) by auto
  from trace_emit [OF inv_trace [OF I] this]
  have trace: "trace_ok (plan s) (length (active s)) (length (programmes s)) (tr @ [Emitted em])" .
  then show "orderly {} (tr @ [Emitted em])" by (simp add: trace_ok_def)
  have "lifecycle s \<noteq> Created" using busy_life [OF I disjI2 [OF lg]] by simp
  then show "inv_with H (s\<lparr>physical := bt_adjust i f (physical s)\<rparr>) (tr @ [Emitted em])"
    using rate f(1)
    by (intro inv_physical_adjust [OF I p] trace
        send_emit_physical [where f = f, OF inv_send [OF I] p stage em(1,2) f(2,3) wire act]) simp_all
qed

lemma inv_emit_active:
  assumes I: "inv_with H s tr" and a: "bt_get (active s) i = Some a" and stage: "ap_stage a = StagePending pu"
    and em: "em_probe_id em = i" "em_purpose em = pu" "em_probe em = ap_probe a"
    and f: "\<And>v. ap_probe (f v) = ap_probe v" "\<And>v. ap_context (f v) = ap_context v"
      "ap_stage (f a) = StageWaiting pu d" "stage_transmissions (f a) = stage_transmissions a + 1"
    and rate: "rate_ok (config s) False (bucket s) (session_deadline s) (frames tr + 1)"
  shows "inv_with H (s\<lparr>active := bt_adjust i f (active s)\<rparr>) (tr @ [Emitted em])"
proof -
  note fresh = active_fresh [OF inv_ids [OF I] a]
  have wire: "logical_probe_count (plan s) \<le> next_wire_id s" using inv_wire [OF I] by (simp add: wire_ok_def)
  have ph: "bt_get (physical s) i = None"
    using inv_wire [OF I] fresh by (cases "bt_get (physical s) i") (auto simp: wire_ok_def)
  have "logical_probe_at (plan s) i = Ok (ap_probe a)" using inv_probe [OF I] a by (simp add: probe_ok_def)
  then have "logical_id (em_probe em) \<notin> set (committed tr)"
    using genuine_id [OF inv_fixed [OF I]] fresh em(3) by auto
  from trace_emit [OF inv_trace [OF I] this]
  have trace: "trace_ok (plan s) (length (active s)) (length (programmes s)) (tr @ [Emitted em])" .
  have "lifecycle s \<noteq> Created" using busy_life [OF I disjI1 [OF a]] by simp
  then show ?thesis
    using rate f(1,2) fresh
    by (intro inv_active_adjust [OF I a] trace
        send_emit_active [where f = f, OF inv_send [OF I] a stage em(1,2) f(3,4) _ wire ph]) simp_all
qed

lemma frame_result:
  "committed [Emitted em, Committed r] = [logical_id (result_probe r)]"
  "reserved_rows [Emitted em, Committed r] = 0" "released_rows [Emitted em, Committed r] = 0"
  "frames [Emitted em, Committed r] = 1" "sent [Emitted em, Committed r] i pu = sent [Emitted em] i pu"
  by (simp_all add: committed_def map_filter_simps reserved_rows_def released_rows_def frames_def sent_def)

lemma orderly_frame_result:
  "orderly {} (tr @ [Emitted em, Committed r]) \<longleftrightarrow>
     orderly {} (tr @ [Emitted em]) \<and> logical_id (result_probe r) \<notin> set (committed tr)"
  using orderly_append(2) [of "tr @ [Emitted em]" r] by simp

text \<open>A cleanup frame may precede the result it belongs to.\<close>

lemma inv_cleanup_frame:
  assumes I: "inv_with H s (tr @ [Committed r])" and em: "em_purpose em = TcpResetCleanup" "em_probe_id em = i"
      "logical_id (em_probe em) \<notin> set (committed tr)"
    and first: "sent tr i TcpResetCleanup = 0" and gone: "bt_get (active s) i = None" "bt_get (physical s) i = None"
    and id: "i = logical_id (result_probe r)" "i < next_wire_id s"
    and rate: "rate_ok (config s) (lifecycle s = Created) (bucket s) (session_deadline s) (frames tr + 1)"
  shows "inv_with H s (tr @ [Emitted em, Committed r])"
proof -
  have sent': "sent (tr @ [Emitted em, Committed r]) =
      (\<lambda>j. if j = i then (sent (tr @ [Committed r]) i)(TcpResetCleanup := 1) else sent (tr @ [Committed r]) j)"
    using em first by (auto simp: fun_eq_iff frame_result)
  have "trace_ok (plan s) (length (active s)) (length (programmes s)) (tr @ [Emitted em, Committed r])"
    using inv_trace [OF I] em by (auto simp: trace_ok_def frame_result orderly_frame_result)
  moreover have "ids_ok H (logical_probe_count (plan s)) (permutation s) (cursor s) (lifecycle s = Closed)
      (deferred s) (active s) (programmes s) (grace s) (tr @ [Emitted em, Committed r])"
    using inv_ids [OF I] by (simp add: ids_ok_def held_def frame_result)
  moreover have "send_ok (max_retransmissions (config s)) (logical_probe_count (plan s)) (lifecycle s = Closed)
      (active s) (physical s) (next_wire_id s) (tr @ [Emitted em, Committed r])"
    using inv_send [OF I] gone id unfolding send_ok_def sent' by (auto simp: frame_result)
  moreover have "life_ok (lifecycle s) (stop s) (bucket s \<noteq> None \<and> session_deadline s \<noteq> None)
      (active s = [] \<and> programmes s = []) (cursor s = logical_probe_count (plan s) \<and> deferred s = [])
      (StopRequested \<in> set (tr @ [Emitted em, Committed r]))"
    using inv_life [OF I] by simp
  moreover have "rate_ok (config s) (lifecycle s = Created) (bucket s) (session_deadline s)
      (frames (tr @ [Emitted em, Committed r]))"
    using rate by (simp add: frame_result)
  ultimately show ?thesis using inv_parts [OF I] by (simp add: inv_with_def)
qed

definition stepped :: "('t, 'r, 's) sys \<Rightarrow> bool \<Rightarrow> ('t, 'r, 's) sys \<Rightarrow> bool" where
  "stepped w go w' \<longleftrightarrow> good w' \<and>
     (if go then mode (sched w') = mode (sched w) \<and> bt_keys (physical (sched w')) = bt_keys (physical (sched w))
        \<and> transitions (report w') \<le> transitions (report w) + 1
      else onward w w' \<and> within_ceiling w w')"

lemma budget_fits:
  assumes "inv_with H s tr" and "stage_budget (max_retransmissions (config s)) f st n" and "\<forall>t. st \<noteq> StagePendingCleanup t"
  shows "saturating_add 8 n 1 = n + 1"
  using inv_fixed [OF assms(1)] assms(2,3)
  by (auto simp: fixed_ok_def config_ok_def bounds_defs stage_budget_def saturating_add_def max_of_def
      split: ActiveStage.splits)

lemma send_get:
  assumes "send_ok lim n cl act ph nx tr"
  shows send_get_active: "bt_get act i = Some a \<Longrightarrow> stage_budget lim (sent tr i) (ap_stage a) (stage_transmissions a)"
    and send_get_physical: "bt_get ph i = Some p \<Longrightarrow> stage_budget lim (sent tr i) (ph_stage p) (ph_transmissions p)"
  using assms unfolding send_ok_def by blast+

lemma safe_note_sent:
  assumes G: "good w" and lg: "bt_get (programmes (sched w)) (ph_logical_id p) = Some lg"
  shows "wp sane (note_programme_sent p) (\<lambda>_ w'. good w' \<and> mode (sched w') = mode (sched w)
    \<and> physical (sched w') = physical (sched w) \<and> report w' = report w) w"
proof -
  note I = G [unfolded good_def]
  note pg = prog_get [OF inv_prog [OF I] lg]
  have "inv ((sched w)\<lparr>programmes := bt_adjust (ph_logical_id p) (\<lambda>g. g\<lparr>lg_transmissions := n, attempted := h g\<rparr>)
      (programmes (sched w)), programme_ready := programme_ready (sched w)\<rparr>) (trace w)" for n h
    by (rule inv_programme_note [OF I lg])
      (use pg in \<open>auto simp: waiting_turn_def intro: shape_keep [OF pg(1)]\<close>)
  then show ?thesis
    using good_orderly [OF G]
    by (simp add: note_programme_sent_def wp_simps lg good_def mode_def split: option.splits)
qed

lemma safe_emit_physical:
  assumes G: "good w" and p: "bt_get (physical (sched w)) i = Some p"
  shows "wp sane (emit_physical env now i) (stepped w) w"
  unfolding emit_physical_def
proof (simp add: wp_simps, rule wp_take_token [OF G], goal_cases)
  case (1 ok b)
  let ?w = "w\<lparr>sched := (sched w)\<lparr>bucket := Some b\<rparr>\<rparr>"
  note I = 1(1) [unfolded good_def]
  obtain lg where lg: "bt_get (programmes (sched w)) (ph_logical_id p) = Some lg"
    using link_get [OF inv_link [OF G [unfolded good_def]] p] by blast
  have stay: "stepped w go ?w" for go
    using 1(1) by (simp add: stepped_def mode_def onward_def within_ceiling_def)
  have live: "lifecycle (sched w) \<noteq> Closed" using busy_life [OF G [unfolded good_def] disjI2 [OF lg]] by simp
  have fail: "wp sane (fail_transport env now code) (\<lambda>_. stepped w False) (?w\<lparr>transport := t\<rparr>)" for code t
    by (rule wp_cons [OF safe_fail_transport])
      (use 1(1) live in \<open>auto simp: good_def stepped_def onward_def within_ceiling_def\<close>)
  have sentv: "wp sane (sbind (deadline_for now (ph_transmissions p)) (\<lambda>deadline.
         sthen (upd_physical i (\<lambda>p. p\<lparr>ph_transmissions := saturating_add 8 (ph_transmissions p) 1,
             ph_stage := StageWaiting pu deadline,
             ph_last_sent_at := (if pu = Probe then Some now else ph_last_sent_at p)\<rparr>)) (
         sthen (swhen (pu = Probe) (note_programme_sent p)) (
         sthen bump_emissions (sthen bump_transitions (sret True)))))) (stepped w)
       (?w\<lparr>transport := t, trace := trace w @ [Emitted (physical_emission i p lg pu)]\<rparr>)"
    if stage: "ph_stage p = StagePending pu" and ok for pu t
  proof -
    let ?f = "\<lambda>d p. p\<lparr>ph_transmissions := saturating_add 8 (ph_transmissions p) 1,
             ph_stage := StageWaiting pu d,
             ph_last_sent_at := (if pu = Probe then Some now else ph_last_sent_at p)\<rparr>"
    have fits: "saturating_add 8 (ph_transmissions p) 1 = ph_transmissions p + 1"
      by (rule budget_fits [OF I send_get_physical [OF inv_send [OF I]]]) (use p stage in simp_all)
    have em: "inv ((sched ?w)\<lparr>physical := bt_adjust i (?f d) (physical (sched ?w))\<rparr>)
        (trace w @ [Emitted (physical_emission i p lg pu)])"
      "orderly {} (trace w @ [Emitted (physical_emission i p lg pu)])" for d
      using inv_emit_physical [where f = "?f d" and d = d and em = "physical_emission i p lg pu",
          OF I _ _ stage] p lg fits 1(2) [OF \<open>ok\<close>]
      by (simp_all add: physical_emission_def)
    show ?thesis
      apply (simp only: wp_simps)
      apply (rule wp_deadline_for)
        apply (use em(2) in simp)
       apply (use inv_config [OF I] in simp)
      subgoal for d
        using em(1) [of d] p lg
        by (auto simp: wp_simps stepped_def good_def mode_def
            intro!: wp_cons [OF safe_note_sent [where lg = lg]])
      done
  qed
  show ?case
    using p lg stay fail sentv 1
    by (auto simp: wp_simps wp_sret_fun split: ActiveStage.splits prod.splits sum.splits)
qed

lemma safe_emit_programme_pending:
  fixes w :: "('t, 'r, 's) sys"
  assumes G: "good w"
  shows "wp sane (emit_programme_pending env now) (\<lambda>_ w'. good w' \<and> onward w w' \<and> within_ceiling w w') w"
  unfolding emit_programme_pending_def
proof (simp only: wp_simps, rule wp_sloop [where I = "\<lambda>ids w'. good w' \<and> lifecycle (sched w') = lifecycle (sched w)
    \<and> set ids \<subseteq> set (bt_keys (physical (sched w')))
    \<and> transitions (report w') + length ids \<le> max (transitions (report w)) MAX_TRANSITIONS_PER_DRIVE"])
  show "good w \<and> lifecycle (sched w) = lifecycle (sched w)
    \<and> set (take (remaining w) (map fst (filter (\<lambda>e. is_pending (ph_stage (snd e))) (physical (sched w)))))
      \<subseteq> set (bt_keys (physical (sched w)))
    \<and> transitions (report w) + length (take (remaining w) (map fst (filter (\<lambda>e. is_pending (ph_stage (snd e)))
      (physical (sched w))))) \<le> max (transitions (report w)) MAX_TRANSITIONS_PER_DRIVE"
    using G set_take_filter [of "remaining w" _ "physical (sched w)"] by (intro conjI) (simp_all add: remaining_def)
next
  fix x xs and w' :: "('t, 'r, 's) sys"
  assume J: "good w' \<and> lifecycle (sched w') = lifecycle (sched w)
    \<and> set (x # xs) \<subseteq> set (bt_keys (physical (sched w')))
    \<and> transitions (report w') + length (x # xs) \<le> max (transitions (report w)) MAX_TRANSITIONS_PER_DRIVE"
  then have "x \<in> set (bt_keys (physical (sched w')))" by simp
  from bt_key_get [OF this] obtain p where p: "bt_get (physical (sched w')) x = Some p" ..
  show "wp sane (emit_physical env now x) (\<lambda>go w''. if go then good w'' \<and> lifecycle (sched w'') = lifecycle (sched w)
      \<and> set xs \<subseteq> set (bt_keys (physical (sched w'')))
      \<and> transitions (report w'') + length xs \<le> max (transitions (report w)) MAX_TRANSITIONS_PER_DRIVE
    else good w'' \<and> onward w w'' \<and> within_ceiling w w'') w'"
    by (rule wp_cons [OF safe_emit_physical [OF _ p]])
      (use J in \<open>auto simp: stepped_def onward_def within_ceiling_def dest: mode_eqD(4) split: if_splits\<close>)
qed (auto simp: onward_def within_ceiling_def)

lemma wp_frame_variant:
  assumes "good w" and "bt_get (active (sched w)) i = Some a" and "\<And>v. Q v w"
  shows "wp sane (frame_variant (ap_probe a)) Q w"
proof -
  note I = assms(1) [unfolded good_def]
  have "plan_ok (plan (sched w))" using inv_fixed [OF I] by (simp add: fixed_ok_def)
  moreover have "logical_probe_at (plan (sched w)) i = Ok (ap_probe a)"
    using inv_probe [OF I] assms(2) by (simp add: probe_ok_def)
  ultimately show ?thesis
    using udp_port [of "plan (sched w)" i "ap_probe a"] assms(3)
    by (cases "udp_programme_for (plan (sched w)) (ap_probe a)") (auto simp: frame_variant_def wp_simps)
qed

text \<open>The state in which a frame of a single probe goes out.\<close>

lemma wp_frame_start:
  assumes G: "good w" and a: "bt_get (active (sched w)) i = Some a"
    and stay: "\<And>b. good (w\<lparr>sched := (sched w)\<lparr>bucket := b\<rparr>\<rparr>) \<Longrightarrow> Q False (w\<lparr>sched := (sched w)\<lparr>bucket := b\<rparr>\<rparr>)"
    and next_step: "\<And>v w' g. good w' \<Longrightarrow> mode (sched w') = mode (sched w) \<Longrightarrow>
        active (sched w') = bt_adjust i g (active (sched w)) \<Longrightarrow>
        (\<And>x. ap_probe (g x) = ap_probe x \<and> ap_context (g x) = ap_context x \<and> ap_stage (g x) = ap_stage x
          \<and> stage_transmissions (g x) = stage_transmissions x) \<Longrightarrow>
        trace w' = trace w \<Longrightarrow> report w' = report w \<Longrightarrow>
        rate_ok (config (sched w')) False (bucket (sched w')) (session_deadline (sched w')) (frames (trace w) + 1) \<Longrightarrow>
        wp sane (m v) Q w'"
  shows "wp sane (sbind (take_token now) (\<lambda>ok. if \<not> ok then sret False
       else sbind (frame_variant (ap_probe a)) (\<lambda>v.
         sthen (upd_active i (\<lambda>t. if c then t\<lparr>total_transmissions := h t\<rparr> else t)) (m v)))) Q w"
proof (simp add: wp_simps, rule wp_take_token [OF G], goal_cases)
  case (1 ok b)
  let ?w = "w\<lparr>sched := (sched w)\<lparr>bucket := Some b\<rparr>\<rparr>"
  let ?g = "\<lambda>t. if c then t\<lparr>total_transmissions := h t\<rparr> else t"
  note I = 1(1) [unfolded good_def]
  have a': "bt_get (active (sched ?w)) i = Some a" using a by simp
  have "inv ((sched ?w)\<lparr>active := bt_adjust i ?g (active (sched ?w))\<rparr>) (trace ?w)"
    by (rule inv_active_adjust [OF I a'])
      (use inv_trace [OF I] inv_rate [OF I] send_adjust_active [where f = ?g, OF inv_send [OF I] a']
        send_get_active [OF inv_send [OF I] a'] in simp_all)
  then have g: "good (w\<lparr>sched := (sched w)\<lparr>bucket := Some b, active := bt_adjust i ?g (active (sched w))\<rparr>\<rparr>)"
    by (simp add: good_def)
  have "wp sane (m v) Q (w\<lparr>sched := (sched w)\<lparr>bucket := Some b, active := bt_adjust i ?g (active (sched w))\<rparr>\<rparr>)" if ok for v
    by (rule next_step [where g = ?g]) (use g 1(2) that in \<open>simp_all add: mode_def\<close>)
  then have sendv: "wp sane (frame_variant (ap_probe a)) (\<lambda>v. wp sane (sthen (upd_active i ?g) (m v)) Q) ?w" if ok
    using that a by (intro wp_frame_variant [OF 1(1) a']) (simp add: wp_simps)
  then show ?case
    using stay [of "Some b"] 1(1) by (cases ok) (simp_all add: wp_simps)
qed

lemma safe_emit_probe:
  assumes G: "good w" and a: "bt_get (active (sched w)) i = Some a" and stage: "ap_stage a = StagePending pu"
    and room: "transitions (report w) < MAX_TRANSITIONS_PER_DRIVE"
  shows "wp sane (emit_frame env now i a pu None) (\<lambda>_ w'. good w' \<and> onward w w' \<and> within_one w w') w"
  unfolding emit_frame_def
proof (rule wp_frame_start [OF G a], goal_cases)
  case (1 b)
  then show ?case by (simp add: onward_def within_one_def)
next
  case (2 v w' g)
  note I = 2(1) [unfolded good_def] and life = mode_eqD(4) [OF 2(2)]
  let ?em = "active_emission i a pu v"
  have live: "lifecycle (sched w') \<noteq> Closed" using busy_life [OF G [unfolded good_def] disjI1 [OF a]] life by simp
  have a': "bt_get (active (sched w')) i = Some (g a)" using 2(3) a by simp
  have stage': "ap_stage (g a) = StagePending pu" using 2(4) stage by simp
  let ?f = "\<lambda>d t. t\<lparr>stage_transmissions := saturating_add 8 (stage_transmissions t) 1,
           last_probe_sent_at := (if pu = Probe then Some now else last_probe_sent_at t),
           ap_stage := StageWaiting pu d\<rparr>"
  have fits: "saturating_add 8 (stage_transmissions (g a)) 1 = stage_transmissions (g a) + 1"
    by (rule budget_fits [OF I send_get_active [OF inv_send [OF I] a']]) (use stage' in simp)
  have em: "inv ((sched w')\<lparr>active := bt_adjust i (?f d) (active (sched w'))\<rparr>) (trace w' @ [Emitted ?em])" for d
    by (rule inv_emit_active [where d = d, OF I a' stage'])
      (use 2(4,5,7) fits in \<open>simp_all add: active_emission_def\<close>)
  then have ord: "orderly {} (trace w' @ [Emitted ?em])" using inv_trace trace_ok_def by blast
  have fail: "wp sane (fail_transport env now code) (\<lambda>_ w''. good w'' \<and> onward w w'' \<and> within_one w w'') (w'\<lparr>transport := t\<rparr>)"
    for code t
    by (rule wp_cons [OF safe_fail_transport])
      (use 2 live life room in \<open>auto simp: good_def onward_def within_ceiling_def within_one_def\<close>)
  have timer: "wp sane (deadline_for now k) Q w''" if "trace w'' = trace w' @ [Emitted ?em]"
      "config (sched w'') = config (sched w')" "\<And>d. Q d w''" for k Q w''
    using that ord inv_config [OF I] by (intro wp_deadline_for) simp_all
  show ?case
    using fail em a' 2(6) life room
    by (auto simp: wp_simps wp_sret_fun good_def onward_def within_one_def intro!: timer split: prod.splits sum.splits)
qed

lemma safe_emit_cleanup:
  fixes w :: "('t, 'r, 's) sys"
  assumes G: "good w" and a: "bt_get (active (sched w)) i = Some a" and stage: "ap_stage a = StagePendingCleanup t"
    and room: "transitions (report w) < MAX_TRANSITIONS_PER_DRIVE"
  shows "wp sane (emit_frame env now i a TcpResetCleanup (Some t)) (\<lambda>_ w'. good w' \<and> onward w w' \<and> within_one w w') w"
  unfolding emit_frame_def
proof (rule wp_frame_start [OF G a], goal_cases)
  case (1 b)
  then show ?case by (simp add: onward_def within_one_def)
next
  case (2 v w' g)
  note I = 2(1) [unfolded good_def] and life = mode_eqD(4) [OF 2(2)]
  let ?em = "active_emission i a TcpResetCleanup v"
  have a': "bt_get (active (sched w')) i = Some (g a)" using 2(3) a by simp
  have live: "lifecycle (sched w') \<notin> {Created, Completed, Failed, Closed}"
    by (rule busy_life [OF I disjI1 [OF a']])
  have first: "sent (trace w') i TcpResetCleanup = 0"
    using send_get_active [OF inv_send [OF I] a'] by (simp add: stage_budget_def)
  have "logical_probe_at (plan (sched w')) i = Ok (ap_probe (g a))"
    using inv_probe [OF I] a' by (simp add: probe_ok_def)
  then have pid: "logical_id (ap_probe a) = i" using genuine_id [OF inv_fixed [OF I]] 2(4) by auto
  note fresh = active_fresh [OF inv_ids [OF I] a']
  have wire: "i < next_wire_id (sched w')" "bt_get (physical (sched w')) i = None"
    using inv_wire [OF I] fresh by (cases "bt_get (physical (sched w')) i"; auto simp: wire_ok_def)+
  have wf: "bt_wf (active (sched w'))" using inv_tables [OF I] by (simp add: tables_ok_def)
  have ord: "orderly {} (trace w' @ [Emitted ?em])"
    using good_orderly [OF 2(1)] fresh pid by (simp add: active_emission_def)
  have fail: "wp sane (terminalize env i now t True) (\<lambda>_. wp sane (sthen (fail_transport env now code) (sret False))
      (\<lambda>_ w''. good w'' \<and> onward w w'' \<and> within_one w w'')) (w'\<lparr>transport := t'\<rparr>)" for code t'
    by (rule wp_cons [OF safe_terminalize], use 2(1) a' in \<open>simp_all add: good_def\<close>)
      (simp add: wp_simps, rule wp_cons [OF safe_fail_transport],
        use 2 live life room in \<open>auto simp: wp_simps good_def onward_def within_ceiling_def within_one_def dest: mode_eqD(4)\<close>)
  have done': "wp sane (terminalize env i now t True) (\<lambda>_ w''. good w'' \<and> onward w w'' \<and> within_one w w'') w2"
    if w2: "sched w2 = sched w'" "trace w2 = trace w' @ [Emitted ?em]"
      "transitions (report w2) = transitions (report w') + 1" for w2 :: "('t, 'r, 's) sys"
  proof (rule wp_terminalize [of "{#}" w2 "trace w'" i "g a"], goal_cases)
    case (4 w3 s3)
    have "inv s3 (trace w' @ [Committed (call_terminal_result (g a) now t)])" using 4(12) [of "{#}" "trace w'"] I w2 by simp
    then have "inv s3 (trace w' @ [Emitted ?em, Committed (call_terminal_result (g a) now t)])"
    proof (rule inv_cleanup_frame [where i = i])
      show "logical_id (em_probe ?em) \<notin> set (committed (trace w'))" using fresh pid by (simp add: active_emission_def)
      show "i = logical_id (result_probe (call_terminal_result (g a) now t))"
        using pid 2(4) by (simp add: call_terminal_result_def)
      show "rate_ok (config s3) (lifecycle s3 = Created) (bucket s3) (session_deadline s3) (frames (trace w') + 1)"
        using 2(5,7) live w2 4 by (simp add: mode_def)
    qed (use first wire wf w2 4 in \<open>simp_all add: active_emission_def\<close>)
    then show ?case using 4 w2 life 2(6) room by (auto simp: good_def onward_def within_one_def dest: mode_eqD(4))
  qed (use I a' w2 ord in \<open>simp_all add: breaking_clean\<close>)
  show ?case
    using fail done' by (auto simp: wp_simps wp_sret_fun split: prod.splits sum.splits)
qed

lemma safe_emit_active:
  assumes G: "good w"
  shows "wp sane (emit_active env now i) (\<lambda>_ w'. good w' \<and> onward w w' \<and> within_one w w') w"
  unfolding emit_active_def
  using G safe_emit_probe [OF G] safe_emit_cleanup [OF G]
  by (auto simp: wp_simps within_one_def split: option.splits ActiveStage.splits)

lemma safe_emit_pending:
  fixes w :: "('t, 'r, 's) sys"
  assumes G: "good w"
  shows "wp sane (emit_pending env now) (\<lambda>_ w'. good w' \<and> onward w w' \<and> within_one w w') w"
proof -
  have loop: "wp sane (sloop (emit_active env now) ids) (\<lambda>_ w''. good w'' \<and> onward w w'' \<and> within_one w w'') w'"
    if "good w'" "onward w w'" "within_one w w'" for w' :: "('t, 'r, 's) sys" and ids
  proof (rule wp_sloop [where I = "\<lambda>_ w'. good w' \<and> onward w w' \<and> within_one w w'"])
    fix x xs and w2 :: "('t, 'r, 's) sys"
    assume J: "good w2 \<and> onward w w2 \<and> within_one w w2"
    show "wp sane (emit_active env now x) (\<lambda>go w'. if go then good w' \<and> onward w w' \<and> within_one w w'
        else good w' \<and> onward w w' \<and> within_one w w') w2"
      by (rule wp_cons [OF safe_emit_active]) (use J onward_trans within_one_trans in auto)
  qed (use that in auto)
  show ?thesis
    unfolding emit_pending_def
  proof (simp only: wp_simps, rule wp_cons [OF safe_schedule_variants [OF G]], elim conjE, goal_cases)
    case (1 u w1)
    show ?case
    proof (simp only: wp_simps, rule wp_cons [OF safe_emit_programme_pending [OF 1(1)]], elim conjE, goal_cases)
      case (1 u w2)
      then show ?case
        unfolding wp_simps
        using \<open>mode (sched w1) = mode (sched w)\<close> \<open>within_ceiling w w1\<close>
        by (intro loop) (auto simp: onward_def dest: mode_eqD(4) intro: ceiling_one within_ceiling_trans)
    qed
  qed
qed

end
