(* ===== verification/Scheduler_Clock.thy ===== *)
theory Scheduler_Clock
  imports Scheduler_Frames
begin

text \<open>
  What the clock causes: retransmission or retirement of waiting frames, expiry of grace
  windows and the settling of programmes whose correlations are over.
\<close>

section \<open>Small changes of state\<close>

text \<open>Nothing changes but the notes kept in a programme, the pacing state and the diagnostics.\<close>

definition quiet :: "('t, 'r, 's) sys \<Rightarrow> ('t, 'r, 's) sys \<Rightarrow> bool" where
  "quiet w w' \<longleftrightarrow> mode (sched w') = mode (sched w) \<and> active (sched w') = active (sched w)
     \<and> physical (sched w') = physical (sched w) \<and> programme_grace (sched w') = programme_grace (sched w)
     \<and> bt_keys (programmes (sched w')) = bt_keys (programmes (sched w)) \<and> report w' = report w"

lemma quiet_refl [simp]: "quiet w w"
  by (simp add: quiet_def)

lemma quiet_trans: "quiet w w' \<Longrightarrow> quiet w' w'' \<Longrightarrow> quiet w w''"
  by (simp add: quiet_def)

lemma quiet_programme:
  assumes "quiet w w'" and "bt_get (programmes (sched w)) lid = Some lg"
  obtains lg' where "bt_get (programmes (sched w')) lid = Some lg'"
  using assms bt_get_None_iff [of "programmes (sched w)" lid] bt_get_None_iff [of "programmes (sched w')" lid]
  by (cases "bt_get (programmes (sched w')) lid") (auto simp: quiet_def)

lemma safe_note_programme:
  assumes G: "good w" and lg: "bt_get (programmes (sched w)) lid = Some lg"
    and f: "\<And>v. lg_probe (f v) = lg_probe v" "\<And>v. lg_context (f v) = lg_context v"
      "\<And>v. lg_active (f v) = lg_active v" "\<And>v. lg_grace (f v) = lg_grace v"
      "variant_count (f lg) = variant_count lg" "next_variant (f lg) = next_variant lg"
      "neighbor_ready (f lg) = neighbor_ready lg" "stop_unsent lg \<Longrightarrow> stop_unsent (f lg)"
  shows "wp sane (upd_programme lid f) (\<lambda>_ w'. good w' \<and> quiet w w') w"
proof -
  note I = G [unfolded good_def]
  note pg = prog_get [OF inv_prog [OF I] lg]
  have "inv ((sched w)\<lparr>programmes := bt_adjust lid f (programmes (sched w)),
      programme_ready := programme_ready (sched w)\<rparr>) (trace w)"
    by (rule inv_programme_note [OF I lg f(1-4) shape_keep [OF pg(1)]])
      (use pg f in \<open>auto simp: waiting_turn_def\<close>)
  then show ?thesis by (simp add: wp_simps lg good_def quiet_def mode_def)
qed

lemma safe_stop_programme:
  assumes "good w" and "bt_get (programmes (sched w)) lid = Some lg"
  shows "wp sane (stop_programme lid) (\<lambda>_ w'. good w' \<and> quiet w w') w"
  unfolding stop_programme_def by (rule safe_note_programme [OF assms]) simp_all

lemma wp_programme_strategy:
  assumes "good w" and "bt_get (programmes (sched w)) lid = Some lg" and "\<And>st. Q st w"
  shows "wp sane (programme_strategy lid) Q w"
  using prog_get(1) [OF inv_prog [OF assms(1) [unfolded good_def]] assms(2)] assms(2,3)
  by (auto simp: programme_strategy_def wp_simps programme_shape_def)

lemma safe_pace_target:
  assumes G: "good w"
  shows "wp sane (pace_target now t) (\<lambda>_ w'. good w' \<and> quiet w w') w"
  using G good_orderly [OF G]
  by (simp add: pace_target_def wp_simps good_def quiet_def mode_def split: option.splits)

lemma good_restage_physical:
  assumes G: "good w" and p: "bt_get (physical (sched w)) i = Some p"
    and f: "\<And>v. ph_logical_id (f v) = ph_logical_id v"
      "stage_budget (max_retransmissions (config (sched w))) (sent (trace w) i) (ph_stage (f p)) (ph_transmissions (f p))"
  shows "inv ((sched w)\<lparr>physical := bt_adjust i f (physical (sched w))\<rparr>) (trace w)"
  using G inv_trace inv_rate f
  by (intro inv_physical_adjust [OF G [unfolded good_def] p] send_adjust_physical [OF inv_send p])
    (simp_all add: good_def)

lemma good_restage_active:
  assumes G: "good w" and a: "bt_get (active (sched w)) i = Some a"
    and f: "\<And>v. ap_probe (f v) = ap_probe v" "\<And>v. ap_context (f v) = ap_context v"
      "stage_budget (max_retransmissions (config (sched w))) (sent (trace w) i) (ap_stage (f a)) (stage_transmissions (f a))"
  shows "inv ((sched w)\<lparr>active := bt_adjust i f (active (sched w))\<rparr>) (trace w)"
  using G inv_trace inv_rate f
  by (intro inv_active_adjust [OF G [unfolded good_def] a] send_adjust_active [OF inv_send a])
    (simp_all add: good_def)

section \<open>Retirement\<close>

lemma safe_retire:
  assumes G: "good w" and p: "bt_get (physical (sched w)) wire = Some p"
  shows "wp sane (retire_physical wire now) (\<lambda>_ w'. good w' \<and> mode (sched w') = mode (sched w)
    \<and> active (sched w') = active (sched w)
    \<and> bt_keys (physical (sched w')) = removeAll wire (bt_keys (physical (sched w)))
    \<and> bt_keys (programmes (sched w')) = bt_keys (programmes (sched w))
    \<and> transitions (report w') = transitions (report w) + 1) w"
proof -
  note I = G [unfolded good_def]
  obtain lg where lg: "bt_get (programmes (sched w)) (ph_logical_id p) = Some lg" and pos: "0 < lg_active lg"
    using link_get [OF inv_link [OF I] p] by blast
  let ?lid = "ph_logical_id p" and ?waiting = "programme_ready (sched w)"
  let ?rdy = "if \<not> stop_unsent lg \<and> next_variant lg < variant_count lg \<and> ?lid \<notin> set ?waiting
      then ?waiting @ [?lid] else ?waiting"
  have dec1: "checked_sub (lg_active lg) 1 = Some (lg_active lg - 1)" using pos by (simp add: checked_sub_def)
  have ready: "set ?waiting \<subseteq> set ?rdy"
    "\<not> stop_unsent lg \<Longrightarrow> next_variant lg < variant_count lg \<Longrightarrow> ?lid \<in> set ?rdy" by auto
  define g where "g expires = \<lparr>pg_logical_id = ?lid, pg_expires = expires, pg_variant = ph_variant p,
      pg_last_sent_at = ph_last_sent_at p\<rparr>" for expires
  have owner: "pg_logical_id (g expires) = ?lid" for expires by (simp add: g_def)
  obtain pt pp where dec: "decrement (per_target (sched w)) (target (lg_probe lg)) = Some pt"
    "decrement (per_prefix (sched w)) (prefix_key (lg_context lg)) = Some pp"
    by (rule inv_retire [OF I p refl lg owner ready])
  have ret: "inv ((sched w)\<lparr>physical := bt_remove wire (physical (sched w)),
      programmes := bt_adjust ?lid (\<lambda>v. v\<lparr>lg_active := lg_active lg - 1, lg_grace := lg_grace v + 1\<rparr>)
        (programmes (sched w)), per_target := pt, per_prefix := pp,
      programme_grace := bt_insert wire (g expires) (programme_grace (sched w)), programme_ready := ?rdy\<rparr>) (trace w)"
    for expires
  proof (rule inv_retire [OF I p refl lg owner ready, of expires])
    fix pt' pp'
    assume "decrement (per_target (sched w)) (target (lg_probe lg)) = Some pt'"
      "decrement (per_prefix (sched w)) (prefix_key (lg_context lg)) = Some pp'"
      and i: "inv ((sched w)\<lparr>physical := bt_remove wire (physical (sched w)),
      programmes := bt_adjust ?lid (\<lambda>v. v\<lparr>lg_active := lg_active lg - 1, lg_grace := lg_grace v + 1\<rparr>)
        (programmes (sched w)), per_target := pt', per_prefix := pp',
      programme_grace := bt_insert wire (g expires) (programme_grace (sched w)), programme_ready := ?rdy\<rparr>) (trace w)"
    then have "pt' = pt" "pp' = pp" using dec by simp_all
    then show ?thesis using i by simp
  qed
  show ?thesis
    using good_orderly [OF G] p lg dec dec1 ret [unfolded g_def]
    by (auto simp: retire_physical_def wp_simps good_def mode_def bt_keys_remove split: option.splits)
qed

lemma budget_retry:
  assumes "stage_budget lim f (StageWaiting pu d) n" and "n - 1 < lim"
  shows "stage_budget lim f (StagePending pu) n"
  using assms by (auto simp: stage_budget_def)

lemma safe_timeout_programme:
  assumes G: "good w" and p: "bt_get (physical (sched w)) wire = Some p"
  shows "wp sane (timeout_programme_one wire now) (\<lambda>_ w'. good w' \<and> mode (sched w') = mode (sched w)
    \<and> active (sched w') = active (sched w)
    \<and> set (bt_keys (physical (sched w))) - {wire} \<subseteq> set (bt_keys (physical (sched w')))
    \<and> transitions (report w') \<le> transitions (report w) + 1) w"
proof (cases "ph_stage p")
  case (StageWaiting pu d)
  note I = G [unfolded good_def]
  obtain lg where lg: "bt_get (programmes (sched w)) (ph_logical_id p) = Some lg"
    using link_get [OF inv_link [OF I] p] by blast
  have budget: "stage_budget (max_retransmissions (config (sched w))) (sent (trace w) wire) (StageWaiting pu d) (ph_transmissions p)"
    using send_get_physical [OF inv_send [OF I] p] StageWaiting by simp
  have ret: "wp sane (retire_physical wire now) (\<lambda>_ w2. good w2 \<and> mode (sched w2) = mode (sched w)
    \<and> active (sched w2) = active (sched w)
    \<and> set (bt_keys (physical (sched w))) - {wire} \<subseteq> set (bt_keys (physical (sched w2)))
    \<and> transitions (report w2) \<le> transitions (report w) + 1) w'" if "good w'" "quiet w w'" for w'
    by (rule wp_cons [OF safe_retire [OF that(1)]]) (use that(2) p in \<open>auto simp: quiet_def\<close>)
  have hush: "wp sane (case pu of NeighborSetup _ \<Rightarrow> stop_programme (ph_logical_id p)
      | _ \<Rightarrow> sbind (programme_strategy (ph_logical_id p)) (\<lambda>st. swhen (st = AdaptiveStrategy) (
          sbind (get_programme (ph_logical_id p)) (\<lambda>lg. pace_target now (target (lg_probe lg)))))) Q w"
    if "\<And>w'. good w' \<and> quiet w w' \<Longrightarrow> Q () w'" for Q
    using that G lg
    by (auto simp: wp_simps lg intro!: wp_cons [OF safe_stop_programme [OF G lg]]
        wp_programme_strategy [OF G lg] wp_cons [OF safe_pace_target [OF G]] split: EmissionPurpose.splits)
  show ?thesis
  proof (cases "ph_transmissions p - 1 < max_retransmissions (config (sched w))")
    case True
    have "inv ((sched w)\<lparr>physical := bt_adjust wire (\<lambda>p. p\<lparr>ph_stage := StagePending pu\<rparr>) (physical (sched w))\<rparr>) (trace w)"
      by (rule good_restage_physical [OF G p]) (use budget_retry [OF budget True] in simp_all)
    then show ?thesis
      using True StageWaiting p
      by (auto simp: timeout_programme_one_def wp_simps good_def mode_def simp del: set_map)
  next
    case False
    then show ?thesis
      using StageWaiting p by (simp del: set_map add: timeout_programme_one_def wp_simps)
        (rule hush, use ret in simp)
  qed
qed (use G p in \<open>simp_all add: timeout_programme_one_def wp_simps\<close>)

lemma safe_timeout_one:
  assumes G: "good w" and a: "bt_get (active (sched w)) i = Some a"
  shows "wp sane (timeout_one env i now) (\<lambda>_ w'. good w' \<and> mode (sched w') = mode (sched w)
    \<and> set (bt_keys (active (sched w))) - {i} \<subseteq> set (bt_keys (active (sched w')))
    \<and> transitions (report w') \<le> transitions (report w) + 1) w"
proof (cases "ap_stage a")
  case (StageWaiting pu d)
  note I = G [unfolded good_def]
  have budget: "stage_budget (max_retransmissions (config (sched w))) (sent (trace w) i) (StageWaiting pu d) (stage_transmissions a)"
    using send_get_active [OF inv_send [OF I] a] StageWaiting by simp
  show ?thesis
  proof (cases "stage_transmissions a - 1 < max_retransmissions (config (sched w))")
    case True
    have "inv ((sched w)\<lparr>active := bt_adjust i (\<lambda>t. t\<lparr>ap_stage := StagePending pu\<rparr>) (active (sched w))\<rparr>) (trace w)"
      by (rule good_restage_active [OF G a]) (use budget_retry [OF budget True] in simp_all)
    then show ?thesis
      using True StageWaiting a
      by (auto simp: timeout_one_def wp_simps good_def mode_def simp del: set_map)
  next
    case False
    then show ?thesis
      using StageWaiting a
      by (simp del: set_map add: timeout_one_def wp_simps)
        (rule wp_cons [OF safe_terminalize [OF G a]], auto simp: bt_keys_remove simp del: set_map)
  qed
qed (use G a in \<open>simp_all add: timeout_one_def wp_simps\<close>)

lemma take_room:
  "transitions (report w) + length (take (remaining w) xs) \<le> max (transitions (report w)) MAX_TRANSITIONS_PER_DRIVE"
  by (simp add: remaining_def)

lemma safe_timeout_wires:
  fixes w :: "('t, 'r, 's) sys"
  assumes "good w" and "distinct ids" and "set ids \<subseteq> set (bt_keys (physical (sched w)))"
    and "transitions (report w) + length ids \<le> max (transitions (report w)) MAX_TRANSITIONS_PER_DRIVE"
  shows "wp sane (sfor (\<lambda>i. timeout_programme_one i now) ids)
    (\<lambda>_ w'. good w' \<and> mode (sched w') = mode (sched w) \<and> within_ceiling w w') w"
proof (rule wp_sfor [where I = "\<lambda>is w'. good w' \<and> mode (sched w') = mode (sched w) \<and> distinct is
    \<and> set is \<subseteq> set (bt_keys (physical (sched w')))
    \<and> transitions (report w') + length is \<le> max (transitions (report w)) MAX_TRANSITIONS_PER_DRIVE"])
  fix x xs and w' :: "('t, 'r, 's) sys"
  assume J: "good w' \<and> mode (sched w') = mode (sched w) \<and> distinct (x # xs)
    \<and> set (x # xs) \<subseteq> set (bt_keys (physical (sched w')))
    \<and> transitions (report w') + length (x # xs) \<le> max (transitions (report w)) MAX_TRANSITIONS_PER_DRIVE"
  then have "x \<in> set (bt_keys (physical (sched w')))" by simp
  from bt_key_get [OF this] obtain p where p: "bt_get (physical (sched w')) x = Some p" ..
  show "wp sane (timeout_programme_one x now) (\<lambda>_ w''. good w'' \<and> mode (sched w'') = mode (sched w) \<and> distinct xs
      \<and> set xs \<subseteq> set (bt_keys (physical (sched w'')))
      \<and> transitions (report w'') + length xs \<le> max (transitions (report w)) MAX_TRANSITIONS_PER_DRIVE) w'"
    by (rule wp_cons [OF safe_timeout_programme [OF _ p]]) (use J in \<open>auto simp del: set_map\<close>)
qed (use assms in \<open>auto simp: within_ceiling_def\<close>)

lemma safe_timeout_actives:
  fixes w :: "('t, 'r, 's) sys"
  assumes "good w" and "distinct ids" and "set ids \<subseteq> set (bt_keys (active (sched w)))"
  shows "wp sane (sloop (\<lambda>i. sbind (sget (\<lambda>w. transitions (report w) \<ge> MAX_TRANSITIONS_PER_DRIVE)) (\<lambda>full.
         if full then sret False else sthen (timeout_one env i now) (sret True))) ids)
    (\<lambda>_ w'. good w' \<and> mode (sched w') = mode (sched w) \<and> within_ceiling w w') w"
proof (rule wp_sloop [where I = "\<lambda>is w'. good w' \<and> mode (sched w') = mode (sched w) \<and> within_ceiling w w'
    \<and> distinct is \<and> set is \<subseteq> set (bt_keys (active (sched w')))"])
  fix x xs and w' :: "('t, 'r, 's) sys"
  assume J: "good w' \<and> mode (sched w') = mode (sched w) \<and> within_ceiling w w' \<and> distinct (x # xs)
    \<and> set (x # xs) \<subseteq> set (bt_keys (active (sched w')))"
  then have "x \<in> set (bt_keys (active (sched w')))" by simp
  from bt_key_get [OF this] obtain a where a: "bt_get (active (sched w')) x = Some a" ..
  have "wp sane (timeout_one env x now) (\<lambda>_ w''. good w'' \<and> mode (sched w'') = mode (sched w)
      \<and> within_ceiling w w'' \<and> distinct xs \<and> set xs \<subseteq> set (bt_keys (active (sched w'')))) w'"
    if "transitions (report w') < MAX_TRANSITIONS_PER_DRIVE"
    by (rule wp_cons [OF safe_timeout_one [OF _ a]]) (use J that in \<open>auto simp: within_ceiling_def simp del: set_map\<close>)
  then show "wp sane (sbind (sget (\<lambda>w. transitions (report w) \<ge> MAX_TRANSITIONS_PER_DRIVE)) (\<lambda>full.
         if full then sret False else sthen (timeout_one env x now) (sret True)))
      (\<lambda>go w''. if go then good w'' \<and> mode (sched w'') = mode (sched w) \<and> within_ceiling w w'' \<and> distinct xs
          \<and> set xs \<subseteq> set (bt_keys (active (sched w'')))
        else good w'' \<and> mode (sched w'') = mode (sched w) \<and> within_ceiling w w'') w'"
    using J by (simp add: wp_simps wp_sret_fun)
qed (use assms in auto)

lemma good_wf:
  assumes "good w"
  shows "bt_wf (active (sched w))" "bt_wf (physical (sched w))" "bt_wf (programmes (sched w))"
    "bt_wf (programme_grace (sched w))" "bt_wf (grace (sched w))"
  using inv_tables [OF assms [unfolded good_def]] by (simp_all add: tables_ok_def)

lemma safe_process_timeouts:
  assumes G: "good w"
  shows "wp sane (process_timeouts env now) (\<lambda>_ w'. good w' \<and> mode (sched w') = mode (sched w) \<and> within_ceiling w w') w"
  unfolding process_timeouts_def
proof (simp only: wp_simps, rule wp_cons [OF safe_timeout_wires [OF G distinct_take_filter [OF good_wf(2) [OF G]]
      set_take_filter take_room]], elim conjE, goal_cases)
  case (1 u w1)
  show ?case
    unfolding wp_simps
    by (rule wp_cons [OF safe_timeout_actives [OF 1(1) distinct_take_filter [OF good_wf(1) [OF 1(1)]] set_take_filter]])
      (use 1 in \<open>auto intro: within_ceiling_trans\<close>)
qed

section \<open>Grace windows\<close>

lemma safe_expire_grace:
  assumes G: "good w" and g: "bt_get (programme_grace (sched w)) wire = Some g"
  shows "wp sane (expire_grace_one env wire) (\<lambda>_ w'. good w' \<and> mode (sched w') = mode (sched w)
    \<and> active (sched w') = active (sched w) \<and> physical (sched w') = physical (sched w)
    \<and> bt_keys (programme_grace (sched w')) = removeAll wire (bt_keys (programme_grace (sched w)))
    \<and> transitions (report w') = transitions (report w) + 1) w"
proof -
  note I = G [unfolded good_def]
  obtain lg where lg: "bt_get (programmes (sched w)) (pg_logical_id g) = Some lg" and pos: "0 < lg_grace lg"
    using link_get_grace [OF inv_link [OF I] g] by blast
  have "checked_sub (lg_grace lg) 1 = Some (lg_grace lg - 1)" using pos by (simp add: checked_sub_def)
  then show ?thesis
    using g lg inv_expire [OF I g refl lg]
    by (simp add: expire_grace_one_def wp_simps good_def mode_def bt_keys_remove)
qed

lemma safe_expire_all:
  fixes w :: "('t, 'r, 's) sys"
  assumes "good w" and "distinct ids" and "set ids \<subseteq> set (bt_keys (programme_grace (sched w)))"
    and "transitions (report w) + length ids \<le> max (transitions (report w)) MAX_TRANSITIONS_PER_DRIVE"
  shows "wp sane (sfor (expire_grace_one env) ids) (\<lambda>_ w'. good w' \<and> mode (sched w') = mode (sched w)
    \<and> active (sched w') = active (sched w) \<and> physical (sched w') = physical (sched w) \<and> within_ceiling w w') w"
proof (rule wp_sfor [where I = "\<lambda>is w'. good w' \<and> mode (sched w') = mode (sched w)
    \<and> active (sched w') = active (sched w) \<and> physical (sched w') = physical (sched w)
    \<and> distinct is \<and> set is \<subseteq> set (bt_keys (programme_grace (sched w')))
    \<and> transitions (report w') + length is \<le> max (transitions (report w)) MAX_TRANSITIONS_PER_DRIVE"])
  fix x xs and w' :: "('t, 'r, 's) sys"
  assume J: "good w' \<and> mode (sched w') = mode (sched w)
    \<and> active (sched w') = active (sched w) \<and> physical (sched w') = physical (sched w) \<and> distinct (x # xs)
    \<and> set (x # xs) \<subseteq> set (bt_keys (programme_grace (sched w')))
    \<and> transitions (report w') + length (x # xs) \<le> max (transitions (report w)) MAX_TRANSITIONS_PER_DRIVE"
  then have "x \<in> set (bt_keys (programme_grace (sched w')))" by simp
  from bt_key_get [OF this] obtain g where g: "bt_get (programme_grace (sched w')) x = Some g" ..
  show "wp sane (expire_grace_one env x) (\<lambda>_ w''. good w'' \<and> mode (sched w'') = mode (sched w)
      \<and> active (sched w'') = active (sched w) \<and> physical (sched w'') = physical (sched w) \<and> distinct xs
      \<and> set xs \<subseteq> set (bt_keys (programme_grace (sched w'')))
      \<and> transitions (report w'') + length xs \<le> max (transitions (report w)) MAX_TRANSITIONS_PER_DRIVE) w'"
    by (rule wp_cons [OF safe_expire_grace [OF _ g]]) (use J in \<open>auto simp del: set_map\<close>)
qed (use assms in \<open>auto simp: within_ceiling_def\<close>)

lemma safe_prune_programme_grace:
  assumes G: "good w"
  shows "wp sane (prune_programme_grace env now) (\<lambda>_ w'. good w' \<and> mode (sched w') = mode (sched w)
    \<and> active (sched w') = active (sched w) \<and> within_ceiling w w') w"
  unfolding prune_programme_grace_def
proof (simp only: wp_simps, rule wp_cons [OF safe_expire_all [OF G distinct_take_filter [OF good_wf(4) [OF G]]
      set_take_filter take_room]], elim conjE, goal_cases)
  case (1 u w1)
  show ?case
    by (rule wp_cons [OF safe_settle_ready [OF 1(1)]]) (use 1 in \<open>auto intro: within_ceiling_trans\<close>)
qed

lemma wp_prune_grace:
  assumes "good w" and "good (w\<lparr>sched := (sched w)\<lparr>grace := bt_retain (\<lambda>_ e. now < e) (grace (sched w))\<rparr>\<rparr>) \<Longrightarrow>
    Q () (w\<lparr>sched := (sched w)\<lparr>grace := bt_retain (\<lambda>_ e. now < e) (grace (sched w))\<rparr>\<rparr>)"
  shows "wp E (prune_grace now) Q w"
  using assms inv_prune_grace by (simp add: prune_grace_def wp_simps good_def)

end
