(* ===== verification/Scheduler_Answers.thy ===== *)
theory Scheduler_Answers
  imports Scheduler_Clock
begin

text \<open>
  Evidence from the network and the drive step: every branch keeps the invariant, fails
  only cleanly and moves the lifecycle along its edges.
\<close>

section \<open>Evidence for programmes\<close>

definition calm :: "('t, 'r, 's) sys \<Rightarrow> ('t, 'r, 's) sys \<Rightarrow> bool" where
  "calm w w' \<longleftrightarrow> good w' \<and> lifecycle (sched w') = lifecycle (sched w)"

lemma calm_trans: "calm w w' \<Longrightarrow> calm w' w'' \<Longrightarrow> calm w w''"
  by (simp add: calm_def)

lemma calm_mode: "good w' \<Longrightarrow> mode (sched w') = mode (sched w) \<Longrightarrow> calm w w'"
  by (simp add: calm_def) (erule mode_eqD)

lemma calm_quiet: "good w' \<Longrightarrow> quiet w w' \<Longrightarrow> calm w w'"
  by (simp add: quiet_def calm_mode)

lemma calm_diag:
  assumes "good w"
  shows "wp E (count_diag f) (\<lambda>_. calm w) w"
  using assms by (simp add: wp_simps calm_def good_def)

lemma calm_report: "good w \<Longrightarrow> wp E reset_report (\<lambda>_ w'. calm w w' \<and> sched w' = sched w \<and> trace w' = trace w) w"
  by (simp add: wp_simps calm_def good_def)

lemma calm_settle_ready:
  assumes "good w" shows "wp sane (settle_ready_programmes env now) (\<lambda>_. calm w) w"
  by (rule wp_cons [OF safe_settle_ready [OF assms]]) (simp add: calm_mode)

text \<open>Sequencing of calm steps.\<close>

lemma calm_then:
  assumes "wp sane m (\<lambda>_. calm w) w" and "\<And>w'. calm w w' \<Longrightarrow> wp sane n (\<lambda>_. calm w') w'"
  shows "wp sane (sthen m n) (\<lambda>_. calm w) w"
  unfolding wp_sthen
  by (rule wp_cons [OF assms(1)], rule wp_cons [OF assms(2)]) (auto intro: calm_trans)

lemma absorb_fields [simp]:
  "lg_probe (absorb b lg) = lg_probe lg" "lg_context (absorb b lg) = lg_context lg"
  "lg_active (absorb b lg) = lg_active lg" "lg_grace (absorb b lg) = lg_grace lg"
  "variant_count (absorb b lg) = variant_count lg" "next_variant (absorb b lg) = next_variant lg"
  "neighbor_ready (absorb b lg) = neighbor_ready lg" "stop_unsent (absorb b lg) = stop_unsent lg"
  by (simp_all add: absorb_def Let_def split: option.splits)

lemma safe_update_best:
  assumes "good w" and "bt_get (programmes (sched w)) lid = Some lg"
  shows "wp sane (update_programme_best lid b) (\<lambda>_ w'. good w' \<and> quiet w w') w"
  unfolding update_programme_best_def by (rule safe_note_programme [OF assms]) simp_all

lemma safe_hint_family:
  assumes "good w" and "bt_get (programmes (sched w)) lid = Some lg"
  shows "wp sane (hint_family lid service) (\<lambda>_ w'. good w' \<and> quiet w w') w"
  unfolding hint_family_def wp_simps
proof (rule wp_programme_strategy [OF assms], goal_cases)
  case (1 st)
  have "wp sane (upd_programme lid (\<lambda>lg. lg\<lparr>soft_service_family := Some (service_evidence_family service)\<rparr>))
      (\<lambda>_ w'. good w' \<and> quiet w w') w"
    by (rule safe_note_programme [OF assms]) simp_all
  then show ?case using assms by (simp add: wp_simps)
qed

lemma calm_close_programme:
  assumes "good w" and "bt_get (programmes (sched w)) lid = Some lg"
  shows "wp sane (if b then stop_programme lid else if c then finish_programme_correlations lid True else sret ())
    (\<lambda>_. calm w) w"
proof -
  have "wp sane (stop_programme lid) (\<lambda>_. calm w) w"
    by (rule wp_cons [OF safe_stop_programme [OF assms]]) (simp add: calm_quiet)
  moreover have "wp sane (finish_programme_correlations lid True) (\<lambda>_. calm w) w"
    by (rule wp_cons [OF safe_finish [OF assms]]) (simp add: calm_mode)
  ultimately show ?thesis using assms(1) by (simp add: wp_simps calm_def)
qed

lemma calm_weigh_late:
  assumes G: "good w" and lg: "bt_get (programmes (sched w)) lid = Some lg"
  shows "wp sane (weigh_late lid b) (\<lambda>_. calm w) w"
  unfolding weigh_late_def Let_def wp_sbind wp_sthen
proof (rule wp_programme_strategy [OF G lg], rule wp_cons [OF safe_update_best [OF G lg]], elim conjE, goal_cases)
  case (1 st u w1)
  obtain lg1 where "bt_get (programmes (sched w1)) lid = Some lg1" by (rule quiet_programme [OF 1(2) lg])
  from calm_close_programme [OF 1(1) this] show ?case
    unfolding wp_sthen wp_sret_fun
    by (rule wp_cons) (rule calm_trans [OF calm_quiet [OF 1]])
qed

lemma calm_reset_settle:
  assumes "good w" shows "wp sane (sthen reset_report (settle_ready_programmes env now)) (\<lambda>_. calm w) w"
proof (rule calm_then)
  show "wp sane reset_report (\<lambda>_. calm w) w" using assms by (simp add: wp_simps calm_def good_def)
  show "wp sane (settle_ready_programmes env now) (\<lambda>_. calm w') w'" if "calm w w'" for w'
    using that by (intro calm_settle_ready) (simp add: calm_def)
qed

lemma calm_after_diag:
  assumes "good w"
    and "\<And>w'. good w' \<Longrightarrow> sched w' = (sched w)\<lparr>diagnostics := f (diagnostics (sched w))\<rparr> \<Longrightarrow> wp sane n (\<lambda>_. calm w') w'"
  shows "wp sane (sthen (count_diag f) n) (\<lambda>_. calm w) w"
proof -
  let ?w = "w\<lparr>sched := (sched w)\<lparr>diagnostics := f (diagnostics (sched w))\<rparr>\<rparr>"
  have "calm ?w = calm w" by (simp add: fun_eq_iff calm_def)
  moreover have "wp sane n (\<lambda>_. calm ?w) ?w" using assms(1) by (intro assms(2)) (simp_all add: good_def)
  ultimately show ?thesis by (simp add: wp_simps)
qed

lemma calm_grace_evidence:
  fixes w :: "('t, 'r, 's) sys"
  assumes G: "good w" and g: "bt_get (programme_grace (sched w)) i = Some g"
  shows "wp sane (handle_grace_evidence env now event g) (\<lambda>_. calm w) w"
  unfolding handle_grace_evidence_def
proof (rule calm_after_diag [OF G])
  fix w' :: "('t, 'r, 's) sys"
  assume w': "good w'" "sched w' = (sched w)\<lparr>diagnostics := inc_late (diagnostics (sched w))\<rparr>"
  obtain lg where "bt_get (programmes (sched w)) (pg_logical_id g) = Some lg"
    using link_get_grace [OF inv_link [OF G [unfolded good_def]] g] by blast
  then have lg: "bt_get (programmes (sched w')) (pg_logical_id g) = Some lg" using w'(2) by simp
  have hint: "wp sane (hint_family (pg_logical_id g) service) (\<lambda>_. calm w') w'" for service
    by (rule wp_cons [OF safe_hint_family [OF w'(1) lg]]) (simp add: calm_quiet)
  have late: "wp sane (sbind (weigh_late (pg_logical_id g) b) (\<lambda>settle.
      swhen settle (sthen reset_report (settle_ready_programmes env now)))) (\<lambda>_. calm w') w'" for b
    unfolding wp_sbind
  proof (rule wp_cons [OF calm_weigh_late [OF w'(1) lg]])
    fix settle w2
    assume c: "calm w' w2"
    then have "wp sane (sthen reset_report (settle_ready_programmes env now)) (\<lambda>_. calm w') w2"
      by (intro wp_cons [OF calm_reset_settle]) (auto simp: calm_def)
    then show "wp sane (swhen settle (sthen reset_report (settle_ready_programmes env now))) (\<lambda>_. calm w') w2"
      using c by (simp add: swhen_def wp_sret)
  qed
  show "wp sane (if kind event = UdpServiceHint then
         (case udp_service event of Some service \<Rightarrow> hint_family (pg_logical_id g) service
          | None \<Rightarrow> count_diag inc_forged)
       else (case classify_udp_evidence (pg_variant g) event (pg_last_sent_at g) now of
            Some b \<Rightarrow> sbind (weigh_late (pg_logical_id g) b) (\<lambda>settle.
              swhen settle (sthen reset_report (settle_ready_programmes env now)))
          | None \<Rightarrow> swhen (\<not> is_udp_observation (kind event)) (count_diag inc_forged))) (\<lambda>_. calm w') w'"
    using hint late calm_diag [OF w'(1)] w'(1)
    by (auto simp: swhen_def wp_sret calm_def split: option.splits)
qed

lemma calm_expired:
  assumes G: "good w" and p: "bt_get (physical (sched w)) (event_probe_id event) = Some p"
  shows "wp sane (handle_expired_physical env now event) (\<lambda>_. calm w) w"
proof -
  let ?w = "w\<lparr>report := \<lparr>transitions = 0, emissions = 0, results = 0\<rparr>\<rparr>"
  have G': "good ?w" and p': "bt_get (physical (sched ?w)) (event_probe_id event) = Some p"
    using G p by (simp_all add: good_def)
  have late: "wp sane (sbind (weigh_late (pg_logical_id g) b) (\<lambda>settle. swhen settle (settle_ready_programmes env now)))
      (\<lambda>_. calm w) w2" if w2: "calm w w2" and g: "bt_get (programme_grace (sched w2)) i = Some g" for w2 g b i
  proof -
    have G2: "good w2" using w2 by (simp add: calm_def)
    obtain lg where lg: "bt_get (programmes (sched w2)) (pg_logical_id g) = Some lg"
      using link_get_grace [OF inv_link [OF G2 [unfolded good_def]] g] by blast
    show ?thesis
      unfolding wp_sbind
    proof (rule wp_cons [OF calm_weigh_late [OF G2 lg]])
      fix settle w3
      assume w3: "calm w2 w3"
      then have "wp sane (settle_ready_programmes env now) (\<lambda>_. calm w) w3"
        using w2 by (intro wp_cons [OF calm_settle_ready]) (auto simp: calm_def)
      then show "wp sane (swhen settle (settle_ready_programmes env now)) (\<lambda>_. calm w) w3"
        using calm_trans [OF w2 w3] by (simp add: swhen_def wp_sret)
    qed
  qed
  show ?thesis
    unfolding handle_expired_physical_def
  proof (simp add: wp_report wp_sthen, rule wp_cons [OF safe_timeout_programme [OF G' p']], elim conjE, goal_cases)
    case (1 u w1)
    let ?w1 = "w1\<lparr>sched := (sched w1)\<lparr>diagnostics := inc_late (diagnostics (sched w1))\<rparr>\<rparr>"
    have c: "calm w ?w1" using 1 mode_eqD(4) [OF 1(2)] by (simp add: calm_def good_def)
    then show ?case
      using late [OF c] by (simp add: wp_misc wp_sthen wp_sbind [of _ "gets _"] wp_gets wp_sret split: option.splits)
  qed
qed

lemma bt_adjust_adjust: "bt_adjust k f (bt_adjust k g m) = bt_adjust k (\<lambda>v. f (g v)) m"
  by (simp add: bt_adjust_def)

lemma calm_neighbor:
  assumes G: "good w" and p: "bt_get (physical (sched w)) wire = Some p"
    and stage: "ph_stage p = StageWaiting (NeighborSetup s) d"
  shows "wp sane (neighbor_answered wire (ph_logical_id p)) (\<lambda>_. calm w) w"
proof -
  note I = G [unfolded good_def]
  let ?lid = "ph_logical_id p" and ?g = "\<lambda>lg. lg\<lparr>neighbor_ready := True\<rparr>"
  let ?f = "\<lambda>p. p\<lparr>ph_stage := StagePending Probe, ph_transmissions := 0\<rparr>"
  let ?s = "(sched w)\<lparr>physical := bt_adjust wire ?f (physical (sched w))\<rparr>"
  have "stage_budget (max_retransmissions (config (sched w))) (sent (trace w) wire) (StagePending Probe) 0"
    using send_get_physical [OF inv_send [OF I] p] stage by (simp add: stage_budget_def)
  then have I1: "inv ?s (trace w)" by (intro good_restage_physical [OF G p]) simp_all
  obtain lg where lg: "bt_get (programmes ?s) ?lid = Some lg"
    using link_get [OF inv_link [OF I] p] by auto
  note pg = prog_get [OF inv_prog [OF I1] lg]
  have shape: "programme_shape (plan ?s) (?g lg)" by (rule shape_keep [OF pg(1)]) (use pg in simp_all)
  have note': "inv (?s\<lparr>programmes := bt_adjust ?lid ?g (programmes ?s), programme_ready := rdy\<rparr>) (trace w)"
    if "set (programme_ready (sched w)) \<subseteq> set rdy" for rdy
    by (rule inv_programme_note [where f = ?g, OF I1 lg _ _ _ _ shape])
      (use pg(2) that in \<open>auto simp: waiting_turn_def\<close>)
  show ?thesis
    using p lg note' [of "programme_ready (sched w)"] note' [of "programme_ready (sched w) @ [?lid]"]
    by (auto simp: neighbor_answered_def wp_simps calm_def good_def bt_adjust_adjust)
qed

lemma calm_retire:
  assumes "good w" and "bt_get (physical (sched w)) wire = Some p"
  shows "wp sane (retire_physical wire now) (\<lambda>_ w'. calm w w'
    \<and> bt_keys (programmes (sched w')) = bt_keys (programmes (sched w))) w"
  by (rule wp_cons [OF safe_retire [OF assms]]) (simp add: calm_mode)

lemma calm_settle_evidence:
  assumes G: "good w" and p: "bt_get (physical (sched w)) (event_probe_id event) = Some p"
    and lid: "ph_logical_id p = lid"
  shows "wp sane (settle_evidence env now event lid b) (\<lambda>_. calm w) w"
proof -
  obtain lg where lg: "bt_get (programmes (sched w)) lid = Some lg"
    using link_get [OF inv_link [OF G [unfolded good_def]] p] lid by blast
  have count: "wp sane (swhen c (count_icmp lid)) (\<lambda>_ w'. good w' \<and> quiet w w') w" for c
    using G lg by (simp add: count_icmp_def wp_simps good_def quiet_def mode_def)
  show ?thesis
    unfolding settle_evidence_def Let_def wp_sbind wp_sthen
  proof (rule wp_programme_strategy [OF G lg], rule wp_cons [OF count], elim conjE, goal_cases)
    case (1 st u w1)
    obtain lg1 where lg1: "bt_get (programmes (sched w1)) lid = Some lg1" by (rule quiet_programme [OF 1(2) lg])
    show ?case
      unfolding wp_sthen
    proof (rule wp_cons [OF safe_update_best [OF 1(1) lg1]], elim conjE, goal_cases)
      case (1 u w2)
      have q: "quiet w w2" by (rule quiet_trans [OF \<open>quiet w w1\<close> 1(2)])
      obtain lg2 where lg2: "bt_get (programmes (sched w2)) lid = Some lg2" by (rule quiet_programme [OF 1(2) lg1])
      let ?w2 = "w2\<lparr>report := \<lparr>transitions = 0, emissions = 0, results = 0\<rparr>\<rparr>"
      have g2: "good ?w2" using 1(1) by (simp add: good_def)
      have p2: "bt_get (physical (sched ?w2)) (event_probe_id event) = Some p" using q p by (simp add: quiet_def)
      have c2: "calm w ?w2" using calm_quiet [OF 1(1) q] g2 by (simp add: calm_def)
      show ?case
        unfolding wp_sthen wp_report
      proof (rule wp_cons [OF calm_retire [OF g2 p2]], elim conjE, goal_cases)
        case (1 u w3)
        have "lid \<in> set (bt_keys (programmes (sched w3)))"
          using 1(2) lg2 bt_get_None_iff [of "programmes (sched w2)" lid] by auto
        from bt_key_get [OF this] obtain lg3 where lg3: "bt_get (programmes (sched w3)) lid = Some lg3" ..
        have g3: "good w3" and c3: "calm w w3" using 1(1) calm_trans [OF c2] by (auto simp: calm_def)
        show ?case
          unfolding wp_sthen
          by (rule wp_cons [OF calm_close_programme [OF g3 lg3]], rule wp_cons [OF calm_settle_ready])
            (use c3 in \<open>auto simp: calm_def\<close>)
      qed
    qed
  qed
qed

lemma calm_hint:
  assumes G: "good w" and p: "bt_get (physical (sched w)) i = Some p"
  shows "wp sane (sthen (hint_family (ph_logical_id p) service) (sthen reset_report (
      sthen (retire_physical i now) (settle_ready_programmes env now)))) (\<lambda>_. calm w) w"
proof -
  obtain lg where lg: "bt_get (programmes (sched w)) (ph_logical_id p) = Some lg"
    using link_get [OF inv_link [OF G [unfolded good_def]] p] by blast
  show ?thesis
    unfolding wp_sthen
  proof (rule wp_cons [OF safe_hint_family [OF G lg]], elim conjE, goal_cases)
    case (1 u w1)
    let ?w1 = "w1\<lparr>report := \<lparr>transitions = 0, emissions = 0, results = 0\<rparr>\<rparr>"
    have g1: "good ?w1" and p1: "bt_get (physical (sched ?w1)) i = Some p"
      using 1 p by (simp_all add: good_def quiet_def)
    have c1: "calm w ?w1" using calm_quiet [OF 1] g1 by (simp add: calm_def)
    show ?case
      unfolding wp_sthen wp_report
      by (rule wp_cons [OF calm_retire [OF g1 p1]], rule wp_cons [OF calm_settle_ready])
        (use c1 in \<open>auto simp: calm_def\<close>)
  qed
qed

lemma calm_physical_evidence:
  assumes G: "good w" and p: "bt_get (physical (sched w)) (event_probe_id event) = Some p"
  shows "wp sane (handle_physical_evidence env now event p) (\<lambda>_. calm w) w"
proof -
  have stay: "wp sane (swhen c (count_diag f)) (\<lambda>_. calm w) w" for c f
    using calm_diag [OF G] G by (simp add: swhen_def wp_sret calm_def)
  show ?thesis
    unfolding handle_physical_evidence_def
    using calm_expired [OF G p] calm_neighbor [OF G p] calm_hint [OF G p] calm_settle_evidence [OF G p refl]
      calm_diag [OF G] stay
    by (auto split: ActiveStage.splits EmissionPurpose.splits option.splits)
qed

lemma calm_programme_evidence:
  assumes G: "good w" and known: "bt_contains (physical (sched w)) (event_probe_id event)
      \<or> bt_contains (programme_grace (sched w)) (event_probe_id event)"
  shows "wp sane (handle_programme_evidence env now event) (\<lambda>_. calm w) w"
  unfolding handle_programme_evidence_def
  using calm_grace_evidence [OF G] calm_physical_evidence [OF G] known
  by (auto simp: wp_sbind wp_gets wp_get split: option.splits)

section \<open>Completion\<close>

text \<open>The edges of the session lifecycle that driving and evidence may take.\<close>

definition advance :: "SessionLifecycle \<Rightarrow> SessionLifecycle \<Rightarrow> bool" where
  "advance l l' \<longleftrightarrow> l' = l \<or> (l = Pausing \<and> l' = Paused)
     \<or> (l \<notin> {Completed, Failed, Closed} \<and> l' \<in> {Cancelling, Completed, Failed})"

lemma advance_refl [simp]: "advance l l"
  by (simp add: advance_def)

lemma advance_trans: "advance a b \<Longrightarrow> advance b c \<Longrightarrow> advance a c"
  by (auto simp: advance_def)

lemma onward_advance:
  "onward w w' \<Longrightarrow> lifecycle (sched w) \<notin> {Completed, Failed, Closed} \<Longrightarrow>
     advance (lifecycle (sched w)) (lifecycle (sched w'))"
  by (auto simp: onward_def advance_def)

definition moved :: "('t, 'r, 's) sys \<Rightarrow> ('t, 'r, 's) sys \<Rightarrow> bool" where
  "moved w w' \<longleftrightarrow> good w' \<and> advance (lifecycle (sched w)) (lifecycle (sched w'))"

lemma moved_trans: "moved w w' \<Longrightarrow> moved w' w'' \<Longrightarrow> moved w w''"
  by (auto simp: moved_def intro: advance_trans)

lemma moved_calm: "calm w w' \<Longrightarrow> moved w w'"
  by (simp add: moved_def calm_def)

lemma inv_complete:
  assumes I: "inv s tr" and "lifecycle s = Running" and "cursor s = logical_probe_count (plan s)"
    and "deferred s = []" and "active s = []" and "programmes s = []"
  shows "inv (s\<lparr>lifecycle := Completed\<rparr>) tr"
proof -
  note life = inv_life [OF I]
  have "stop s = None" "StopRequested \<notin> set tr" "bucket s \<noteq> None \<and> session_deadline s \<noteq> None"
    using life assms(2) by (auto simp: life_ok_def)
  then have "life_ok Completed (stop s) (bucket s \<noteq> None \<and> session_deadline s \<noteq> None)
      (active s = [] \<and> programmes s = []) (cursor s = logical_probe_count (plan s) \<and> deferred s = [])
      (StopRequested \<in> set tr)"
    using assms by (simp add: life_ok_def)
  from inv_lifecycle [OF I _ _ this] show ?thesis
    using inv_rate [OF I] assms(2) by (simp add: rate_ok_def)
qed

lemma safe_complete:
  assumes G: "good w"
  shows "wp E complete_if_finished (\<lambda>_ w'. moved w w' \<and> report w' = report w) w"
  using G inv_complete [of "sched w" "trace w"]
  by (simp add: complete_if_finished_def wp_simps moved_def good_def advance_def)

lemma moved_then_complete:
  assumes "wp sane m (\<lambda>_. moved w) w"
  shows "wp sane (sthen m complete_if_finished) (\<lambda>_. moved w) w"
  unfolding wp_sthen
  by (rule wp_cons [OF assms], rule wp_cons [OF safe_complete]) (auto simp: moved_def intro: advance_trans)

section \<open>Evidence for single probes\<close>

lemma moved_emit_pending:
  assumes G: "good w" and "lifecycle (sched w) \<notin> {Completed, Failed, Closed}"
  shows "wp sane (emit_pending env now) (\<lambda>_. moved w) w"
  by (rule wp_cons [OF safe_emit_pending [OF G]]) (use onward_advance assms(2) in \<open>auto simp: moved_def\<close>)

lemma calm_terminalize:
  assumes "good w" and "bt_get (active (sched w)) i = Some a"
  shows "wp sane (terminalize env i now t b) (\<lambda>_. calm w) w"
  by (rule wp_cons [OF safe_terminalize [OF assms]]) (simp add: calm_mode)

lemma moved_cleanup:
  assumes G: "good w" and a: "bt_get (active (sched w)) i = Some a"
  shows "wp sane (sthen (upd_active i (\<lambda>t. t\<lparr>ap_stage := StagePendingCleanup tm, stage_transmissions := 0\<rparr>))
    (sthen reset_report (emit_pending env now))) (\<lambda>_. moved w) w"
proof -
  note I = G [unfolded good_def]
  let ?f = "\<lambda>t. t\<lparr>ap_stage := StagePendingCleanup tm, stage_transmissions := 0\<rparr>"
  let ?w = "w\<lparr>sched := (sched w)\<lparr>active := bt_adjust i ?f (active (sched w))\<rparr>,
      report := \<lparr>transitions = 0, emissions = 0, results = 0\<rparr>\<rparr>"
  have "stage_budget (max_retransmissions (config (sched w))) (sent (trace w) i) (StagePendingCleanup tm) 0"
    using send_get_active [OF inv_send [OF I] a] by (simp add: stage_budget_def)
  then have "good ?w" using good_restage_active [where f = ?f, OF G a] by (simp add: good_def)
  moreover have "lifecycle (sched ?w) \<notin> {Completed, Failed, Closed}" using busy_life [OF I disjI1 [OF a]] by simp
  ultimately have "wp sane (emit_pending env now) (\<lambda>_. moved ?w) ?w" by (rule moved_emit_pending)
  moreover have "moved ?w = moved w" by (simp add: fun_eq_iff moved_def)
  ultimately show ?thesis using a by (simp add: wp_sthen wp_upd_entry wp_report)
qed

lemma moved_accept:
  assumes G: "good w" and a: "bt_get (active (sched w)) (event_probe_id event) = Some a"
  shows "wp sane (accept_evidence env now event a) (\<lambda>_. moved w) w"
proof (cases "classify_terminal (ap_probe a) event")
  case (Inl e)
  then show ?thesis
    unfolding accept_evidence_def by (simp add: wp_cons [OF calm_diag [OF G] moved_calm])
next
  case (Inr t)
  define sample where "sample = Option.bind (last_probe_sent_at a) (\<lambda>sent. elapsed_since now sent)"
  have rest: "wp sane (sbind (gets config) (\<lambda>c.
      sthen (if tcp_reset_cleanup c \<and> family (ap_probe a) = TcpSyn \<and> kind event = TcpSynAcknowledgment
        then sthen (upd_active (event_probe_id event) (\<lambda>t'. t'\<lparr>ap_stage := StagePendingCleanup tm, stage_transmissions := 0\<rparr>))
          (sthen reset_report (emit_pending env now))
        else terminalize env (event_probe_id event) now tm False) complete_if_finished)) (\<lambda>_. moved w) w'"
    if w': "good w'" "lifecycle (sched w') = lifecycle (sched w)" "active (sched w') = active (sched w)" for w' tm
  proof -
    have a': "bt_get (active (sched w')) (event_probe_id event) = Some a" using a w'(3) by simp
    have same: "moved w' = moved w" using w'(2) by (simp add: fun_eq_iff moved_def)
    have "wp sane (terminalize env (event_probe_id event) now tm False) (\<lambda>_. moved w') w'"
      by (rule wp_cons [OF calm_terminalize [OF w'(1) a']]) (rule moved_calm)
    then show ?thesis
      using moved_then_complete [OF moved_cleanup [OF w'(1) a', of tm env now]]
        moved_then_complete [of "terminalize env (event_probe_id event) now tm False" w']
      by (simp add: wp_sbind wp_gets same)
  qed
  have "good (w\<lparr>sched := (sched w)\<lparr>rtt := r\<rparr>\<rparr>)" for r using G by (simp add: good_def)
  then show ?thesis
    using Inr G rest [of w] rest [of "w\<lparr>sched := (sched w)\<lparr>rtt := r\<rparr>\<rparr>" for r]
    by (simp add: accept_evidence_def Let_def sample_def [symmetric] wp_sthen [of _ "case_option _ _ _"] wp_swhen wp_upd wp_sret
        split: option.splits)
qed

lemma calm_neighbor_single:
  assumes G: "good w" and a: "bt_get (active (sched w)) i = Some a"
    and stage: "ap_stage a = StageWaiting (NeighborSetup s) d"
  shows "wp sane (upd_active i (\<lambda>t. t\<lparr>ap_stage := StagePending Probe, stage_transmissions := 0\<rparr>)) (\<lambda>_. calm w) w"
proof -
  note I = G [unfolded good_def]
  let ?f = "\<lambda>t. t\<lparr>ap_stage := StagePending Probe, stage_transmissions := 0\<rparr>"
  have "stage_budget (max_retransmissions (config (sched w))) (sent (trace w) i) (StagePending Probe) 0"
    using send_get_active [OF inv_send [OF I] a] stage by (simp add: stage_budget_def)
  then have "inv ((sched w)\<lparr>active := bt_adjust i ?f (active (sched w))\<rparr>) (trace w)"
    by (intro good_restage_active [where f = ?f, OF G a]) simp_all
  then show ?thesis using a by (simp add: wp_upd_entry calm_def good_def)
qed

lemma moved_active_evidence:
  assumes G: "good w" and a: "bt_get (active (sched w)) (event_probe_id event) = Some a"
  shows "wp sane (active_evidence env now event a) (\<lambda>_. moved w) w"
proof -
  let ?w = "w\<lparr>report := \<lparr>transitions = 0, emissions = 0, results = 0\<rparr>\<rparr>"
  have diag: "wp sane (count_diag f) (\<lambda>_. moved w) w" for f
    by (rule wp_cons [OF calm_diag [OF G]]) (rule moved_calm)
  have neighbor: "wp sane (upd_active (event_probe_id event) (\<lambda>t. t\<lparr>ap_stage := StagePending Probe, stage_transmissions := 0\<rparr>))
      (\<lambda>_. moved w) w" if "ap_stage a = StageWaiting (NeighborSetup s) d" for s d
    by (rule wp_cons [OF calm_neighbor_single [OF G a that]]) (rule moved_calm)
  have "good ?w" using G by (simp add: good_def)
  then have "wp sane (timeout_one env (event_probe_id event) now) (\<lambda>_. wp sane (count_diag inc_late) (\<lambda>_. moved w)) ?w"
    by (intro wp_cons [OF safe_timeout_one]) (use a in \<open>auto simp: wp_simps moved_def good_def dest: mode_eqD(4)\<close>)
  then have expired: "wp sane (sthen reset_report (sthen (timeout_one env (event_probe_id event) now) (count_diag inc_late)))
      (\<lambda>_. moved w) w" by (simp add: wp_sthen wp_report)
  show ?thesis
    unfolding active_evidence_def
    using expired diag neighbor moved_accept [OF G a]
    by (auto split: ActiveStage.splits EmissionPurpose.splits)
qed

lemma moved_dispatch:
  assumes G: "good w"
  shows "wp sane (dispatch_evidence env now event) (\<lambda>_. moved w) w"
proof -
  have known: "wp sane (sthen (handle_programme_evidence env now event) complete_if_finished) (\<lambda>_. moved w) w"
    if "bt_contains (physical (sched w)) (event_probe_id event)
      \<or> bt_contains (programme_grace (sched w)) (event_probe_id event)"
    by (rule moved_then_complete, rule wp_cons [OF calm_programme_evidence [OF G that]]) (rule moved_calm)
  have diag: "wp sane (count_diag f) (\<lambda>_. moved w) w" for f
    by (rule wp_cons [OF calm_diag [OF G]]) (rule moved_calm)
  have "wp sane (sthen (count_diag inc_duplicates) (count_diag inc_late)) (\<lambda>_. moved w) w"
    using G by (simp add: wp_simps moved_def good_def)
  then show ?thesis
    unfolding dispatch_evidence_def
    using known diag moved_active_evidence [OF G]
    by (simp add: wp_sbind wp_gets split: option.splits)
qed

section \<open>Stopping and invalidation on the way\<close>

lemma safe_stop_at_deadline:
  assumes G: "good w"
  shows "wp sane (stop_at_deadline now) (\<lambda>due w'. moved w w' \<and> report w' = report w \<and> (due \<longrightarrow> stop (sched w') \<noteq> None)) w"
proof -
  have "moved w (w\<lparr>trace := trace w @ [StopRequested], sched := (sched w)\<lparr>
     cursor := logical_probe_count (plan (sched w)), deferred := [], invalidating_generation := None,
     lifecycle := Cancelling, stop := Some \<lparr>stop_outcome = OutcomeSessionDeadline,
       stop_reason = ReasonSessionDeadline, final_lifecycle = Completed\<rparr>\<rparr>\<rparr>)"
    if "\<not> is_terminal (sched w)"
    using inv_initiate_stop [where g = None, OF G [unfolded good_def], of Completed] that
    by (auto simp: moved_def good_def advance_def is_terminal_def)
  then show ?thesis
    using G by (simp add: stop_at_deadline_def wp_simps) (simp add: moved_def)
qed

lemma moved_settle_stop:
  assumes G: "good w" and st: "stop (sched w) \<noteq> None"
  shows "wp sane (settle_stop env now) (\<lambda>_ w'. moved w w' \<and> within_ceiling w w') w"
proof -
  have "lifecycle (sched w) = Cancelling" using inv_life [OF G [unfolded good_def]] st by (auto simp: life_ok_def)
  then show ?thesis
    using st by (auto simp: moved_def advance_def intro!: wp_cons [OF safe_settle_stop [OF G]])
qed

lemma moved_settle_context:
  assumes G: "good w" and f: "invalidating_generation (sched w) \<noteq> None"
  shows "wp sane (settle_context_invalidation env now) (\<lambda>_ w'. calm w w' \<and> stop (sched w') = stop (sched w)
    \<and> within_ceiling w w') w"
  using f by (auto simp: calm_def intro!: wp_cons [OF safe_settle_context [OF G]])

lemma wp_gets_const: "wp E (gets f) (\<lambda>_. Q) = Q"
  by (simp add: fun_eq_iff wp_gets)

lemma moved_invalidation_filter:
  assumes G: "good w"
  shows "wp sane (invalidation_filter env now event) (\<lambda>_. calm w) w"
proof (cases "invalidating_generation (sched w)")
  case None
  then show ?thesis using G by (simp add: invalidation_filter_def wp_simps calm_def)
next
  case (Some f)
  let ?w = "w\<lparr>report := \<lparr>transitions = 0, emissions = 0, results = 0\<rparr>\<rparr>"
  have "wp sane (settle_context_invalidation env now) (\<lambda>_. calm w) ?w"
    by (rule wp_cons [OF moved_settle_context]) (use G Some in \<open>auto simp: good_def calm_def\<close>)
  then show ?thesis using Some by (simp add: invalidation_filter_def Let_def wp_simps wp_gets_const)
qed

end
