(* ===== verification/Scheduler_Session.thy ===== *)
theory Scheduler_Session
  imports Scheduler_Answers
begin

text \<open>
  The two large entry points, evidence and drive, and the sessions they are part of: a
  session is a sequence of requests of the embedder, each performed on the state that the
  one before left behind.
\<close>

section \<open>Evidence\<close>

lemma moved_handle_evidence:
  fixes w :: "('t, 'r, 's) sys"
  assumes G: "good w"
  shows "wp sane (handle_evidence env now event) (\<lambda>_. moved w) w"
proof -
  have diag: "wp sane (count_diag f) (\<lambda>_. moved w) w'" if "moved w w'" for f and w' :: "('t, 'r, 's) sys"
    using that by (simp add: wp_simps moved_def good_def)
  have tail: "wp sane (sbind (gets (\<lambda>s. stop s \<noteq> None)) (\<lambda>stopping.
      if stopping then count_diag inc_late
      else sbind (invalidation_filter env now event) (\<lambda>dropped.
        if dropped then count_diag inc_forged else dispatch_evidence env now event))) (\<lambda>_. moved w) w'"
    if m: "moved w w'" for w' :: "('t, 'r, 's) sys"
  proof -
    have G': "good w'" using m by (simp add: moved_def)
    have "wp sane (sbind (invalidation_filter env now event) (\<lambda>dropped.
        if dropped then count_diag inc_forged else dispatch_evidence env now event)) (\<lambda>_. moved w) w'"
      unfolding wp_sbind
    proof (rule wp_cons [OF moved_invalidation_filter [OF G']])
      fix dropped w2
      assume c: "calm w' w2"
      then have m2: "moved w w2" using moved_trans [OF m moved_calm] by blast
      then have "wp sane (dispatch_evidence env now event) (\<lambda>_. moved w) w2"
        by (intro wp_cons [OF moved_dispatch]) (use moved_trans in \<open>auto simp: moved_def intro: advance_trans\<close>)
      then show "wp sane (if dropped then count_diag inc_forged else dispatch_evidence env now event) (\<lambda>_. moved w) w2"
        using diag [OF m2] by simp
    qed
    then show ?thesis using diag [OF m] by (simp add: wp_sbind [of _ "gets _"] wp_gets)
  qed
  have settle: "wp sane (swhen due (sthen reset_report (settle_stop env now))) (\<lambda>_. moved w) w'"
    if m: "moved w w'" "due \<longrightarrow> stop (sched w') \<noteq> None" for due and w' :: "('t, 'r, 's) sys"
  proof -
    let ?w = "w'\<lparr>report := \<lparr>transitions = 0, emissions = 0, results = 0\<rparr>\<rparr>"
    have "moved w ?w" using m by (simp add: moved_def good_def)
    then have "wp sane (settle_stop env now) (\<lambda>_. moved w) ?w" if due
      using that m(2) moved_trans by (intro wp_cons [OF moved_settle_stop]) (auto simp: moved_def intro: advance_trans)
    then show ?thesis using m by (simp add: wp_swhen wp_sthen wp_report)
  qed
  let ?w = "w\<lparr>sched := (sched w)\<lparr>last_now := Some now, grace := bt_retain (\<lambda>_ e. now < e) (grace (sched w))\<rparr>,
      report := \<lparr>transitions = 0, emissions = 0, results = 0\<rparr>\<rparr>"
  have G1: "good ?w"
    using inv_prune_grace [of "{#}" "(sched w)\<lparr>last_now := Some now\<rparr>" "trace w"] G by (simp add: good_def)
  have main: "wp sane (sthen (prune_programme_grace env now) (sbind (stop_at_deadline now) (\<lambda>due.
      sthen (swhen due (sthen reset_report (settle_stop env now))) (
      sbind (gets (\<lambda>s. stop s \<noteq> None)) (\<lambda>stopping. if stopping then count_diag inc_late
      else sbind (invalidation_filter env now event) (\<lambda>dropped.
        if dropped then count_diag inc_forged else dispatch_evidence env now event)))))) (\<lambda>_. moved w) ?w"
    unfolding wp_sthen
  proof (rule wp_cons [OF safe_prune_programme_grace [OF G1]], elim conjE, goal_cases)
    case (1 u w1)
    have m1: "moved w w1" using 1(1) mode_eqD(4) [OF 1(2)] by (simp add: moved_def)
    show ?case
      unfolding wp_sbind [of _ "stop_at_deadline now"]
    proof (rule wp_cons [OF safe_stop_at_deadline [OF 1(1)]], elim conjE, goal_cases)
      case (1 due w2)
      show ?case
        unfolding wp_sthen by (rule wp_cons [OF settle [OF moved_trans [OF m1 1(1)] 1(3)]]) (rule tail)
    qed
  qed
  then show ?thesis
    using G good_orderly [OF G]
    by (simp add: handle_evidence_def wp_sthen wp_observe_now prune_grace_def wp_upd wp_report)
qed

section \<open>The report\<close>

text \<open>The least element of a set of times, if there is one.\<close>

definition least_of :: "MonotonicTime set \<Rightarrow> MonotonicTime option \<Rightarrow> bool" where
  "least_of T x \<longleftrightarrow> (case x of None \<Rightarrow> T = {} | Some t \<Rightarrow> t \<in> T \<and> (\<forall>d \<in> T. t \<le> d))"

lemma least_of_earlier: "least_of A x \<Longrightarrow> least_of B y \<Longrightarrow> least_of (A \<union> B) (earlier x y)"
  by (fastforce simp: least_of_def earlier_def split: option.splits)

lemma least_of_option: "least_of (set_option x) x"
  by (simp add: least_of_def split: option.splits)

lemma least_of_min: "least_of (set xs) (min_value xs)"
proof -
  have "fold min ys y \<in> insert y (set ys) \<and> (\<forall>d \<in> insert y (set ys). fold min ys y \<le> d)" for ys and y :: nat
  proof (induction ys arbitrary: y)
    case (Cons z zs)
    from Cons.IH [of "min z y"] show ?case by (auto simp: min_def split: if_splits)
  qed simp
  then show ?thesis by (cases xs) (auto simp: min_value_def least_of_def)
qed

lemma least_of_stages:
  "least_of A acc \<Longrightarrow> least_of (A \<union> {d. \<exists>pu. StageWaiting pu d \<in> set sts}) (fold stage_wakeup sts acc)"
proof (induction sts arbitrary: A acc)
  case (Cons st sts)
  have "least_of (A \<union> {d. \<exists>pu. st = StageWaiting pu d}) (stage_wakeup st acc)"
    using Cons.prems least_of_earlier [OF Cons.prems least_of_option [of "Some d" for d]]
    by (cases st) (simp_all add: stage_wakeup_def)
  note this [THEN Cons.IH]
  moreover have "A \<union> {d. \<exists>pu. st = StageWaiting pu d} \<union> {d. \<exists>pu. StageWaiting pu d \<in> set sts}
      = A \<union> {d. \<exists>pu. StageWaiting pu d \<in> set (st # sts)}" by auto
  ultimately show ?case by simp
qed simp

text \<open>
  The times at which a session has something to do: at once while a stop or an invalidation
  is being settled and else the session deadline; the deadlines of the frames that wait for
  an answer; and, while it runs, the expiry of what is kept for late answers, the end of
  every pause imposed on a target, and every time the rate limit admits a frame if there is a
  frame to send or a probe to admit.
\<close>

definition frame_times :: "MonotonicTime \<Rightarrow> ScanScheduler \<Rightarrow> MonotonicTime set" where
  "frame_times now s = {u. now \<le> u \<and> (\<exists>b. bucket s = Some b \<and> fst (try_take u b) = Ok True)}"

definition clock_times :: "MonotonicTime \<Rightarrow> ScanScheduler \<Rightarrow> MonotonicTime set" where
  "clock_times now s =
     (if stop s \<noteq> None \<or> invalidating_generation s \<noteq> None then {now} else set_option (session_deadline s))
     \<union> {d. \<exists>a \<in> set (bt_values (active s)). \<exists>pu. ap_stage a = StageWaiting pu d}
     \<union> {d. \<exists>p \<in> set (bt_values (physical s)). \<exists>pu. ph_stage p = StageWaiting pu d}
     \<union> (if lifecycle s = Running
        then set (bt_values (grace s)) \<union> pg_expires ` set (bt_values (programme_grace s))
          \<union> {v \<in> set (bt_values (adaptive_not_before s)). now < v}
        else {})"

definition due_times :: "MonotonicTime \<Rightarrow> ScanScheduler \<Rightarrow> MonotonicTime set" where
  "due_times now s = clock_times now s
     \<union> (if lifecycle s = Running \<and> (has_pending_frame now s \<or> can_admit s) then frame_times now s else {})"

text \<open>
  A wake-up time serves a state: there is none exactly when the session is over, and
  otherwise it is the earliest time at which the session has something to do.
\<close>

definition timely :: "MonotonicTime \<Rightarrow> ScanScheduler \<Rightarrow> MonotonicTime option \<Rightarrow> bool" where
  "timely now s wake \<longleftrightarrow>
     (if is_terminal s then wake = None else wake \<noteq> None \<and> least_of (due_times now s) wake)"

lemma wakeup_least: "least_of (clock_times now s) (wakeup_before_token now s)"
proof -
  let ?A = "if stop s \<noteq> None \<or> invalidating_generation s \<noteq> None then {now} else set_option (session_deadline s)"
  let ?w = "if stop s \<noteq> None \<or> invalidating_generation s \<noteq> None then Some now else session_deadline s"
  have "least_of ?A ?w" using least_of_option [of "Some now"] least_of_option [of "session_deadline s"] by simp
  note w = least_of_stages [OF least_of_stages [OF this, of "map ap_stage (bt_values (active s))"], of "map ph_stage (bt_values (physical s))"]
  have T: "?A \<union> {d. \<exists>pu. StageWaiting pu d \<in> set (map ap_stage (bt_values (active s)))}
      \<union> {d. \<exists>pu. StageWaiting pu d \<in> set (map ph_stage (bt_values (physical s)))}
    = ?A \<union> {d. \<exists>a \<in> set (bt_values (active s)). \<exists>pu. ap_stage a = StageWaiting pu d}
      \<union> {d. \<exists>p \<in> set (bt_values (physical s)). \<exists>pu. ph_stage p = StageWaiting pu d}"
    by (auto simp: image_iff eq_commute [of "StageWaiting _ _"])
  note w' = w [unfolded T]
  show ?thesis
  proof (cases "lifecycle s = Running")
    case True
    let ?g = "bt_values (grace s)" and ?p = "map pg_expires (bt_values (programme_grace s))"
      and ?n = "filter (\<lambda>v. now < v) (bt_values (adaptive_not_before s))"
    note least_of_earlier [OF least_of_earlier [OF least_of_earlier [OF w' least_of_min [of ?g]] least_of_min [of ?p]]
        least_of_min [of ?n]]
    moreover have "clock_times now s = ?A \<union> {d. \<exists>a \<in> set (bt_values (active s)). \<exists>pu. ap_stage a = StageWaiting pu d}
      \<union> {d. \<exists>p \<in> set (bt_values (physical s)). \<exists>pu. ph_stage p = StageWaiting pu d} \<union> set ?g \<union> set ?p \<union> set ?n"
      using True by (auto simp: clock_times_def)
    ultimately show ?thesis using True by (simp only: wakeup_before_token_def Let_def if_True simp_thms)
  next
    case False
    then show ?thesis using w' by (simp only: clock_times_def wakeup_before_token_def Let_def if_False Un_empty_right)
  qed
qed

lemma wakeup_Some:
  assumes "stop s \<noteq> None \<or> session_deadline s \<noteq> None"
  shows "wakeup_before_token now s \<noteq> None"
proof -
  have "clock_times now s \<noteq> {}" using assms by (auto simp: clock_times_def)
  then show ?thesis using wakeup_least [of now s] by (auto simp: least_of_def)
qed

lemma bucket_frame [simp]:
  "clock_times now (s\<lparr>bucket := b\<rparr>) = clock_times now s" "has_pending_frame now (s\<lparr>bucket := b\<rparr>) = has_pending_frame now s"
  "can_admit (s\<lparr>bucket := b\<rparr>) = can_admit s" "is_terminal (s\<lparr>bucket := b\<rparr>) = is_terminal s"
  "report_of (s\<lparr>bucket := b\<rparr>) = report_of s"
  by (simp_all add: fun_eq_iff clock_times_def has_pending_frame_def can_schedule_programme_variant_def can_admit_def
      is_terminal_def report_of_def outstanding_physical_def total_correlation_entries_def cong: if_cong option.case_cong)

lemma frame_times_least:
  assumes "next_ready now b = (Ok ready, b')" and "0 < bucket_rate b" and "TOKEN_SCALE \<le> capacity_scaled b"
  shows "least_of (frame_times now (s\<lparr>bucket := Some b'\<rparr>)) (Some ready)"
  using next_ready_first [OF assms] by (auto simp: least_of_def frame_times_def)

lemma next_ready_rate:
  assumes "rate_ok c fr (Some b) sd k" and "next_ready now b = (r, b')"
  shows "rate_ok c fr (Some b') sd k" and "r = Inl e \<Longrightarrow> e = ClockRegressed \<or> e = DeadlineOverflow"
proof -
  show "rate_ok c fr (Some b') sd k"
    using assms rate_refill [OF assms(1)]
    by (auto simp: next_ready_def Let_def split: sum.splits if_splits option.splits)
  show "e = ClockRegressed \<or> e = DeadlineOverflow" if "r = Inl e"
    using assms(2) that
    by (auto simp: next_ready_def refill_def Let_def result_simps split: sum.splits if_splits option.splits)
qed

lemma safe_make_report:
  assumes G: "good w" and started: "lifecycle (sched w) \<noteq> Created"
  shows "wp sane (make_report now) (\<lambda>r w'. calm w w' \<and> report w' = report w \<and>
    (\<exists>wake. r = report_of (sched w') (report w') wake \<and> timely now (sched w') wake)) w"
proof (cases "is_terminal (sched w)")
  case True
  then show ?thesis using G by (auto simp: make_report_def wp_simps calm_def timely_def)
next
  case False
  let ?s = "sched w"
  note I = G [unfolded good_def]
  have armed: "stop ?s \<noteq> None \<or> bucket ?s \<noteq> None \<and> session_deadline ?s \<noteq> None"
    using inv_life [OF I] False started by (cases "lifecycle ?s") (auto simp: life_ok_def is_terminal_def)
  then have "stop ?s \<noteq> None \<or> session_deadline ?s \<noteq> None" by blast
  from wakeup_Some [OF this, of now] obtain t where t: "wakeup_before_token now ?s = Some t" by blast
  have clock: "least_of (clock_times now ?s) (Some t)" using wakeup_least [of now ?s] t by simp
  show ?thesis
  proof (cases "lifecycle ?s = Running \<and> (has_pending_frame now ?s \<or> can_admit ?s)")
    case False
    then have "timely now ?s (Some t)" using \<open>\<not> is_terminal ?s\<close> clock by (auto simp: timely_def due_times_def)
    then show ?thesis
      using False \<open>\<not> is_terminal ?s\<close> G t(1) by (auto simp: make_report_def wp_simps calm_def)
  next
    case True
    show ?thesis
    proof (cases "bucket ?s")
      case None
      then show ?thesis
        using True \<open>\<not> is_terminal ?s\<close> G good_orderly [OF G] by (simp add: make_report_def wp_simps)
    next
      case (Some b)
      obtain r b' where nr: "next_ready now b = (r, b')" by (cases "next_ready now b")
      have rate: "rate_ok (config ?s) (lifecycle ?s = Created) (Some b) (session_deadline ?s) (frames (trace w))"
        using inv_rate [OF I] Some by simp
      have b: "0 < bucket_rate b" "TOKEN_SCALE \<le> capacity_scaled b"
        using rate inv_fixed [OF I] by (auto simp: rate_ok_def fixed_ok_def config_ok_def TOKEN_SCALE_def)
      have "timely now (?s\<lparr>bucket := Some b'\<rparr>) (earlier (Some t) (Some u))" if "r = Ok u" for u
        using least_of_earlier [OF clock frame_times_least [OF nr [unfolded that] b]] True \<open>\<not> is_terminal ?s\<close>
        by (auto simp: timely_def due_times_def earlier_def)
      moreover have "inv (?s\<lparr>bucket := Some b'\<rparr>) (trace w)" by (rule inv_bucket [OF I next_ready_rate(1) [OF rate nr]])
      ultimately show ?thesis
        using True \<open>\<not> is_terminal ?s\<close> Some nr next_ready_rate(2) [OF rate nr] good_orderly [OF G] t(1)
        by (auto simp: make_report_def wp_simps calm_def good_def split: sum.splits)
    qed
  qed
qed

section \<open>Driving\<close>

lemma safe_pause_boundary:
  assumes G: "good w"
  shows "wp sane pause_boundary (\<lambda>_ w'. moved w w' \<and> transitions (report w') \<le> transitions (report w) + 1) w"
proof -
  have "good (w\<lparr>sched := (sched w)\<lparr>lifecycle := Paused\<rparr>, report := r\<rparr>)" if "lifecycle (sched w) = Pausing" for r
    by (rule safe_switch [OF G]) (use that in simp_all)
  then show ?thesis
    using G by (auto simp: pause_boundary_def wp_simps moved_def advance_def)
qed

definition bounded :: "('t, 'r, 's) sys \<Rightarrow> ('t, 'r, 's) sys \<Rightarrow> bool" where
  "bounded w w' \<longleftrightarrow> moved w w' \<and> within_one w w'"

lemma bounded_trans: "bounded w w' \<Longrightarrow> bounded w' w'' \<Longrightarrow> bounded w w''"
  by (auto simp: bounded_def intro: moved_trans within_one_trans)

lemma bounded_refl: "good w \<Longrightarrow> bounded w w"
  by (simp add: bounded_def moved_def)

lemma bounded_good: "bounded w w' \<Longrightarrow> good w'"
  by (simp add: bounded_def moved_def)

text \<open>Sequencing of bounded steps.\<close>

lemma bounded_then:
  assumes "wp sane m (\<lambda>_. bounded w) w" and "\<And>w'. bounded w w' \<Longrightarrow> wp sane n (\<lambda>_. bounded w') w'"
  shows "wp sane (sthen m n) (\<lambda>_. bounded w) w"
  unfolding wp_sthen by (rule wp_cons [OF assms(1)], rule wp_cons [OF assms(2)]) (auto intro: bounded_trans)

lemma bounded_guard:
  assumes "good w" and "P (sched w) \<Longrightarrow> wp sane m (\<lambda>_. bounded w) w"
  shows "wp sane (sbind (gets P) (\<lambda>b. swhen b m)) (\<lambda>_. bounded w) w"
  using assms bounded_refl [OF assms(1)] by (simp add: wp_simps)

lemma bounded_guard_then:
  assumes "good w" and "P (sched w) \<Longrightarrow> wp sane m (\<lambda>_. bounded w) w"
    and "\<And>w'. bounded w w' \<Longrightarrow> wp sane n (\<lambda>_. bounded w') w'"
  shows "wp sane (sbind (gets P) (\<lambda>b. sthen (swhen b m) n)) (\<lambda>_. bounded w) w"
  using bounded_then [of "swhen (P (sched w)) m" w n] assms bounded_refl [OF assms(1)]
  by (simp add: wp_sbind wp_gets wp_swhen)

lemma bounded_drive_settle:
  assumes G: "good w"
  shows "wp sane (drive_settle env now) (\<lambda>_. bounded w) w"
  unfolding drive_settle_def
proof (rule bounded_guard_then [OF G])
  show "wp sane (settle_stop env now) (\<lambda>_. bounded w) w" if "stop (sched w) \<noteq> None"
    by (rule wp_cons [OF moved_settle_stop [OF G that]]) (simp add: bounded_def ceiling_one)
next
  fix w1
  assume "bounded w w1"
  then have G1: "good w1" by (rule bounded_good)
  show "wp sane (sbind (gets (\<lambda>s. stop s = None \<and> invalidating_generation s \<noteq> None)) (\<lambda>b.
      sthen (swhen b (settle_context_invalidation env now)) (
      sbind (gets (\<lambda>s. \<not> is_terminal s \<and> stop s = None \<and> invalidating_generation s = None)) (\<lambda>b.
      swhen b (process_timeouts env now))))) (\<lambda>_. bounded w1) w1"
  proof (rule bounded_guard_then [OF G1])
    show "wp sane (settle_context_invalidation env now) (\<lambda>_. bounded w1) w1"
      if "stop (sched w1) = None \<and> invalidating_generation (sched w1) \<noteq> None"
      by (rule wp_cons [OF moved_settle_context [OF G1]]) (use that in \<open>auto simp: bounded_def ceiling_one moved_calm\<close>)
  next
    fix w2
    assume "bounded w1 w2"
    then have G2: "good w2" by (rule bounded_good)
    show "wp sane (sbind (gets (\<lambda>s. \<not> is_terminal s \<and> stop s = None \<and> invalidating_generation s = None)) (\<lambda>b.
      swhen b (process_timeouts env now))) (\<lambda>_. bounded w2) w2"
      by (rule bounded_guard [OF G2], rule wp_cons [OF safe_process_timeouts [OF G2]])
        (auto simp: bounded_def ceiling_one intro: moved_calm calm_mode)
  qed
qed

lemma bounded_drive_running:
  fixes w :: "('t, 'r, 's) sys"
  assumes G: "good w"
  shows "wp sane (drive_running env now) (\<lambda>_. bounded w) w"
proof (cases "lifecycle (sched w) = Running")
  case False
  then show ?thesis using bounded_refl [OF G] by (simp add: drive_running_def wp_simps)
next
  case True
  define J where "J w' \<longleftrightarrow> good w' \<and> onward w w' \<and> within_one w w'" for w' :: "('t, 'r, 's) sys"
  have J_step: "J w'" if "J w1" "good w'" "onward w1 w'" "within_one w1 w'" for w1 w'
    using that by (auto simp: J_def intro: onward_trans within_one_trans)
  have emit: "wp sane (emit_pending env now) (\<lambda>_. J) w'" if "J w'" for w'
    by (rule wp_cons [OF safe_emit_pending]) (use that J_step [OF that] in \<open>auto simp: J_def\<close>)
  have open': "lifecycle (sched w') \<notin> {Created, Closed}" if "J w'" for w' using that True by (auto simp: J_def onward_def)
  have admit': "wp sane (admit env now) (\<lambda>_. J) w'" if "J w'" for w'
    by (rule wp_cons [OF safe_admit [OF _ open' [OF that]]])
      (use that J_step [OF that] in \<open>auto simp: J_def onward_def\<close>)
  have fin: "bounded w w'" if "J w'" for w'
    using that onward_advance [of w w'] True by (auto simp: J_def bounded_def moved_def)
  have "J w" using G by (simp add: J_def)
  have rest: "wp sane (sthen (swhen (\<not> waiting) (admit env now)) (emit_pending env now)) (\<lambda>_. bounded w) w'"
    if "J w'" for waiting w'
    unfolding wp_sthen
    by (rule wp_cons [of _ _ "\<lambda>_. J"], use that admit' in \<open>simp add: wp_swhen\<close>)
      (rule wp_cons [OF emit], use fin in auto)
  have "wp sane (sthen (emit_pending env now) (sbind (gets context_waiting) (\<lambda>waiting.
       sthen (swhen (\<not> waiting) (admit env now)) (emit_pending env now)))) (\<lambda>_. bounded w) w"
    unfolding wp_sthen [of _ "emit_pending env now"]
    by (rule wp_cons [OF emit [OF \<open>J w\<close>]]) (use rest in \<open>simp add: wp_sbind wp_gets\<close>)
  then show ?thesis using True by (simp add: drive_running_def wp_sbind wp_gets wp_swhen)
qed

lemma wp_then:
  "wp E m (\<lambda>_. J) w \<Longrightarrow> (\<And>w'. J w' \<Longrightarrow> wp E n Q w') \<Longrightarrow> wp E (sthen m n) Q w"
  unfolding wp_sthen by (erule wp_cons)

lemma wp_then_ignore:
  "wp E m (\<lambda>_. J) w \<Longrightarrow> (\<And>w'. J w' \<Longrightarrow> wp E n Q w') \<Longrightarrow> wp E (sbind m (\<lambda>_. n)) Q w"
  unfolding wp_sbind by (erule wp_cons)

lemma safe_drive:
  fixes w :: "('t, 'r, 's) sys"
  assumes G: "good w"
  shows "wp sane (drive env now) (\<lambda>r w'. moved w w' \<and> transitions (report w') \<le> MAX_TRANSITIONS_PER_DRIVE + 1 \<and>
    (\<exists>wake. r = report_of (sched w') (report w') wake \<and> timely now (sched w') wake)) w"
proof (cases "lifecycle (sched w) = Created \<or> lifecycle (sched w) = Closed")
  case True
  then show ?thesis using G good_orderly [OF G] by (auto simp: drive_def wp_simps)
next
  case False
  define J where "J w' \<longleftrightarrow> moved w w' \<and> transitions (report w') \<le> MAX_TRANSITIONS_PER_DRIVE + 1" for w' :: "('t, 'r, 's) sys"
  have J_good: "good w'" if "J w'" for w' using that by (simp add: J_def moved_def)
  have J_step: "J w'" if "J w1" "bounded w1 w'" for w1 w'
    using that by (auto simp: J_def bounded_def within_one_def intro: moved_trans)
  let ?w = "w\<lparr>sched := (sched w)\<lparr>last_now := Some now, grace := bt_retain (\<lambda>_ e. now < e) (grace (sched w))\<rparr>,
      report := \<lparr>transitions = 0, emissions = 0, results = 0\<rparr>\<rparr>"
  have G1: "good ?w"
    using inv_prune_grace [of "{#}" "(sched w)\<lparr>last_now := Some now\<rparr>" "trace w"] G by (simp add: good_def)
  have prune: "wp sane (prune_programme_grace env now) (\<lambda>_ w'. moved w w' \<and> transitions (report w') \<le> MAX_TRANSITIONS_PER_DRIVE) ?w"
    by (rule wp_cons [OF safe_prune_programme_grace [OF G1]]) (auto simp: moved_def within_ceiling_def dest: mode_eqD(4))
  have pause: "wp sane pause_boundary (\<lambda>_. J) (w'\<lparr>sched := (sched w')\<lparr>sink_backpressured := False\<rparr>\<rparr>)"
    if "moved w w'" "transitions (report w') \<le> MAX_TRANSITIONS_PER_DRIVE" for w'
    by (rule wp_cons [OF safe_pause_boundary]) (use that in \<open>auto simp: J_def moved_def good_def intro: advance_trans\<close>)
  have dead: "wp sane (stop_at_deadline now) (\<lambda>_. J) w'" if "J w'" for w'
    by (rule wp_cons [OF safe_stop_at_deadline [OF J_good [OF that]]]) (use that in \<open>auto simp: J_def intro: moved_trans\<close>)
  have settle: "wp sane (drive_settle env now) (\<lambda>_. J) w'" if "J w'" for w'
    by (rule wp_cons [OF bounded_drive_settle [OF J_good [OF that]]]) (rule J_step [OF that])
  have running: "wp sane (drive_running env now) (\<lambda>_. J) w'" if "J w'" for w'
    by (rule wp_cons [OF bounded_drive_running [OF J_good [OF that]]]) (rule J_step [OF that])
  have complete: "wp sane complete_if_finished (\<lambda>_. J) w'" if "J w'" for w'
    by (rule wp_cons [OF safe_complete [OF J_good [OF that]]]) (use that in \<open>auto simp: J_def intro: moved_trans\<close>)
  have report: "wp sane (make_report now) (\<lambda>r w2. moved w w2 \<and> transitions (report w2) \<le> MAX_TRANSITIONS_PER_DRIVE + 1 \<and>
      (\<exists>wake. r = report_of (sched w2) (report w2) wake \<and> timely now (sched w2) wake)) w'" if "J w'" for w'
    by (rule wp_cons [OF safe_make_report [OF J_good [OF that]]])
      (use that False in \<open>auto simp: J_def moved_def calm_def report_of_def advance_def\<close>)
  have tail: "wp sane (sthen (drive_settle env now) (sthen (drive_running env now) (sthen complete_if_finished (make_report now))))
      (\<lambda>r w2. moved w w2 \<and> transitions (report w2) \<le> MAX_TRANSITIONS_PER_DRIVE + 1 \<and>
      (\<exists>wake. r = report_of (sched w2) (report w2) wake \<and> timely now (sched w2) wake)) w'" if "J w'" for w'
    by (rule wp_then [OF settle [OF that] wp_then [OF running wp_then [OF complete report]]])
  have late: "wp sane (sthen pause_boundary (sbind (stop_at_deadline now) (\<lambda>_. sthen (drive_settle env now)
      (sthen (drive_running env now) (sthen complete_if_finished (make_report now))))))
      (\<lambda>r w2. moved w w2 \<and> transitions (report w2) \<le> MAX_TRANSITIONS_PER_DRIVE + 1 \<and>
      (\<exists>wake. r = report_of (sched w2) (report w2) wake \<and> timely now (sched w2) wake))
      (w'\<lparr>sched := (sched w')\<lparr>sink_backpressured := False\<rparr>\<rparr>)"
    if "moved w w'" "transitions (report w') \<le> MAX_TRANSITIONS_PER_DRIVE" for w'
    by (rule wp_then [OF pause [OF that] wp_then_ignore [OF dead tail]])
  show ?thesis
    using False G good_orderly [OF G]
    by (simp add: drive_def wp_sbind [of _ "gets _"] wp_gets wp_sthen [of _ "observe_now now"] wp_observe_now
        wp_sthen [of _ "prune_grace now"] prune_grace_def wp_upd wp_sthen [of _ "reset_report"] wp_sthen [of _ "upd _"] wp_report
        wp_sthen [of _ "prune_programme_grace env now"])
      (intro impI wp_cons [OF prune], use late in \<open>simp add: wp_sthen [of _ "upd _"] wp_upd\<close>)
qed

section \<open>Sessions\<close>

text \<open>The requests of an embedder, one for each public operation that changes the state.\<close>

datatype Request =
    Start MonotonicTime
  | Drive MonotonicTime
  | Evidence MonotonicTime EvidenceEvent
  | RequestPause
  | Resume
  | Cancel MonotonicTime
  | FailTransport MonotonicTime nat
  | FailContext MonotonicTime
  | InvalidateContext MonotonicTime "nat option"
  | ContextRestored
  | RecordDiagnostic DiagnosticKind
  | Close

fun perform :: "('t, 'r, 's) env \<Rightarrow> Request \<Rightarrow> ('t, 'r, 's, unit) op" where
  "perform env (Start now) = start now"
| "perform env (Drive now) = sbind (drive env now) (\<lambda>_. sret ())"
| "perform env (Evidence now event) = handle_evidence env now event"
| "perform env RequestPause = request_pause"
| "perform env Resume = resume"
| "perform env (Cancel now) = cancel env now"
| "perform env (FailTransport now code) = transport_failed env now code"
| "perform env (FailContext now) = context_failed env now"
| "perform env (InvalidateContext now g) = invalidate_context env now g"
| "perform env ContextRestored = context_restored"
| "perform env (RecordDiagnostic k) = record_diagnostic k"
| "perform env Close = close env"

text \<open>
  \<open>opened pl cfg seed w\<close>: \<open>w\<close> holds a new scheduler for the plan, and nothing has happened.
  A session is a sequence of requests, successful or not. It ends with a \<open>breaking\<close> failure: after
  a result sink that failed, or an exhausted clock or counter, the tables need not agree any
  more. Every other failure (a resolver that fails, an invalid context, a clock that runs
  backwards, a request that the phase of the session does not admit) leaves a state from which
  the session goes on.
\<close>

definition opened :: "ScanPlan \<Rightarrow> SchedulerConfig \<Rightarrow> SchedulingSeed \<Rightarrow> ('t, 'r, 's) sys \<Rightarrow> bool" where
  "opened pl cfg seed w \<longleftrightarrow> plan_ok pl \<and> trace w = [] \<and>
     (case SeededPermutation_new (logical_probe_count pl) seed of
        Some (Inr perm) \<Rightarrow> ScanScheduler_new pl cfg perm = Ok (sched w)
      | _ \<Rightarrow> False)"

fun unbroken :: "(Fault, 'a) result \<Rightarrow> bool" where
  "unbroken (Inl e) = (\<not> breaking e)"
| "unbroken (Inr _) = True"

inductive session :: "('t, 'r, 's) env \<Rightarrow> ('t, 'r, 's) sys \<Rightarrow> Request list \<Rightarrow> ('t, 'r, 's) sys \<Rightarrow> bool"
  for env :: "('t, 'r, 's) env" and w :: "('t, 'r, 's) sys" where
  session_start: "session env w [] w"
| session_step: "session env w rqs w1 \<Longrightarrow> perform env rq w1 = (r, w2) \<Longrightarrow> unbroken r \<Longrightarrow> session env w (rqs @ [rq]) w2"

inductive_cases session_NilE: "session env w [] w'"

lemma good_opened:
  assumes "opened pl cfg seed w"
  shows "good w" and "plan (sched w) = pl" and "config (sched w) = cfg" and "lifecycle (sched w) = Created"
proof -
  obtain perm where perm: "SeededPermutation_new (logical_probe_count pl) seed = Some (Ok perm)"
    and new: "ScanScheduler_new pl cfg perm = Ok (sched w)" and ok: "plan_ok pl" and tr: "trace w = []"
    using assms by (auto simp: opened_def split: option.splits sum.splits)
  have perm': "perm_ok perm" "perm_length perm = logical_probe_count pl"
    using perm SeededPermutation_new_ok [of "logical_probe_count pl" seed] ok plan_counts_pos [OF ok]
    by (auto simp: plan_ok_def)
  have c: "config_ok cfg"
    and s: "sched w = \<lparr>plan = pl, config = cfg, permutation = perm, lifecycle = Created,
        session_deadline = None, last_now = None, cursor = 0, active = [], grace = [],
        programmes = [], programme_ready = [], physical = [], programme_grace = [],
        next_wire_id = logical_probe_count pl, deferred = [], per_target = [],
        per_prefix = [], adaptive_icmp_seen = [], adaptive_not_before = [],
        bucket = None, rtt = RttEstimator_default,
        diagnostics = DiagnosticCounters_default, context_waiting = False,
        sink_backpressured = False, stop = None, invalidating_generation = None\<rparr>"
    using new perm' by (auto simp: ScanScheduler_new_def config_validate_Ok_iff split: sum.splits)
  have "inv (sched w) []"
    unfolding s inv_with_def
    using ok c perm'
    by (simp add: fixed_ok_def tables_ok_def occ_ok_def tgt_occ_def pfx_occ_def counts.holds_zero link_ok_def
        wire_ok_def probe_ok_def prog_ok_def ids_ok_def held_def perm_image_def trace_ok_def caps_ok_def
        life_ok_def send_ok_def rate_ok_def)
  then show "good w" by (simp add: good_def tr)
  show "plan (sched w) = pl" "config (sched w) = cfg" "lifecycle (sched w) = Created" by (simp_all add: s)
qed

section \<open>One request\<close>

lemma safe_perform:
  assumes G: "good w"
  shows "wp sane (perform env rq) (\<lambda>_. good) w"
proof (cases rq)
  case (Drive now)
  then show ?thesis by (simp add: wp_sbind wp_sret_fun) (rule wp_cons [OF safe_drive [OF G]], simp add: moved_def)
qed (auto simp: moved_def
    intro: wp_cons [OF safe_start [OF G]] wp_cons [OF moved_handle_evidence [OF G]] wp_cons [OF safe_cancel [OF G]]
      safe_transport_failed [OF G] safe_context_failed [OF G] wp_cons [OF safe_invalidate_context [OF G]]
      wp_cons [OF safe_close [OF G]] wp_cons [OF safe_requests(1) [OF G]] wp_cons [OF safe_requests(2) [OF G]]
      safe_requests(3,4) [OF G])

lemma good_unbroken:
  assumes "good w" and "perform env rq w = (r, w')" and "unbroken r"
  shows "good w'"
  using safe_perform [OF assms(1), of env rq] assms(2,3) by (cases r) (simp_all add: wp_def)

end
