(* ===== verification/Scheduler_Constant.thy ===== *)
theory Scheduler_Constant
  imports Scheduler_Session
begin

text \<open>
  Relations between the state before and after an operation that hold on success and on
  failure alike. Three contracts build on each other. A quiet relation asks for the elementary
  steps that leave the phase of the session alone: updates of the scheduler that keep the plan,
  the configuration, the permutation, the lifecycle and the pending stop, updates of the report,
  and the calls to the outside; the operations that neither send nor stop respect it. An
  emitting relation also allows for what sending may cause, the failure of the transport, and
  for completion. A stable relation allows every change of the phase, and all requests of the
  embedder respect it.
\<close>

named_theorems steady "actions that respect the relation"

locale quiet_relation =
  fixes env :: "('t, 'r, 's) env" and R :: "('t, 'r, 's) sys \<Rightarrow> ('t, 'r, 's) sys \<Rightarrow> bool"
  assumes R_refl: "R w w"
    and R_trans: "R w w' \<Longrightarrow> R w' w'' \<Longrightarrow> R w w''"
    and R_sched: "plan s = plan (sched w) \<Longrightarrow> config s = config (sched w) \<Longrightarrow>
        permutation s = permutation (sched w) \<Longrightarrow> lifecycle s = lifecycle (sched w) \<Longrightarrow> stop s = stop (sched w) \<Longrightarrow>
        R w (w\<lparr>sched := s\<rparr>)"
    and R_report: "R w (w\<lparr>report := r\<rparr>)"
    and R_transport: "R w (snd (call_emit env em w))" "R w (snd (call_retire env i w))"
    and R_resolve: "R w (snd (call_resolve env p w))"
    and R_reserve: "R w (snd (call_reserve env w))" "R w (snd (call_reserve_bytes env n w))"
    and R_commit: "R w (snd (call_commit env res w))" "R w (snd (call_commit_bytes env res m n w))"
    and R_release: "R w (snd (call_release env n w))" "R w (snd (call_release_bytes env n b w))"
begin

definition steadily :: "('t, 'r, 's, 'a) op \<Rightarrow> bool" where
  "steadily m \<longleftrightarrow> (\<forall>w. R w (snd (m w)))"

lemma steadily_get: "steadily m \<Longrightarrow> m w = (r, w') \<Longrightarrow> R w w'"
  unfolding steadily_def by (metis snd_conv)

lemma steadily_pure [steady]:
  "steadily (sret a)" "steadily (sfail e)" "steadily (sget f)" "steadily (ok_or_throw x err)" "steadily (expect y)"
  "steadily (slift r)" "steadily (gets g)"
  by (simp_all add: steadily_def sret_def sfail_def sget_def ok_or_throw_def expect_def slift_def gets_def R_refl
      split: option.splits sum.splits)

lemma steadily_sbind [steady]: "steadily m \<Longrightarrow> (\<And>a. steadily (f a)) \<Longrightarrow> steadily (sbind m f)"
  unfolding steadily_def sbind_def
proof (intro allI)
  fix w
  assume m: "\<forall>w. R w (snd (m w))" and f: "\<And>a. \<forall>w. R w (snd (f a w))"
  have "R w w'" if "m w = (r, w')" for r w' using m that by (metis snd_conv)
  then show "R w (snd (case m w of (Inl e, w') \<Rightarrow> (Err e, w') | (Inr a, w') \<Rightarrow> f a w'))"
    using f by (auto intro: R_trans split: prod.splits sum.splits)
qed

lemma steadily_sthen [steady]: "steadily m \<Longrightarrow> steadily n \<Longrightarrow> steadily (sthen m n)"
  by (simp add: sthen_def steadily_sbind)

lemma steadily_swhen [steady]: "(b \<Longrightarrow> steadily m) \<Longrightarrow> steadily (swhen b m)"
  by (simp add: swhen_def steadily_pure)

lemma steadily_sloop [steady]: "(\<And>x. steadily (f x)) \<Longrightarrow> steadily (sloop f xs)"
  by (induction xs) (auto intro!: steady)

lemma steadily_sfor [steady]: "(\<And>x. steadily (f x)) \<Longrightarrow> steadily (sfor f xs)"
  by (induction xs) (auto intro!: steady)

lemma steadily_upd [steady]:
  "(\<And>s. plan (f s) = plan s \<and> config (f s) = config s \<and> permutation (f s) = permutation s \<and>
      lifecycle (f s) = lifecycle s \<and> stop (f s) = stop s) \<Longrightarrow> steadily (upd f)"
  by (simp add: steadily_def upd_def smod_def R_sched)

lemma steadily_report [steady]:
  "steadily reset_report" "steadily bump_transitions" "steadily bump_emissions" "steadily bump_results"
  by (simp_all add: steadily_def reset_report_def bump_transitions_def bump_emissions_def bump_results_def smod_def R_report)

lemma steadily_calls [steady]:
  "steadily (call_emit env em)" "steadily (call_retire env i)" "steadily (call_resolve env p)" "steadily (call_reserve env)"
  "steadily (call_reserve_bytes env n)" "steadily (call_commit env res)" "steadily (call_commit_bytes env res m n)"
  "steadily (call_release env n)" "steadily (call_release_bytes env n b)"
  by (simp_all add: steadily_def R_transport R_resolve R_reserve R_commit R_release)

lemma steadily_access [steady]:
  "steadily (get_active i)" "steadily (get_physical i)" "steadily (get_programme i)" "steadily (upd_active i f)"
  "steadily (upd_physical i g)" "steadily (upd_programme i h)" "steadily (release_target t)" "steadily (release_prefix k)"
  "steadily (count_diag d)"
  by (auto simp: get_active_def get_physical_def get_programme_def upd_active_def upd_physical_def upd_programme_def
      release_target_def release_prefix_def count_diag_def intro!: steady)

lemma steadily_small [steady]:
  "steadily (take_token now)" "steadily (observe_now now)" "steadily (prune_adaptive_target_state t)"
  "steadily (forget_programme_queues lid)" "steadily (drop_physical t k i)" "steadily (deadline_for now n)"
  "steadily (programme_strategy lid)" "steadily (pace_target now t)" "steadily (stop_programme lid)"
  "steadily (note_programme_sent ph)" "steadily (frame_variant p)"
  by (auto simp: take_token_def observe_now_def prune_adaptive_target_state_def forget_programme_queues_def
      drop_physical_def deadline_for_def programme_strategy_def pace_target_def stop_programme_def
      note_programme_sent_def frame_variant_def intro!: steady split: prod.splits option.splits)

lemma steadily_ends [steady]:
  "steadily (terminalize env i now t b)" "steadily (settle_programme env lid now)"
  "steadily (abort_programme env lid now oc reason)" "steadily (finish_programme_correlations lid nd)"
  by (auto simp: terminalize_def settle_programme_def abort_programme_def finish_programme_correlations_def Let_def
      intro!: steady split: prod.splits option.splits)

lemma steadily_settle [steady]:
  "steadily (settle_or_abort env now oc reason lid)" "steadily (settle_ready_programmes env now)"
  "steadily (settle_context_invalidation env now)"
  by (auto simp: settle_or_abort_def settle_ready_programmes_def
      settle_context_invalidation_def Let_def intro!: steady split: prod.splits option.splits)

lemma steadily_admission [steady]:
  "steadily (next_candidate dr)" "steadily (defer_probe p)" "steadily (push_front p)" "steadily (requeue_front p)"
  by (auto simp: next_candidate_def defer_probe_def push_front_def requeue_front_def
      intro!: steady split: prod.splits option.splits list.splits sum.splits)

lemma steadily_admit_one [steady]: "steadily (admit_one env now p)"
proof -
  have "steadily (admit_programme env now p ctx n b)" "steadily (admit_single env p ctx)" for ctx n b
    by (auto simp: admit_programme_def admit_single_def intro!: steady split: sum.splits SinkReservation.splits)
  then have "steadily (admit_ready env now p ctx)" for ctx
    by (auto simp: admit_ready_def intro!: steady split: option.splits)
  then show ?thesis
    by (auto simp: admit_one_def intro!: steady split: sum.splits ContextResolution.splits)
qed

lemma steadily_admit [steady]: "steadily (admit env now)"
proof -
  have "steadily (admit_loop env now n dr)" for n dr
    by (induction n arbitrary: dr) (auto intro!: steady split: option.splits)
  then show ?thesis by (auto simp: admit_def intro!: steady)
qed

lemma steadily_schedule [steady]: "steadily (schedule_programme_variants now)"
proof -
  have phys: "steadily (schedule_physical lid lg ma ix v pu)" "steadily (requeue_ready lid)" for lid lg ma ix v pu
    by (auto simp: schedule_physical_def requeue_ready_def Let_def intro!: steady)
  then have one: "steadily (schedule_one now)"
    by (auto simp: schedule_one_def Let_def intro!: steady split: list.splits option.splits)
  have "R w (snd (schedule_loop now turns w))" for turns w
  proof (induction now turns w rule: schedule_loop.induct)
    case (1 now turns w)
    have one': "steadily (schedule_one now)"
      using phys by (auto simp: schedule_one_def Let_def intro!: steady split: list.splits option.splits)
    obtain r w' where r: "schedule_one now w = (r, w')" by (cases "schedule_one now w")
    note step = steadily_get [OF one' r]
    have "R w (snd (schedule_loop now (if again then turns else turns - 1) w'))"
      if "r = Inr (Some again)" "0 < turns \<and> schedule_guard w" for again
      using R_trans [OF step 1 [OF that(2) r [symmetric] that(1) refl]] .
    then show ?case
      using step r R_refl by (simp add: schedule_loop.simps [of now turns w] split: sum.splits option.splits)
  qed
  then show ?thesis by (auto simp: schedule_programme_variants_def steadily_def [of "schedule_loop _ _"] intro!: steady)
qed

lemma steadily_clock [steady]:
  "steadily (retire_physical wire now)" "steadily (timeout_programme_one wire now)" "steadily (timeout_one env i now)"
  "steadily (process_timeouts env now)" "steadily (prune_grace now)" "steadily (prune_programme_grace env now)"
proof -
  show r: "steadily (retire_physical wire now)" for wire
    by (auto simp: retire_physical_def intro!: steady)
  show t: "steadily (timeout_programme_one wire now)" for wire
    by (auto simp: timeout_programme_one_def intro!: steady r split: ActiveStage.splits EmissionPurpose.splits)
  show o: "steadily (timeout_one env i now)" for i
    by (auto simp: timeout_one_def intro!: steady split: ActiveStage.splits)
  show "steadily (process_timeouts env now)"
    by (auto simp: process_timeouts_def intro!: steady t o)
  have "steadily (expire_grace_one env i)" for i by (auto simp: expire_grace_one_def intro!: steady)
  then show "steadily (prune_programme_grace env now)" by (auto simp: prune_programme_grace_def intro!: steady)
qed (auto simp: prune_grace_def intro!: steady)

lemma steadily_programme_evidence [steady]: "steadily (handle_programme_evidence env now event)"
proof -
  have b: "steadily (update_programme_best lid b)" "steadily (hint_family lid service)" "steadily (count_icmp lid)"
    "steadily (neighbor_answered wire lid)" for lid b service wire
    by (auto simp: update_programme_best_def hint_family_def count_icmp_def neighbor_answered_def intro!: steady)
  have l: "steadily (weigh_late lid b)" for lid b by (auto simp: weigh_late_def Let_def intro!: steady b)
  have g: "steadily (handle_grace_evidence env now event g)" for g
    by (auto simp: handle_grace_evidence_def intro!: steady b l split: option.splits)
  have x: "steadily (handle_expired_physical env now event)"
    by (auto simp: handle_expired_physical_def intro!: steady l split: option.splits)
  have s: "steadily (settle_evidence env now event lid b)" for lid b
    by (auto simp: settle_evidence_def Let_def intro!: steady b)
  have "steadily (handle_physical_evidence env now event ph)" for ph
    by (auto simp: handle_physical_evidence_def intro!: steady b x s
        split: ActiveStage.splits EmissionPurpose.splits option.splits)
  then show ?thesis using g by (auto simp: handle_programme_evidence_def intro!: steady split: option.splits)
qed

lemma steadily_rest [steady]: "steadily (make_report now)" "steadily (invalidation_filter env now event)"
  by (auto simp: make_report_def invalidation_filter_def Let_def intro!: steady split: prod.splits option.splits)

end

section \<open>Sending\<close>

locale emitting_relation = quiet_relation env R
  for env :: "('t, 'r, 's) env" and R :: "('t, 'r, 's) sys \<Rightarrow> ('t, 'r, 's) sys \<Rightarrow> bool" +
  assumes R_fail: "R w (snd (fail_transport env now code w))"
    and R_complete: "R w (snd (complete_if_finished w))"
begin

lemma steadily_fail [steady]: "steadily (fail_transport env now code)" "steadily complete_if_finished"
  by (simp_all add: steadily_def R_fail R_complete)

lemma steadily_frames [steady]:
  "steadily (emit_physical env now wire)" "steadily (emit_programme_pending env now)"
  "steadily (emit_frame env now i a purpose terminal)" "steadily (emit_active env now i)" "steadily (emit_pending env now)"
proof -
  show p: "steadily (emit_physical env now wire)" for wire
    by (auto simp: emit_physical_def intro!: steady split: ActiveStage.splits sum.splits)
  show q: "steadily (emit_programme_pending env now)"
    by (auto simp: emit_programme_pending_def intro!: steady p)
  show f: "steadily (emit_frame env now i a purpose terminal)" for i a purpose terminal
    by (auto simp: emit_frame_def intro!: steady split: option.splits sum.splits)
  show a: "steadily (emit_active env now i)" for i
    by (auto simp: emit_active_def intro!: steady f split: option.splits ActiveStage.splits)
  show "steadily (emit_pending env now)"
    by (auto simp: emit_pending_def intro!: steady q a)
qed

lemma steadily_running [steady]: "steadily (drive_running env now)"
  by (auto simp: drive_running_def intro!: steady)

lemma steadily_dispatch [steady]: "steadily (dispatch_evidence env now event)"
proof -
  have c: "steadily (accept_evidence env now event a)" for a
    by (auto simp: accept_evidence_def Let_def intro!: steady split: sum.splits option.splits)
  have "steadily (active_evidence env now event a)" for a
    by (auto simp: active_evidence_def intro!: steady c split: ActiveStage.splits EmissionPurpose.splits)
  then show ?thesis
    by (auto simp: dispatch_evidence_def intro!: steady split: option.splits)
qed

end

section \<open>Every request\<close>

locale stable_relation = quiet_relation env R
  for env :: "('t, 'r, 's) env" and R :: "('t, 'r, 's) sys \<Rightarrow> ('t, 'r, 's) sys \<Rightarrow> bool" +
  assumes R_phase: "plan s = plan (sched w) \<Longrightarrow> config s = config (sched w) \<Longrightarrow>
        permutation s = permutation (sched w) \<Longrightarrow> R w (w\<lparr>sched := s\<rparr>)"
    and R_stop: "R w (w\<lparr>trace := trace w @ [StopRequested]\<rparr>)"
begin

lemma steadily_any [steady]:
  "(\<And>s. plan (f s) = plan s \<and> config (f s) = config s \<and> permutation (f s) = permutation s) \<Longrightarrow> steadily (upd f)"
  "steadily (log_event StopRequested)"
  by (simp_all add: steadily_def upd_def smod_def R_phase log_event_def R_stop)

lemma steadily_stops [steady]:
  "steadily (initiate_stop oc reason final)" "steadily (settle_stop env now)" "steadily (fail_transport env now code)"
  "steadily complete_if_finished"
  by (auto simp: initiate_stop_def settle_stop_def fail_transport_def complete_if_finished_def intro!: steady)

end

sublocale stable_relation \<subseteq> emitting_relation env R
  by unfold_locales (use steadily_stops in \<open>simp_all add: steadily_def\<close>)

context stable_relation
begin

lemma steadily_drive [steady]: "steadily (drive env now)"
proof -
  have "steadily (stop_at_deadline now)" "steadily pause_boundary" "steadily (drive_settle env now)"
    by (auto simp: stop_at_deadline_def pause_boundary_def drive_settle_def intro!: steady)
  then show ?thesis by (auto simp: drive_def intro!: steady)
qed

lemma steadily_evidence [steady]: "steadily (handle_evidence env now event)"
proof -
  have "steadily (stop_at_deadline now)" by (auto simp: stop_at_deadline_def intro!: steady)
  then show ?thesis by (auto simp: handle_evidence_def intro!: steady)
qed

lemma steadily_perform: "steadily (perform env rq)"
  by (cases rq)
    (auto simp: start_def request_pause_def resume_def cancel_def transport_failed_def context_failed_def
      invalidate_context_def context_restored_def record_diagnostic_def close_def Let_def
      intro!: steady split: sum.splits option.splits)

end

section \<open>What no operation touches\<close>

definition grows :: "('t, 'r, 's) sys \<Rightarrow> ('t, 'r, 's) sys \<Rightarrow> bool" where
  "grows w w' \<longleftrightarrow> plan (sched w') = plan (sched w) \<and> config (sched w') = config (sched w)
     \<and> permutation (sched w') = permutation (sched w) \<and> (\<exists>ys. trace w' = trace w @ ys)"

interpretation fixed: stable_relation env grows for env :: "('t, 'r, 's) env"
  by unfold_locales
    (auto simp: grows_def call_emit_def call_retire_def call_resolve_def call_reserve_def call_reserve_bytes_def
      call_commit_def call_commit_bytes_def call_release_def call_release_bytes_def smod_def note_reservation_def
      split: prod.splits sum.splits SinkReservation.splits)

lemma perform_grows: "perform env rq w = (r, w') \<Longrightarrow> grows w w'"
  by (rule fixed.steadily_get [OF fixed.steadily_perform])

section \<open>Completed sessions\<close>

lemma lossless_of_good:
  assumes "good w" and "lifecycle (sched w) = Completed" and "StopRequested \<notin> set (trace w)"
  shows "mset (committed (trace w)) = mset [0..<logical_probe_count (plan (sched w))] \<and>
    (\<forall>res. Committed res \<in> set (trace w) \<longrightarrow>
      logical_probe_at (plan (sched w)) (logical_id (result_probe res)) = Ok (result_probe res))"
proof -
  note I = assms(1) [unfolded good_def]
  have idle: "active (sched w) = []" "programmes (sched w) = []"
    and drained: "cursor (sched w) = logical_probe_count (plan (sched w))" "deferred (sched w) = []"
    using inv_life [OF I] assms(2) by (auto simp: life_ok_def)
  have fixed: "perm_ok (permutation (sched w))" "perm_length (permutation (sched w)) = logical_probe_count (plan (sched w))"
    using inv_fixed [OF I] by (simp_all add: fixed_ok_def)
  have "mset (committed (trace w)) = mset_set (perm_image (permutation (sched w)) (logical_probe_count (plan (sched w))))"
    using inv_ids [OF I] assms(2,3) idle drained by (simp add: ids_ok_def held_def)
  also have "perm_image (permutation (sched w)) (logical_probe_count (plan (sched w))) = {..<logical_probe_count (plan (sched w))}"
    using perm_image_full [OF fixed(1)] fixed(2) by simp
  finally show ?thesis
    using inv_trace [OF I] by (auto simp: trace_ok_def atLeast0LessThan simp flip: mset_set_upto_eq_mset_upto)
qed

end
