(* ===== verification/Scheduler_Lifecycle.thy ===== *)
theory Scheduler_Lifecycle
  imports Scheduler_Constant
begin

text \<open>
  The phases of a session: its lifecycle together with the lifecycle a pending stop will end
  in. Each request has its edges, and every request moves along them, whether it succeeds or
  fails half-way. The operations that neither send nor stop leave the phase alone, sending may
  end the session as failed, and what remains are the few operations that start or finish a
  stop, pause or complete.
\<close>

section \<open>Phases\<close>

type_synonym phase = "SessionLifecycle \<times> SessionLifecycle option"

definition phase_of :: "('t, 'r, 's) sys \<Rightarrow> phase" where
  "phase_of w = (lifecycle (sched w), map_option final_lifecycle (stop (sched w)))"

definition same_phase :: "('t, 'r, 's) sys \<Rightarrow> ('t, 'r, 's) sys \<Rightarrow> bool" where
  "same_phase w w' \<longleftrightarrow> phase_of w' = phase_of w"

interpretation phases: quiet_relation env same_phase for env :: "('t, 'r, 's) env"
  by unfold_locales
    (auto simp: same_phase_def phase_of_def call_emit_def call_retire_def call_resolve_def call_reserve_def
      call_reserve_bytes_def call_commit_def call_commit_bytes_def call_release_def call_release_bytes_def smod_def
      split: prod.splits sum.splits)

lemma wp_quiet:
  assumes "phases.steadily m" and "\<And>a w'. phase_of w' = phase_of w \<Longrightarrow> Q a w'"
    and "\<And>e w'. phase_of w' = phase_of w \<Longrightarrow> E e w'"
  shows "wp E m Q w"
  using phases.steadily_get [OF assms(1)] assms(2,3)
  by (auto simp: wp_def same_phase_def split: prod.splits sum.splits)

lemma phase_simps [simp]:
  "phase_of (w\<lparr>sched := s\<rparr>) = (lifecycle s, map_option final_lifecycle (stop s))"
  "phase_of (w\<lparr>report := r\<rparr>) = phase_of w" "phase_of (w\<lparr>trace := t\<rparr>) = phase_of w" "phase_of (w\<lparr>transport := x\<rparr>) = phase_of w"
  by (simp_all add: phase_of_def)

section \<open>Stopping\<close>

lemma settle_stop_phase:
  assumes "phase_of w = (l, Some f)" and "\<And>a w'. phase_of w' \<in> {(l, Some f), (f, None)} \<Longrightarrow> Q a w'"
    and "\<And>e w'. phase_of w' = (l, Some f) \<Longrightarrow> E e w'"
  shows "wp E (settle_stop env now) Q w"
proof -
  obtain st where st: "stop (sched w) = Some st" "final_lifecycle st = f"
    using assms(1) by (auto simp: phase_of_def)
  have last: "wp E (upd (\<lambda>s. if active s = [] \<and> programmes s = []
      then s\<lparr>lifecycle := final_lifecycle st, stop := None\<rparr> else s)) Q w'" if "phase_of w' = phase_of w" for w'
    using that st(2) assms(1) by (auto simp: wp_upd intro!: assms(2))
  have rest: "wp E (sbind (sget (\<lambda>w. take (remaining w) (bt_keys (programmes (sched w))))) (\<lambda>pids.
      sthen (sfor (settle_or_abort env now (stop_outcome st) (stop_reason st)) pids)
       (upd (\<lambda>s. if active s = [] \<and> programmes s = []
                  then s\<lparr>lifecycle := final_lifecycle st, stop := None\<rparr> else s)))) Q w'" if "phase_of w' = phase_of w" for w'
    unfolding wp_sbind wp_sthen wp_sget
    by (rule wp_quiet) (use that last assms(1,3) in \<open>auto intro: phases.steadily_sfor phases.steadily_settle\<close>)
  show ?thesis
    unfolding settle_stop_def wp_sbind wp_gets st(1) ok_or_throw_def option.case wp_sret wp_sthen wp_sget
    by (rule wp_quiet) (use rest assms(1,3) in \<open>auto simp: wp_sbind wp_sthen wp_sget intro: phases.steadily_sfor phases.steadily_ends\<close>)
qed

lemma initiate_stop_phase:
  "wp E (initiate_stop oc reason final) Q w \<longleftrightarrow> Q () (snd (initiate_stop oc reason final w))"
  "phase_of (snd (initiate_stop oc reason final w)) = (Cancelling, Some final)"
  by (simp_all add: wp_def initiate_stop_def sthen_def sbind_def log_event_def upd_def smod_def)

lemma fail_transport_phase:
  assumes "\<And>a w'. phase_of w' \<in> {(Cancelling, Some Failed), (Failed, None)} \<Longrightarrow> Q a w'"
    and "\<And>e w'. phase_of w' = (Cancelling, Some Failed) \<Longrightarrow> E e w'"
  shows "wp E (fail_transport env now code) Q w"
  unfolding fail_transport_def wp_sthen initiate_stop_phase(1)
  by (rule settle_stop_phase [OF initiate_stop_phase(2)]) (use assms in auto)

text \<open>Sending: the phase stays, or the session has failed, or it has completed.\<close>

definition fails_over :: "('t, 'r, 's) sys \<Rightarrow> ('t, 'r, 's) sys \<Rightarrow> bool" where
  "fails_over w w' \<longleftrightarrow> phase_of w' \<in> {phase_of w, (Cancelling, Some Failed), (Failed, None)}
     \<or> fst (phase_of w) = Running \<and> phase_of w' = (Completed, snd (phase_of w))"

interpretation emits: emitting_relation env fails_over for env :: "('t, 'r, 's) env"
proof
  show "fails_over w (snd (fail_transport env now code w))" for w :: "('t, 'r, 's) sys" and now code
    using fail_transport_phase [of "\<lambda>_. fails_over w" "\<lambda>_. fails_over w" env now code w]
    by (auto simp: fails_over_def wp_def split: prod.splits sum.splits)
  show "fails_over w w''" if "fails_over w w'" "fails_over w' w''" for w w' w'' :: "('t, 'r, 's) sys"
    using that by (auto simp: fails_over_def)
qed (auto simp: fails_over_def complete_if_finished_def upd_def phase_of_def call_emit_def call_retire_def call_resolve_def
    call_reserve_def call_reserve_bytes_def call_commit_def call_commit_bytes_def call_release_def call_release_bytes_def
    smod_def split: prod.splits sum.splits)

lemma wp_emits:
  assumes "emits.steadily m" and "\<And>a w'. fails_over w w' \<Longrightarrow> Q a w'" and "\<And>e w'. fails_over w w' \<Longrightarrow> E e w'"
  shows "wp E m Q w"
  using emits.steadily_get [OF assms(1)] assms(2,3) by (auto simp: wp_def split: prod.splits sum.splits)

section \<open>Edges\<close>

text \<open>
  The edges of each request. A cancellation and the session deadline end in \<open>Completed\<close>, a
  failure of the transport or of the context in \<open>Failed\<close>, each at once or through a stop that
  is still being settled.
\<close>

fun drive_edges :: "phase \<Rightarrow> phase set" where
  "drive_edges (Running, _) =
     {(Running, None), (Completed, None), (Failed, None), (Cancelling, Some Completed), (Cancelling, Some Failed)}"
| "drive_edges (Pausing, _) = {(Paused, None), (Completed, None), (Cancelling, Some Completed)}"
| "drive_edges (Paused, _) = {(Paused, None), (Completed, None), (Cancelling, Some Completed)}"
| "drive_edges (Cancelling, Some f) = {(Cancelling, Some f), (f, None)}"
| "drive_edges (Completed, x) = {(Completed, x)}"
| "drive_edges (Failed, x) = {(Failed, x)}"
| "drive_edges _ = {}"

fun edge :: "Request \<Rightarrow> phase \<Rightarrow> phase \<Rightarrow> bool" where
  "edge (Start _) p q \<longleftrightarrow> p = (Created, None) \<and> q = (Running, None)"
| "edge (Drive _) p q \<longleftrightarrow> q \<in> drive_edges p"
| "edge (Evidence _ _) p q \<longleftrightarrow> q = p \<or> fst p \<in> {Running, Pausing, Paused} \<and>
     q \<in> {(Completed, None), (Failed, None), (Cancelling, Some Completed), (Cancelling, Some Failed)}"
| "edge RequestPause p q \<longleftrightarrow> p = (Running, None) \<and> q = (Pausing, None)"
| "edge Resume p q \<longleftrightarrow> p = (Paused, None) \<and> q = (Running, None)"
| "edge (Cancel _) p q \<longleftrightarrow> fst p \<in> {Running, Pausing, Paused} \<and> q \<in> {(Completed, None), (Cancelling, Some Completed)}"
| "edge (FailTransport _ _) p q \<longleftrightarrow>
     (if fst p \<in> {Created, Running, Pausing, Paused} then q \<in> {(Failed, None), (Cancelling, Some Failed)} else q = p)"
| "edge (FailContext _) p q \<longleftrightarrow>
     (if fst p \<in> {Created, Running, Pausing, Paused} then q \<in> {(Failed, None), (Cancelling, Some Failed)} else q = p)"
| "edge Close p q \<longleftrightarrow> q = (Closed, None)"
| "edge _ p q \<longleftrightarrow> q = p"

text \<open>The phase of a state in order: a stop is pending exactly while the session is being stopped.\<close>

definition proper :: "phase \<Rightarrow> bool" where
  "proper p \<longleftrightarrow> (snd p \<noteq> None \<longleftrightarrow> fst p = Cancelling) \<and> (\<forall>f. snd p = Some f \<longrightarrow> f = Completed \<or> f = Failed)"

lemma proper_good:
  assumes "good w"
  shows "proper (phase_of w)"
proof -
  have "stop (sched w) \<noteq> None \<longleftrightarrow> lifecycle (sched w) = Cancelling"
    "\<forall>x. stop (sched w) = Some x \<longrightarrow> final_lifecycle x = Completed \<or> final_lifecycle x = Failed"
    using inv_life [OF assms [unfolded good_def]] unfolding life_ok_def by blast+
  then show ?thesis by (auto simp: proper_def phase_of_def)
qed

text \<open>Every operation of a drive after the pause boundary stays among the edges of the drive.\<close>

lemma drive_edges_closed:
  assumes "proper p" and "q \<in> drive_edges p"
  shows "fst q \<notin> {Completed, Failed, Closed} \<Longrightarrow> snd q = None \<Longrightarrow> (Cancelling, Some Completed) \<in> drive_edges p"
    and "q = (Cancelling, Some f) \<Longrightarrow> (f, None) \<in> drive_edges p"
    and "fst q = Running \<Longrightarrow> snd q = None \<and>
      {(Completed, None), (Cancelling, Some Failed), (Failed, None)} \<subseteq> drive_edges p"
    and "snd q \<noteq> None \<Longrightarrow> fst q = Cancelling"
  using assms by (cases p rule: drive_edges.cases; auto simp: proper_def)+

lemma drive_keeps:
  fixes w :: "('t, 'r, 's) sys"
  assumes p: "proper p" and here: "phase_of w \<in> drive_edges p" and E: "E = (\<lambda>_ w'. phase_of w' \<in> drive_edges p)"
  shows "wp E (stop_at_deadline now) (\<lambda>_ w'. phase_of w' \<in> drive_edges p) w"
    and "wp E (drive_settle env now) (\<lambda>_ w'. phase_of w' \<in> drive_edges p) w"
    and "wp E (drive_running env now) (\<lambda>_ w'. phase_of w' \<in> drive_edges p) w"
    and "wp E complete_if_finished (\<lambda>_ w'. phase_of w' \<in> drive_edges p) w"
    and "wp E (make_report now) (\<lambda>_ w'. phase_of w' \<in> drive_edges p) w"
proof -
  let ?I = "\<lambda>_ w'. phase_of w' \<in> drive_edges p"
  note closed = drive_edges_closed [OF p here]
  have quiet: "wp E m ?I w'" if "phases.steadily m" "phase_of w' \<in> drive_edges p" for m and w' :: "('t, 'r, 's) sys"
    by (rule wp_quiet [OF that(1)]) (use that(2) E in auto)
  show "wp E (stop_at_deadline now) ?I w"
    using here closed(1) by (auto simp: stop_at_deadline_def wp_simps phase_of_def is_terminal_def)
  have settle: "wp E (settle_stop env now) ?I w" if st: "stop (sched w) \<noteq> None"
  proof -
    obtain f where f: "phase_of w = (Cancelling, Some f)"
      using closed(4) st by (cases "phase_of w") (auto simp: phase_of_def)
    show ?thesis by (rule settle_stop_phase [OF f]) (use here f closed(2) E in auto)
  qed
  have "wp E (swhen (stop (sched w) \<noteq> None) (settle_stop env now)) ?I w"
    using settle here by (simp add: wp_simps)
  moreover have "wp E (sbind (gets (\<lambda>s. stop s = None \<and> invalidating_generation s \<noteq> None)) (\<lambda>invalidating.
     sthen (swhen invalidating (settle_context_invalidation env now)) (
     sbind (gets (\<lambda>s. \<not> is_terminal s \<and> stop s = None \<and> invalidating_generation s = None)) (\<lambda>live.
     swhen live (process_timeouts env now))))) ?I w'" if "phase_of w' \<in> drive_edges p" for w' :: "('t, 'r, 's) sys"
    by (rule quiet [OF _ that]) (auto intro!: phases.steadily_sbind phases.steadily_sthen phases.steadily_swhen
        phases.steadily_pure phases.steadily_settle phases.steadily_clock)
  ultimately show "wp E (drive_settle env now) ?I w"
    unfolding drive_settle_def wp_sbind [of _ "gets (\<lambda>s. stop s \<noteq> None)"] wp_gets by (rule wp_then)
  have run: "phase_of w' \<in> drive_edges p" if "fails_over w w'" "lifecycle (sched w) = Running" for w'
    using that closed(3) here by (auto simp: fails_over_def phase_of_def)
  show "wp E (drive_running env now) ?I w"
  proof (cases "lifecycle (sched w) = Running")
    case True
    show ?thesis by (rule wp_emits [OF emits.steadily_running]) (use run True E in auto)
  qed (use here in \<open>simp add: drive_running_def wp_simps\<close>)
  show "wp E complete_if_finished ?I w"
    using here closed(3) by (auto simp: complete_if_finished_def wp_simps phase_of_def)
  show "wp E (make_report now) ?I w" by (rule quiet [OF phases.steadily_rest(1) here])
qed

lemma drive_phase:
  fixes w :: "('t, 'r, 's) sys"
  assumes p: "proper (phase_of w)"
  shows "wp (\<lambda>_ w'. phase_of w' = phase_of w \<or> phase_of w' \<in> drive_edges (phase_of w)) (drive env now)
    (\<lambda>_ w'. phase_of w' \<in> drive_edges (phase_of w)) w"
proof (cases "lifecycle (sched w) = Created \<or> lifecycle (sched w) = Closed")
  case True
  then show ?thesis by (auto simp: drive_def wp_simps)
next
  case False
  let ?p = "phase_of w"
  let ?E = "\<lambda>_ w'. phase_of w' = ?p \<or> phase_of w' \<in> drive_edges ?p" and ?J = "\<lambda>w'. phase_of w' \<in> drive_edges ?p"
  have pause: "wp ?E pause_boundary (\<lambda>_. ?J) w'" if "phase_of w' = ?p" for w' :: "('t, 'r, 's) sys"
    using that p False by (cases "lifecycle (sched w)")
      (auto simp: pause_boundary_def wp_simps phase_of_def proper_def)
  have keep: "wp ?E (stop_at_deadline now) (\<lambda>_. ?J) w'" "wp ?E (drive_settle env now) (\<lambda>_. ?J) w'"
    "wp ?E (drive_running env now) (\<lambda>_. ?J) w'" "wp ?E complete_if_finished (\<lambda>_. ?J) w'" "wp ?E (make_report now) (\<lambda>_. ?J) w'"
    if "?J w'" for w' :: "('t, 'r, 's) sys"
    by (rule wp_mono [OF drive_keeps(1) [OF p that refl]], simp_all, rule wp_mono [OF drive_keeps(2) [OF p that refl]], simp_all,
      rule wp_mono [OF drive_keeps(3) [OF p that refl]], simp_all, rule wp_mono [OF drive_keeps(4) [OF p that refl]], simp_all,
      rule wp_mono [OF drive_keeps(5) [OF p that refl]], simp_all)
  have rest: "wp ?E (sthen pause_boundary (sbind (stop_at_deadline now) (\<lambda>_. sthen (drive_settle env now)
      (sthen (drive_running env now) (sthen complete_if_finished (make_report now)))))) (\<lambda>_. ?J) w'"
    if "phase_of w' = ?p" for w' :: "('t, 'r, 's) sys"
    by (rule wp_then [OF pause [OF that]], rule wp_then_ignore [OF keep(1)], assumption, rule wp_then [OF keep(2)],
        assumption, rule wp_then [OF keep(3)], assumption, rule wp_then [OF keep(4)], assumption, rule keep(5))
  have flag: "wp ?E (sthen (upd (\<lambda>s. s\<lparr>sink_backpressured := False\<rparr>)) (sthen pause_boundary (sbind (stop_at_deadline now)
      (\<lambda>_. sthen (drive_settle env now) (sthen (drive_running env now) (sthen complete_if_finished (make_report now)))))))
      (\<lambda>_. ?J) w'" if "phase_of w' = ?p" for w' :: "('t, 'r, 's) sys"
    unfolding wp_sthen [of _ "upd _"] wp_upd by (rule rest) (use that in \<open>simp add: phase_of_def\<close>)
  have prune: "wp ?E (sthen (prune_programme_grace env now) (sthen (upd (\<lambda>s. s\<lparr>sink_backpressured := False\<rparr>)) (sthen pause_boundary
      (sbind (stop_at_deadline now) (\<lambda>_. sthen (drive_settle env now) (sthen (drive_running env now)
      (sthen complete_if_finished (make_report now)))))))) (\<lambda>_. ?J) w'" if "phase_of w' = ?p" for w' :: "('t, 'r, 's) sys"
    unfolding wp_sthen [of _ "prune_programme_grace env now"]
    by (rule wp_quiet [OF phases.steadily_clock(6)]) (use that flag in auto)
  show ?thesis
    unfolding drive_def prune_grace_def
    by (simp add: False wp_sbind [of _ "gets _"] wp_gets wp_sthen [of _ "observe_now now"] wp_observe_now
        wp_sthen [of _ "upd (\<lambda>s. s\<lparr>grace := _ s\<rparr>)"] wp_upd wp_sthen [of _ "reset_report"] wp_report)
      (intro impI prune, simp add: phase_of_def)
qed

text \<open>Before the start and after the end nothing is open, and evidence finds nothing to act on.\<close>

lemma idle_tables:
  assumes "good w" and "lifecycle (sched w) \<in> {Created, Completed, Failed, Closed}"
  shows "active (sched w) = []" "programmes (sched w) = []" "physical (sched w) = []" "programme_grace (sched w) = []"
proof -
  note I = assms(1) [unfolded good_def]
  show none: "active (sched w) = []" "programmes (sched w) = []"
    using inv_life [OF I] assms(2) unfolding life_ok_def by blast+
  have "owners (physical (sched w)) = {#}" "grace_owners (programme_grace (sched w)) = {#}"
    using inv_link [OF I] none(2) by (auto simp: link_ok_def intro!: multiset_eqI count_inI simp flip: not_in_iff)
  then show "physical (sched w) = []" "programme_grace (sched w) = []"
    by (simp_all add: owners_def grace_owners_def)
qed

lemma idle_evidence:
  assumes G: "good w" and l: "lifecycle (sched w) \<in> {Created, Completed, Failed, Closed}"
  shows "wp (\<lambda>_ w'. phase_of w' = phase_of w) (handle_evidence env now event) (\<lambda>_ w'. phase_of w' = phase_of w) w"
proof -
  have "\<not> (deadline_reached now (sched w) \<and> \<not> is_terminal (sched w))"
    using l inv_rate [OF G [unfolded good_def]] by (auto simp: rate_ok_def deadline_reached_def is_terminal_def)
  moreover note idle_tables [OF G l]
  ultimately show ?thesis
    by (auto simp: handle_evidence_def prune_grace_def prune_programme_grace_def settle_ready_programmes_def
      stop_at_deadline_def invalidation_filter_def settle_context_invalidation_def dispatch_evidence_def wp_simps phase_of_def
      deadline_reached_def is_terminal_def Let_def split: option.splits)
qed

text \<open>Evidence after the settling of the deadline: late, dropped by an invalidation, or dispatched.\<close>

lemma evidence_tail:
  fixes w :: "('t, 'r, 's) sys"
  assumes p: "proper p" and l: "fst p \<in> {Running, Pausing, Paused, Cancelling}"
    and here: "edge (Evidence now event) p (phase_of w)" and I: "I = (\<lambda>_ w'. edge (Evidence now event) p (phase_of w'))"
  shows "wp I (sbind (gets (\<lambda>s. stop s \<noteq> None)) (\<lambda>stopping.
      if stopping then count_diag inc_late
      else sbind (invalidation_filter env now event) (\<lambda>dropped.
        if dropped then count_diag inc_forged else dispatch_evidence env now event))) (\<lambda>_ w'. edge (Evidence now event) p (phase_of w')) w"
proof -
  let ?I = "\<lambda>_ w'. edge (Evidence now event) p (phase_of w')"
  have same: "wp I (count_diag f) ?I w'" if "?I () w'" for f and w' :: "('t, 'r, 's) sys"
    by (rule wp_quiet [OF phases.steadily_access(9)]) (use that I in simp_all)
  show ?thesis
  proof (cases "stop (sched w) = None")
    case False
    then show ?thesis using same [OF here] by (simp add: wp_sbind [of _ "gets _"] wp_gets)
  next
    case True
    have run: "fst p \<in> {Running, Pausing, Paused}"
      using here True l p by (auto simp: phase_of_def proper_def)
    have send: "wp I (dispatch_evidence env now event) ?I w'" if "phase_of w' = phase_of w" for w' :: "('t, 'r, 's) sys"
      by (rule wp_emits [OF emits.steadily_dispatch]) (use that here run True I in \<open>auto simp: fails_over_def phase_of_def\<close>)
    have "wp I (sbind (invalidation_filter env now event) (\<lambda>dropped.
        if dropped then count_diag inc_forged else dispatch_evidence env now event)) ?I w"
      unfolding wp_sbind
      by (rule wp_quiet [OF phases.steadily_rest(2)]) (use same send here I in simp_all)
    then show ?thesis using True by (simp add: wp_sbind [of _ "gets _"] wp_gets)
  qed
qed

lemma evidence_phase:
  fixes w :: "('t, 'r, 's) sys"
  assumes G: "good w"
  shows "wp (\<lambda>_ w'. edge (Evidence now event) (phase_of w) (phase_of w')) (handle_evidence env now event)
    (\<lambda>_ w'. edge (Evidence now event) (phase_of w) (phase_of w')) w"
proof (cases "lifecycle (sched w) \<in> {Created, Completed, Failed, Closed}")
  case True
  show ?thesis by (rule wp_mono [OF idle_evidence [OF G True]]) simp_all
next
  case False
  let ?p = "phase_of w"
  let ?I = "\<lambda>_ w'. edge (Evidence now event) ?p (phase_of w')"
  have l: "lifecycle (sched w) \<in> {Running, Pausing, Paused, Cancelling}" using False by (cases "lifecycle (sched w)") auto
  note p = proper_good [OF G]
  have tail: "wp ?I (sbind (gets (\<lambda>s. stop s \<noteq> None)) (\<lambda>stopping.
      if stopping then count_diag inc_late
      else sbind (invalidation_filter env now event) (\<lambda>dropped.
        if dropped then count_diag inc_forged else dispatch_evidence env now event))) ?I w'"
    if "?I () w'" for w' :: "('t, 'r, 's) sys"
    using l by (intro evidence_tail [OF p _ that refl]) (simp add: phase_of_def)
  have settle: "wp ?I (swhen due (sthen reset_report (settle_stop env now))) ?I w'"
    if "?I () w'" "due \<Longrightarrow> phase_of w' = (Cancelling, Some Completed) \<and> fst ?p \<in> {Running, Pausing, Paused}"
    for due and w' :: "('t, 'r, 's) sys"
  proof (cases due)
    case True
    have "wp ?I (settle_stop env now) ?I (w'\<lparr>report := \<lparr>transitions = 0, emissions = 0, results = 0\<rparr>\<rparr>)"
      by (rule settle_stop_phase [of _ Cancelling Completed]) (use that(2) [OF True] in auto)
    then show ?thesis using True by (simp add: wp_swhen wp_sthen wp_report)
  qed (use that in \<open>simp add: wp_swhen\<close>)
  have stopping: "wp ?I (sbind (stop_at_deadline now) (\<lambda>due. sthen (swhen due (sthen reset_report (settle_stop env now)))
      (sbind (gets (\<lambda>s. stop s \<noteq> None)) (\<lambda>stopping.
      if stopping then count_diag inc_late
      else sbind (invalidation_filter env now event) (\<lambda>dropped.
        if dropped then count_diag inc_forged else dispatch_evidence env now event))))) ?I w'"
    if here: "phase_of w' = ?p" for w' :: "('t, 'r, 's) sys"
    unfolding wp_sbind [of _ "stop_at_deadline now"]
  proof (rule wp_cons [where Q = "\<lambda>due w2. ?I () w2 \<and>
      (due \<longrightarrow> phase_of w2 = (Cancelling, Some Completed) \<and> fst ?p \<in> {Running, Pausing, Paused})"])
    show "wp ?I (stop_at_deadline now) (\<lambda>due w2. ?I () w2 \<and>
      (due \<longrightarrow> phase_of w2 = (Cancelling, Some Completed) \<and> fst ?p \<in> {Running, Pausing, Paused})) w'"
      using here l p by (auto simp: stop_at_deadline_def wp_simps phase_of_def proper_def)
  qed (rule wp_then [OF settle tail], auto)
  have "wp ?I (sthen (prune_programme_grace env now) (sbind (stop_at_deadline now) (\<lambda>due.
      sthen (swhen due (sthen reset_report (settle_stop env now)))
      (sbind (gets (\<lambda>s. stop s \<noteq> None)) (\<lambda>stopping.
      if stopping then count_diag inc_late
      else sbind (invalidation_filter env now event) (\<lambda>dropped.
        if dropped then count_diag inc_forged else dispatch_evidence env now event)))))) ?I w'"
    if "phase_of w' = ?p" for w' :: "('t, 'r, 's) sys"
    unfolding wp_sthen [of _ "prune_programme_grace env now"]
    by (rule wp_quiet [OF phases.steadily_clock(6)]) (use that stopping in simp_all)
  from this [of "w\<lparr>sched := (sched w)\<lparr>last_now := Some now, grace := bt_retain (\<lambda>_ e. now < e) (grace (sched w))\<rparr>,
      report := \<lparr>transitions = 0, emissions = 0, results = 0\<rparr>\<rparr>"]
  show ?thesis
    by (simp add: handle_evidence_def wp_sthen [of _ "observe_now now"] wp_observe_now prune_grace_def wp_upd wp_report
        wp_sthen [of _ "upd (\<lambda>s. s\<lparr>grace := _ s\<rparr>)"] wp_sthen [of _ "reset_report"] phase_of_def)
qed

lemma stop_requests_phase:
  assumes p: "proper (phase_of w)"
  shows "wp (\<lambda>_ w'. phase_of w' = phase_of w \<or> edge (Cancel now) (phase_of w) (phase_of w')) (cancel env now)
      (\<lambda>_ w'. edge (Cancel now) (phase_of w) (phase_of w')) w"
    and "wp (\<lambda>_ w'. phase_of w' = phase_of w \<or> edge (FailTransport now code) (phase_of w) (phase_of w'))
      (transport_failed env now code) (\<lambda>_ w'. edge (FailTransport now code) (phase_of w) (phase_of w')) w"
    and "wp (\<lambda>_ w'. phase_of w' = phase_of w \<or> edge (FailContext now) (phase_of w) (phase_of w')) (context_failed env now)
      (\<lambda>_ w'. edge (FailContext now) (phase_of w) (phase_of w')) w"
proof -
  have p': "phase_of w = (lifecycle (sched w), map_option final_lifecycle (stop (sched w)))" by (simp add: phase_of_def)
  show "wp (\<lambda>_ w'. phase_of w' = phase_of w \<or> edge (Cancel now) (phase_of w) (phase_of w')) (cancel env now)
      (\<lambda>_ w'. edge (Cancel now) (phase_of w) (phase_of w')) w"
    using p'
    by (auto simp: cancel_def wp_sbind wp_sthen wp_gets wp_sfail wp_observe_now initiate_stop_phase wp_report
        intro!: settle_stop_phase [of _ Cancelling Completed])
  have live: "fst (phase_of w) \<in> {Created, Running, Pausing, Paused} \<longleftrightarrow> \<not> (is_terminal (sched w) \<or> stop (sched w) \<noteq> None)"
    using p by (cases "lifecycle (sched w)") (auto simp: proper_def phase_of_def is_terminal_def)
  show "wp (\<lambda>_ w'. phase_of w' = phase_of w \<or> edge (FailTransport now code) (phase_of w) (phase_of w'))
      (transport_failed env now code) (\<lambda>_ w'. edge (FailTransport now code) (phase_of w) (phase_of w')) w"
    unfolding edge.simps live
    by (auto simp: transport_failed_def wp_sbind wp_sthen wp_gets wp_sret wp_observe_now wp_report intro!: fail_transport_phase)
  show "wp (\<lambda>_ w'. phase_of w' = phase_of w \<or> edge (FailContext now) (phase_of w) (phase_of w')) (context_failed env now)
      (\<lambda>_ w'. edge (FailContext now) (phase_of w) (phase_of w')) w"
    unfolding edge.simps live
    by (auto simp: context_failed_def wp_sbind wp_sthen wp_gets wp_sret wp_observe_now initiate_stop_phase wp_report
        intro!: settle_stop_phase [of _ Cancelling Failed])
qed

lemma perform_phase:
  assumes G: "good w"
  shows "wp (\<lambda>_ w'. phase_of w' = phase_of w \<or> edge rq (phase_of w) (phase_of w')) (perform env rq)
    (\<lambda>_ w'. edge rq (phase_of w) (phase_of w')) w"
proof (cases rq)
  case (Start now)
  have "stop (sched w) = None" if "lifecycle (sched w) = Created"
    using that proper_good [OF G] by (simp add: proper_def phase_of_def)
  then show ?thesis
    using Start by (auto simp: start_def wp_simps phase_of_def split: option.splits sum.splits)
next
  case (Drive now)
  then show ?thesis
    using drive_phase [OF proper_good [OF G], of env now] by (simp add: wp_sbind wp_sret_fun)
next
  case (Evidence now event)
  show ?thesis by (unfold Evidence perform.simps, rule wp_mono [OF evidence_phase [OF G]]) simp_all
next
  case (InvalidateContext now g)
  have "wp (\<lambda>_ w'. phase_of w' = phase_of w) (invalidate_context env now g) (\<lambda>_ w'. phase_of w' = phase_of w) w"
    by (rule wp_quiet) (auto simp: invalidate_context_def Let_def intro!: phases.steadily_sbind phases.steadily_sthen
        phases.steadily_pure phases.steadily_settle phases.steadily_small phases.steadily_upd phases.steadily_access phases.steadily_report)
  then show ?thesis using InvalidateContext by (auto elim: wp_mono)
next
  case Close
  then show ?thesis
    using proper_good [OF G]
    by (auto simp: close_def wp_simps phase_of_def proper_def split: option.splits prod.splits sum.splits)
qed (use stop_requests_phase [OF proper_good [OF G]] proper_good [OF G] in
    \<open>auto simp: request_pause_def resume_def context_restored_def record_diagnostic_def wp_simps proper_def phase_of_def\<close>)

end
