(* ===== verification/Scheduler_Examples.thy ===== *)
theory Scheduler_Examples
  imports Scheduler_Session "HOL-Library.Code_Target_Nat"
begin

text \<open>
  A session that runs: three TCP probes, an environment that accepts everything, and the
  requests of an embedder, evaluated step by step.
\<close>

section \<open>Sessions as a function\<close>

text \<open>The requests one after the other, with the outcome of each.\<close>

fun serve :: "('t, 'r, 's) env \<Rightarrow> Request list \<Rightarrow> ('t, 'r, 's) sys \<Rightarrow> (Fault, unit) result list \<times> ('t, 'r, 's) sys" where
  "serve env [] w = ([], w)"
| "serve env (rq # rqs) w =
     (case perform env rq w of (r, w') \<Rightarrow> case serve env rqs w' of (rs, w'') \<Rightarrow> (r # rs, w''))"

lemma session_serve:
  "session env w0 prior w \<Longrightarrow> serve env rqs w = (rs, w') \<Longrightarrow> list_all unbroken rs \<Longrightarrow> session env w0 (prior @ rqs) w'"
proof (induction rqs arbitrary: prior w rs)
  case (Cons rq rqs)
  obtain r w1 rs' where w1: "perform env rq w = (r, w1)" "serve env rqs w1 = (rs', w')" "rs = r # rs'"
    using Cons.prems(2) by (auto split: prod.splits)
  from Cons.IH [OF session_step [OF Cons.prems(1) w1(1)] w1(2)] show ?case using w1(3) Cons.prems(3) by simp
qed simp

lemma session_of_serve: "list_all unbroken (fst (serve env rqs w)) \<Longrightarrow> session env w rqs (snd (serve env rqs w))"
  using session_serve [OF session_start, of env rqs w "fst (serve env rqs w)" "snd (serve env rqs w)"] by simp

section \<open>The example\<close>

definition demo_plan :: ScanPlan where
  "demo_plan =
     \<lparr>plan_targets = example_targets,
      dimensions =
        [\<lparr>dim_definition = \<lparr>def_family = TcpSyn, def_ports = [80], udp_programme = None\<rparr>,
          compatible_targets = 3, dim_end = 3\<rparr>],
      attempts = 1, probes_per_attempt = 3, logical_probe_count = 3\<rparr>"

definition demo_config :: "nat \<Rightarrow> bool \<Rightarrow> SchedulerConfig" where
  "demo_config tokens cleanup =
     \<lparr>rate_per_second = 1000, burst = tokens, max_outstanding = 8, max_retransmissions = 1,
      initial_timeout = 100000, minimum_timeout = 10, maximum_timeout = 1000000,
      session_deadline_after = 10000000, late_grace = 50, max_grace_entries = 16,
      max_per_target = 4, max_per_prefix = 8, timing_mode = FixedRate,
      discovery_silence = SilenceUnknown, tcp_reset_cleanup = cleanup\<rparr>"

definition demo_env :: "(unit, unit, unit) env" where
  "demo_env =
     \<lparr>emit = (\<lambda>t _. (Ok (), t)), retire = (\<lambda>t _. t),
      resolve = (\<lambda>r p. (Ok (Ready \<lparr>generation = 1, prefix_key = default_for (target p), neighbor_setup = None\<rparr>), r)),
      try_reserve = (\<lambda>s. (Ok Reserved, s)), try_reserve_with_bytes = (\<lambda>s _. (Ok Reserved, s)),
      commit_reserved = (\<lambda>s _. (Ok (), s)), commit_reserved_with_bytes = (\<lambda>s _ _ _. (Ok (), s)),
      release_reserved = (\<lambda>s _. (Ok (), s)), release_reserved_with_bytes = (\<lambda>s _ _. (Ok (), s))\<rparr>"

definition demo_perm :: SeededPermutation where
  "demo_perm = \<lparr>perm_length = 3, multiplier = 1, offset = 0, perm_seed = Explicit 7\<rparr>"

definition demo_sys :: "SchedulerConfig \<Rightarrow> (unit, unit, unit) sys" where
  "demo_sys cfg =
     \<lparr>sched = projr (ScanScheduler_new demo_plan cfg demo_perm), transport = (), resolver = (), sink = (),
      report = \<lparr>transitions = 0, emissions = 0, results = 0\<rparr>, trace = []\<rparr>"

definition answer :: "nat \<Rightarrow> EvidenceEvent" where
  "answer i = \<lparr>event_probe_id = i, kind = TcpSynAcknowledgment, event_strength = StrongTcpSequence32,
     icmp = None, udp_service = None\<rparr>"

lemma demo_perm_new: "SeededPermutation_new 3 (Explicit 7) = Some (Ok demo_perm)"
  by (simp add: SeededPermutation_new_def splitmix64_def splitmix64_finish_def Let_def find_multiplier_def
      while_option_unfold gcd_loop_eq demo_perm_def)

lemma demo_plan_ok: "plan_ok demo_plan"
proof -
  let ?d = "\<lparr>def_family = TcpSyn, def_ports = [80], udp_programme = None\<rparr>"
  have "ProbeDefinition_new TcpSyn [80] = Ok ?d" by (simp add: ProbeDefinition_new_def bounds_defs Let_def)
  then have "list_all def_ok [?d]" using ProbeDefinition_new_ok by simp
  moreover have "ts_ok example_targets" using normalize_rep [OF example_wf example_normalize] by simp
  moreover have "ScanPlan_new example_targets [?d] 1 = Ok demo_plan"
    by (simp add: ScanPlan_new_def example_targets_def demo_plan_def bounds_defs compatible_target_count_def
        port_factor_def try_from_def max_of_def checked_mul_def checked_add_def Let_def)
  ultimately show ?thesis using ScanPlan_new_ok [of example_targets "[?d]" 1 demo_plan] by (simp add: max_of_def)
qed

lemma demo_opened:
  "opened demo_plan (demo_config 4 False) (Explicit 7) (demo_sys (demo_config 4 False))"
  "opened demo_plan (demo_config 2 True) (Explicit 7) (demo_sys (demo_config 2 True))"
  using demo_plan_ok demo_perm_new
  by (simp_all add: opened_def demo_sys_def ScanScheduler_new_def config_validate_def demo_config_def bounds_defs
      demo_plan_def demo_perm_def)

section \<open>A session that completes\<close>

text \<open>The first request comes too early and is refused; the session goes on.\<close>

definition demo_requests :: "Request list" where
  "demo_requests = [Drive 0, Start 0, Drive 0, Evidence 10 (answer 0), Evidence 20 (answer 1), Evidence 30 (answer 2)]"

definition demo_end :: "(unit, unit, unit) sys" where
  "demo_end = snd (serve demo_env demo_requests (demo_sys (demo_config 4 False)))"

lemma demo_run:
  "(case serve demo_env demo_requests (demo_sys (demo_config 4 False)) of
     (rs, w) \<Rightarrow> (list_all unbroken rs, lifecycle (sched w), list_all (\<lambda>e. e \<noteq> StopRequested) (trace w), bucket (sched w) = None,
       fst (perform demo_env Close w), length (committed (trace w))))
   = (True, Completed, True, False, Ok (), 3)"
  by code_simp

lemma demo_completes:
  "list_all unbroken (fst (serve demo_env demo_requests (demo_sys (demo_config 4 False))))"
  "lifecycle (sched demo_end) = Completed" "StopRequested \<notin> set (trace demo_end)"
  "bucket (sched demo_end) \<noteq> None"
  "fst (perform demo_env Close demo_end) = Ok ()" "length (committed (trace demo_end)) = 3"
  using demo_run by (auto simp: demo_end_def list_all_iff split: prod.splits)

lemma demo_refused: "perform demo_env RequestPause demo_end = (Err (Engine InvalidLifecycle), demo_end)"
  using demo_completes(2) by (simp add: request_pause_def gets_def sbind_def sget_def sfail_def)

lemma demo_closed: "perform demo_env Close demo_end = (Ok (), snd (perform demo_env Close demo_end))"
  using demo_completes(5) by (simp add: prod_eq_iff)

lemma demo_bucket: "bucket (sched demo_end) = Some (the (bucket (sched demo_end)))"
  using demo_completes(4) by simp

lemma demo_session: "session demo_env (demo_sys (demo_config 4 False)) demo_requests demo_end"
  unfolding demo_end_def by (rule session_of_serve) (rule demo_completes)

section \<open>The first drive\<close>

text \<open>All probes are sent at once; the session next wakes up when their timeouts expire.\<close>

definition demo_started :: "(unit, unit, unit) sys" where
  "demo_started = snd (serve demo_env [Start 0] (demo_sys (demo_config 4 False)))"

lemma demo_first_drive:
  "(case serve demo_env [Start 0] (demo_sys (demo_config 4 False)) of
     (rs, w) \<Rightarrow> (rs, map_sum id next_wakeup (fst (drive demo_env 0 w)))) = ([Ok ()], Ok (Some 100000))"
  by code_simp

lemma demo_started_session: "session demo_env (demo_sys (demo_config 4 False)) [Start 0] demo_started"
  unfolding demo_started_def by (rule session_of_serve) (use demo_first_drive in \<open>auto split: prod.splits\<close>)

lemma demo_driven:
  "drive demo_env 0 demo_started = (Ok (projr (fst (drive demo_env 0 demo_started))), snd (drive demo_env 0 demo_started))"
  "next_wakeup (projr (fst (drive demo_env 0 demo_started))) = Some 100000"
  using demo_first_drive
  by (cases "fst (drive demo_env 0 demo_started)"; auto simp: demo_started_def prod_eq_iff split: prod.splits)+

end
