(* ===== verification/Scheduler_Properties.thy ===== *)
theory Scheduler_Properties
  imports Scheduler_Lifecycle Scheduler_Examples
begin

text \<open>
  Properties of whole scanning sessions: whatever the transport, the resolver and the sink
  answer, and whatever the embedder requests in which order, also after requests that failed.
  A session in the sense of \<open>session\<close> ends with a result sink that fails or with an exhausted
  clock or counter; theory \<^verbatim>\<open>Scheduler_Failures\<close> shows what can happen when the embedder goes
  on after a failing sink. The claims about a single request cover those failures as well.
\<close>

section \<open>Reached states\<close>

lemma session_good:
  assumes "opened pl cfg seed w0" and "session env w0 rqs w"
  shows "good w" and "plan (sched w) = pl" and "config (sched w) = cfg"
proof -
  have "good w \<and> plan (sched w) = pl \<and> config (sched w) = cfg"
    using assms(2)
  proof (induction rule: session.induct)
    case session_start
    show ?case using good_opened [OF assms(1)] by simp
  next
    case (session_step rqs w1 rq r w2)
    then have "good w2" by (blast intro: good_unbroken)
    then show ?case using perform_grows [OF session_step.hyps(2)] session_step.IH by (simp add: grows_def)
  qed
  then show "good w" "plan (sched w) = pl" "config (sched w) = cfg" by simp_all
qed

lemmas session_inv = session_good(1) [unfolded good_def]

lemma perform_faults:
  assumes "good w" and "perform env rq w = (r, w')"
  shows "(\<forall>e. r = Err e \<longrightarrow> clean_fault e) \<and> orderly {} (trace w')"
  using safe_perform [OF assms(1), of env rq] assms(2) good_orderly
  by (auto simp: wp_def split: sum.splits)

lemma orderly_after:
  assumes "orderly C (xs @ Committed res # ys)"
  shows "orderly (insert (logical_id (result_probe res)) (settled C xs)) ys"
  using assms
proof (induction C xs rule: orderly.induct)
  case (1 C)
  then show ?case by (simp add: settled_def)
qed auto

lemma orderly_silent: "orderly C ys \<Longrightarrow> Emitted em \<in> set ys \<Longrightarrow> logical_id (em_probe em) \<notin> C"
  by (induction C ys rule: orderly.induct) auto

section \<open>Claims\<close>

text \<open>
  C13. No request of a session ends in a panic or in the error that reports a broken
  reservation: the internal checks of the scheduler (missing table entries, counters that
  would underflow, identifiers admitted twice) never fire, whatever the environment does.
\<close>

theorem session_no_internal_fault:
  assumes "opened pl cfg seed w0" and "session env w0 rqs w" and "perform env rq w = (Err e, w')"
  shows "e \<noteq> Panic \<and> e \<noteq> Engine ReservationInvariant"
  using perform_faults [OF session_good(1) [OF assms(1,2)] assms(3)] by (simp add: clean_fault_def)

theorem session_no_internal_fault_witness:
  "perform demo_env RequestPause demo_end = (Err (Engine InvalidLifecycle), demo_end) \<and>
   Engine InvalidLifecycle \<noteq> Panic \<and> Engine InvalidLifecycle \<noteq> Engine ReservationInvariant"
  using session_no_internal_fault [OF demo_opened(1) demo_session demo_refused] demo_refused by blast

text \<open>
  C1. Results are delivered at most once per logical probe, and nothing is sent for a
  logical probe after its result, also when the request fails half-way.
\<close>

theorem results_exactly_once:
  assumes "opened pl cfg seed w0" and "session env w0 rqs w" and "perform env rq w = (r, w')"
  shows "distinct (committed (trace w')) \<and>
    (\<forall>xs res ys em. trace w' = xs @ Committed res # ys \<longrightarrow> Emitted em \<in> set ys \<longrightarrow>
      logical_id (em_probe em) \<noteq> logical_id (result_probe res))"
proof -
  have o: "orderly {} (trace w')" using perform_faults [OF session_good(1) [OF assms(1,2)] assms(3)] by simp
  have "logical_id (em_probe em) \<noteq> logical_id (result_probe res)"
    if "trace w' = xs @ Committed res # ys" "Emitted em \<in> set ys" for xs res ys em
    using orderly_silent [OF orderly_after that(2)] o that(1) by auto
  then show ?thesis using orderly_distinct [OF o] by blast
qed

theorem results_exactly_once_witness:
  "distinct (committed (trace demo_end)) \<and> length (committed (trace demo_end)) = 3"
  using results_exactly_once [OF demo_opened(1) demo_session demo_refused] demo_completes(6) by blast

text \<open>
  C12. A session that completes without having been stopped (no cancellation, no deadline,
  no transport or context failure) has delivered exactly one result for every logical probe
  of the plan, and each result carries the probe the plan decodes for its identifier. Requests
  of the session may have failed, for instance because the resolver failed, but none with a
  failing result sink or an exhausted clock or counter.
\<close>

theorem completion_lossless:
  assumes "opened pl cfg seed w0" and "session env w0 rqs w" and "lifecycle (sched w) = Completed"
    and "StopRequested \<notin> set (trace w)"
  shows "mset (committed (trace w)) = mset [0..<logical_probe_count pl] \<and>
    (\<forall>res. Committed res \<in> set (trace w) \<longrightarrow>
      logical_probe_at pl (logical_id (result_probe res)) = Ok (result_probe res))"
  using lossless_of_good [OF session_good(1) [OF assms(1,2)] assms(3,4)] session_good(2) [OF assms(1,2)] by simp

theorem completion_lossless_witness:
  "mset (committed (trace demo_end)) = mset [0, 1, 2]"
  using completion_lossless [OF demo_opened(1) demo_session demo_completes(2,3)]
  by (simp add: demo_plan_def upt_rec)

text \<open>
  C14. Sink rows are accounted for: at every point of a session the rows reserved are the
  results delivered, the rows given back and the probes and programmes still open; so a
  session that is over holds no reservation, no open probe and no probe left to draw. This
  holds after failed requests too, as long as none failed with a failing result sink or an
  exhausted clock or counter.
\<close>

theorem rows_accounted:
  assumes "opened pl cfg seed w0" and "session env w0 rqs w"
  shows "reserved_rows (trace w) = length (committed (trace w)) + released_rows (trace w)
      + length (active (sched w)) + length (programmes (sched w)) \<and>
    (is_terminal (sched w) \<longrightarrow> reserved_rows (trace w) = length (committed (trace w)) + released_rows (trace w)
      \<and> physical (sched w) = []) \<and>
    (lifecycle (sched w) \<in> {Completed, Failed} \<longrightarrow>
      deferred (sched w) = [] \<and> cursor (sched w) = logical_probe_count pl)"
proof -
  note I = session_inv [OF assms]
  have all: "reserved_rows (trace w) = length (committed (trace w)) + released_rows (trace w)
      + length (active (sched w)) + length (programmes (sched w))"
    using inv_trace [OF I] by (simp add: trace_ok_def)
  have idle: "active (sched w) = []" "programmes (sched w) = []" if "is_terminal (sched w)"
    using inv_life [OF I] that by (auto simp: life_ok_def is_terminal_def)
  have "physical (sched w) = []" if "is_terminal (sched w)"
  proof (rule ccontr)
    assume "physical (sched w) \<noteq> []"
    then obtain i p ph where "physical (sched w) = (i, p) # ph" by (cases "physical (sched w)") auto
    then have "ph_logical_id p \<in># owners (physical (sched w))" by (simp add: owners_def)
    then show False using inv_link [OF I] idle [OF that] by (simp add: link_ok_def)
  qed
  moreover have "deferred (sched w) = [] \<and> cursor (sched w) = logical_probe_count pl"
    if "lifecycle (sched w) \<in> {Completed, Failed}"
    using inv_life [OF I] that session_good(2) [OF assms] by (auto simp: life_ok_def)
  ultimately show ?thesis using all idle by simp
qed

theorem rows_accounted_witness:
  "reserved_rows (trace demo_end) = length (committed (trace demo_end)) + released_rows (trace demo_end) \<and>
   physical (sched demo_end) = [] \<and> deferred (sched demo_end) = [] \<and> cursor (sched demo_end) = 3"
  using rows_accounted [OF demo_opened(1) demo_session] demo_completes(2)
  by (auto simp: is_terminal_def demo_plan_def)

text \<open>
  C15. The transmission budget of the configuration is never exceeded: whatever is answered
  and requested, no identifier sends more than one frame plus the configured
  retransmissions for the same purpose, and at most one cleanup frame. Requests may have failed,
  as long as none failed with a failing result sink or an exhausted clock or counter.
\<close>

theorem transmission_budget:
  assumes "opened pl cfg seed w0" and "session env w0 rqs w"
  shows "sent (trace w) i purpose \<le> max_retransmissions cfg + 1 \<and> sent (trace w) i TcpResetCleanup \<le> 1"
  using inv_send [OF session_inv [OF assms]] session_good(3) [OF assms] by (simp add: send_ok_def)

theorem transmission_budget_witness:
  "sent (trace demo_end) 0 Probe \<le> 2 \<and> sent (trace demo_end) 0 TcpResetCleanup \<le> 1"
  using transmission_budget [OF demo_opened(1) demo_session, of 0 Probe] by (simp add: demo_config_def)

text \<open>
  C16. The rate limit holds over a whole session: the frames sent so far are at most the
  burst plus what the configured rate has granted between the start of the session and the
  last time the token bucket was consulted.
\<close>

theorem session_rate_limit:
  assumes "opened pl cfg seed w0" and "session env w0 rqs w" and "bucket (sched w) = Some b"
  shows "\<exists>t0. session_deadline (sched w) = Some (t0 + session_deadline_after cfg) \<and> t0 \<le> last_refill b \<and>
    frames (trace w) * TOKEN_SCALE \<le> burst cfg * TOKEN_SCALE + rate_per_second cfg * (last_refill b - t0)"
proof -
  obtain t0 where t0: "session_deadline (sched w) = Some (t0 + session_deadline_after cfg)" "t0 \<le> last_refill b"
    "frames (trace w) * TOKEN_SCALE + tokens_scaled b
       \<le> burst cfg * TOKEN_SCALE + rate_per_second cfg * (last_refill b - t0)"
    using inv_rate [OF session_inv [OF assms(1,2)]] session_good(3) [OF assms(1,2)] assms(3)
    by (auto simp: rate_ok_def)
  from t0(3) have "frames (trace w) * TOKEN_SCALE
       \<le> burst cfg * TOKEN_SCALE + rate_per_second cfg * (last_refill b - t0)" by linarith
  with t0(1,2) show ?thesis by blast
qed

theorem session_rate_limit_witness:
  "\<exists>t0. session_deadline (sched demo_end) = Some (t0 + 10000000) \<and>
    frames (trace demo_end) * TOKEN_SCALE
      \<le> 4 * TOKEN_SCALE + 1000 * (last_refill (the (bucket (sched demo_end))) - t0)"
  using session_rate_limit [OF demo_opened(1) demo_session demo_bucket] by (auto simp: demo_config_def)

text \<open>
  C17. The limits of the configuration hold at every point of a session: frames in flight,
  correlation entries, frames in flight per target and per prefix; and the queue of
  deferred candidates never holds more than one drive's worth of transitions.
\<close>

theorem capacity_limits:
  assumes "opened pl cfg seed w0" and "session env w0 rqs w"
  shows "length (active (sched w)) + length (physical (sched w)) \<le> max_outstanding cfg \<and>
    length (active (sched w)) + length (programmes (sched w)) \<le> max_outstanding cfg \<and>
    length (active (sched w)) + length (physical (sched w)) + length (grace (sched w))
      + length (programme_grace (sched w)) \<le> max_grace_entries cfg \<and>
    count_of (per_target (sched w)) t \<le> max_per_target cfg \<and>
    count_of (per_prefix (sched w)) k \<le> max_per_prefix cfg \<and>
    length (deferred (sched w)) \<le> MAX_TRANSITIONS_PER_DRIVE"
proof -
  note I = session_inv [OF assms]
  have "count_of (per_target (sched w)) t = count (tgt_occ (active (sched w)) (programmes (sched w)) (physical (sched w))) t"
    "count_of (per_prefix (sched w)) k = count (pfx_occ (active (sched w)) (programmes (sched w)) (physical (sched w))) k"
    using inv_occ [OF I] occ_counts by blast+
  then show ?thesis using inv_caps [OF I] session_good(3) [OF assms] by (simp add: caps_ok_def)
qed

theorem capacity_limits_witness:
  "length (active (sched demo_end)) + length (physical (sched demo_end)) \<le> 8 \<and>
   length (deferred (sched demo_end)) \<le> MAX_TRANSITIONS_PER_DRIVE"
  using capacity_limits [OF demo_opened(1) demo_session] by (simp add: demo_config_def)



text \<open>
  C18. The lifecycle only moves along its edges. A request that succeeds is accepted in the
  phases it is meant for and leads to the phases it is meant to lead to; in particular a
  cancelled session and one that reaches its deadline end as completed, and one whose transport
  or context failed ends as failed. A request that fails, in whatever way, leaves the phase
  alone or has moved along an edge of the same request. A finished session stays finished until
  it is closed, and a closed one stays closed.
\<close>

theorem lifecycle_edges:
  assumes "opened pl cfg seed w0" and "session env w0 rqs w" and "perform env rq w = (r, w')"
  shows "(r = Ok () \<longrightarrow> edge rq (phase_of w) (phase_of w')) \<and>
    (phase_of w' = phase_of w \<or> edge rq (phase_of w) (phase_of w')) \<and>
    (lifecycle (sched w) \<in> {Completed, Failed} \<longrightarrow> lifecycle (sched w') \<in> {lifecycle (sched w), Closed}) \<and>
    (lifecycle (sched w) = Closed \<longrightarrow> lifecycle (sched w') = Closed)"
proof -
  have e: "r = Ok () \<longrightarrow> edge rq (phase_of w) (phase_of w')" "phase_of w' = phase_of w \<or> edge rq (phase_of w) (phase_of w')"
    using perform_phase [OF session_good(1) [OF assms(1,2)], of rq env] assms(3) by (auto simp: wp_def split: sum.splits)
  have "fst p \<in> {Completed, Failed, Closed} \<Longrightarrow> edge rq p q \<Longrightarrow> fst q \<in> {fst p, Closed}" for p q
    by (cases rq; cases p rule: drive_edges.cases) auto
  from this [of "phase_of w" "phase_of w'"]
  have "lifecycle (sched w') \<in> {lifecycle (sched w), Closed}" if "lifecycle (sched w) \<in> {Completed, Failed, Closed}"
    using e(2) that by (auto simp: phase_of_def)
  then show ?thesis using e by auto
qed

theorem lifecycle_edges_witness:
  "edge Close (phase_of demo_end) (phase_of (snd (perform demo_env Close demo_end)))"
  using lifecycle_edges [OF demo_opened(1) demo_session demo_closed] by blast

end
