(* ===== verification/Scheduler_Failures.thy ===== *)
theory Scheduler_Failures
  imports Scheduler_Examples
begin

text \<open>
  Runs in which the scheduler does not do what it means to, evaluated: a result sink that fails
  once and is called again, and a paused session that transmits.
\<close>

section \<open>Sinks that fail once\<close>

text \<open>
  The sink fails once, when a row is reserved with bytes (\<open>1\<close>), when a row is
  delivered (\<open>2\<close>), or when rows are given back with bytes (\<open>3\<close>).
  The plan is one probe for one target.
\<close>

definition faulty_env :: "(unit, unit, nat) env" where
  "faulty_env =
     \<lparr>emit = emit demo_env, retire = retire demo_env, resolve = resolve demo_env,
      try_reserve = (\<lambda>s. (Ok Reserved, s)),
      try_reserve_with_bytes = (\<lambda>s _. if s = 1 then (Err 3, 0) else (Ok Reserved, s)),
      commit_reserved = (\<lambda>s _. if s = 2 then (Err 4, 0) else (Ok (), s)),
      commit_reserved_with_bytes = (\<lambda>s _ _ _. if s = 2 then (Err 4, 0) else (Ok (), s)),
      release_reserved = (\<lambda>s _. (Ok (), s)),
      release_reserved_with_bytes = (\<lambda>s _ _. if s = 3 then (Err 5, 0) else (Ok (), s))\<rparr>"

definition lone_targets :: TargetSet where
  "lone_targets =
     \<lparr>intervals = [\<lparr>raw = \<lparr>iv_group = GroupKey 4 None, iv_start = 167772160, iv_end = 167772160\<rparr>, family_end = 1\<rparr>],
      ipv4_indices = [0], ipv6_indices = [], ipv4_count = 1, ipv6_count = 0\<rparr>"

definition lone_plan :: "ProbeFamily \<Rightarrow> UdpProbeProgramme option \<Rightarrow> ScanPlan" where
  "lone_plan fam prog =
     \<lparr>plan_targets = lone_targets,
      dimensions = [\<lparr>dim_definition = \<lparr>def_family = fam, def_ports = [53], udp_programme = prog\<rparr>,
        compatible_targets = 1, dim_end = 1\<rparr>],
      attempts = 1, probes_per_attempt = 1, logical_probe_count = 1\<rparr>"

definition udp_plan :: ScanPlan where
  "udp_plan = lone_plan Udp (Some \<lparr>ipv4 = example_variants, ipv6 = example_variants, strategy = Exhaustive\<rparr>)"

definition faulty_sys :: "ScanPlan \<Rightarrow> SchedulerConfig \<Rightarrow> nat \<Rightarrow> (unit, unit, nat) sys" where
  "faulty_sys pl cfg fault =
     \<lparr>sched = projr (ScanScheduler_new pl cfg \<lparr>perm_length = 1, multiplier = 1, offset = 0, perm_seed = Explicit 7\<rparr>),
      transport = (), resolver = (), sink = fault, report = \<lparr>transitions = 0, emissions = 0, results = 0\<rparr>, trace = []\<rparr>"

text \<open>
  A reservation for a programme that fails loses the probe: the next drive does not come back
  to it, and the session completes without a result, although it was never stopped.
\<close>

lemma failed_reservation_loses_probe:
  "(case serve faulty_env [Start 0, Drive 0, Drive 0] (faulty_sys udp_plan (demo_config 4 False) 1) of
     (rs, w) \<Rightarrow> (rs, lifecycle (sched w), trace w))
   = ([Ok (), Err (Engine (EngineSink 3)), Ok ()], Completed, [])"
  by code_simp

text \<open>
  The delivery for a programme that fails loses the row: the programme is gone before the sink
  is called, and the session completes with a reservation that it neither delivers nor gives back.
\<close>

lemma failed_delivery_leaks_row:
  "(case serve faulty_env [Start 0, Drive 0, Drive 100000, Drive 300000, Drive 400000, Drive 400000]
         (faulty_sys udp_plan (demo_config 4 False) 2) of
     (rs, w) \<Rightarrow> (rs ! 4, lifecycle (sched w), reserved_rows (trace w), length (committed (trace w)), released_rows (trace w)))
   = (Err (Engine (EngineSink 4)), Completed, 1, 0, 0)"
  by code_simp

text \<open>A delivery that fails after the cleanup frame of a connection was sent sends that frame again.\<close>

lemma failed_delivery_repeats_cleanup:
  "(case serve faulty_env [Start 0, Drive 0, Evidence 10 (answer 0), Drive 10]
         (faulty_sys (lone_plan TcpSyn None) (demo_config 4 True) 2) of
     (rs, w) \<Rightarrow> (rs ! 2, sent (trace w) 0 TcpResetCleanup))
   = (Err (Engine (EngineSink 4)), 2)"
  by code_simp

text \<open>
  Closing gives back the rows of single probes before those of programmes; if the second call
  fails, closing again gives the first rows back twice.
\<close>

lemma failed_close_releases_twice:
  "(case serve faulty_env [Start 0, Drive 0, Close, Close] (faulty_sys (lone_plan TcpSyn None) (demo_config 4 False) 3) of
     (rs, w) \<Rightarrow> (drop 2 rs, lifecycle (sched w), reserved_rows (trace w), released_rows (trace w)))
   = ([Err (Engine (EngineSink 5)), Ok ()], Closed, 1, 2)"
  by code_simp

section \<open>A paused session that transmits\<close>

text \<open>
  When an answer arrives for a probe whose connection is to be reset, every pending frame goes
  out, here the first frame of a probe that had not been sent yet, although the session is
  paused and no resumption was requested.
\<close>

lemma paused_session_transmits:
  "(case serve demo_env [Start 0, Drive 0, RequestPause, Drive 10] (demo_sys (demo_config 2 True)) of
     (rs, w) \<Rightarrow> case perform demo_env (Evidence 5000 (answer 0)) w of
       (r', w') \<Rightarrow> (lifecycle (sched w), sent (trace w) 2 Probe, r', lifecycle (sched w'), sent (trace w') 2 Probe))
   = (Paused, 0, Ok (), Paused, 1)"
  by code_simp

end
