(* ===== verification/Result_Queue.thy ===== *)
theory Result_Queue
  imports Scheduler_State "HOL-Library.Multiset"
begin

text \<open>
  The result queue between the scheduler and the JavaScript consumer
  (\<^verbatim>\<open>nodenetscanner-native/src/session.rs\<close>): row and metadata-byte reservations, delivery,
  batches, the hysteresis of back-pressure and the summary counters. The queue is one
  implementor of the scheduler's sink. Its contract is an abstract ledger of open reservations
  and undelivered rows; a client that keeps to the contract is never refused, and the
  counters of the queue are those of the ledger, whatever the consumer and the other
  sessions of the process do in between.

  \<^verbatim>\<open>environment_metadata_bytes\<close> is a counter shared by all queues of the process; it is a
  field of the sink state next to the queue. \<^verbatim>\<open>fetch_sub\<close> wraps in the source, and does so
  in the model.
\<close>

section \<open>State\<close>

definition MAX_QUEUED_RESULTS :: nat where "MAX_QUEUED_RESULTS = 262144"
definition MAX_SESSION_METADATA_BYTES :: nat where "MAX_SESSION_METADATA_BYTES = 16 * 1024 * 1024"
definition MAX_ENVIRONMENT_METADATA_BYTES :: nat where "MAX_ENVIRONMENT_METADATA_BYTES = 64 * 1024 * 1024"
definition MAX_BATCH_SERVICE_METADATA_BYTES :: nat where "MAX_BATCH_SERVICE_METADATA_BYTES = 4 * 1024 * 1024"

lemmas queue_bounds = MAX_QUEUED_RESULTS_def MAX_SESSION_METADATA_BYTES_def MAX_ENVIRONMENT_METADATA_BYTES_def
  MAX_BATCH_SERVICE_METADATA_BYTES_def

record SummaryCounters =
  c_results :: nat
  c_open :: nat
  c_closed :: nat
  c_filtered :: nat
  c_open_or_filtered :: nat
  c_up :: nat
  c_unreachable :: nat
  c_unknown :: nat
  c_cancelled :: nat
  c_deadline :: nat
  c_discarded :: nat
  c_timed_out :: nat

record ResultQueue =
  q_capacity :: nat
  low_watermark :: nat
  q_reserved :: nat
  reserved_metadata_bytes :: nat
  queued_metadata_bytes :: nat
  schema_version :: nat
  backpressured :: bool
  application_backpressured :: nat
  q_values :: "ScanResult list"
  completed_ids :: "nat list"
  counters :: SummaryCounters

record QueueSink =
  q_queue :: ResultQueue
  environment_bytes :: nat

definition fetch_sub :: "nat \<Rightarrow> nat \<Rightarrow> nat" where
  "fetch_sub current n = (current + 2 ^ 64 - n) mod 2 ^ 64"

lemma fetch_sub_exact: "n \<le> e \<Longrightarrow> e < 2 ^ 64 \<Longrightarrow> fetch_sub e n = e - n"
proof -
  assume "n \<le> e" "e < 2 ^ 64"
  then have "e + 2 ^ 64 - n = (e - n) + 2 ^ 64" "e - n < 2 ^ 64" by linarith+
  then show "fetch_sub e n = e - n" by (simp only: fetch_sub_def mod_add_self2 mod_less)
qed

section \<open>Operations\<close>

definition default_counters :: SummaryCounters where
  "default_counters = \<lparr>c_results = 0, c_open = 0, c_closed = 0, c_filtered = 0, c_open_or_filtered = 0, c_up = 0,
     c_unreachable = 0, c_unknown = 0, c_cancelled = 0, c_deadline = 0, c_discarded = 0, c_timed_out = 0\<rparr>"

definition ResultQueue_new :: "nat \<Rightarrow> nat \<Rightarrow> ResultQueue" where
  "ResultQueue_new logical_probes schema =
     (let cap = max 1 (min (case try_from 64 logical_probes of None \<Rightarrow> MAX_QUEUED_RESULTS | Some n \<Rightarrow> n)
          MAX_QUEUED_RESULTS)
      in \<lparr>q_capacity = cap, low_watermark = cap div 2, q_reserved = 0, reserved_metadata_bytes = 0,
          queued_metadata_bytes = 0, schema_version = schema, backpressured = False,
          application_backpressured = 0, q_values = [], completed_ids = [], counters = default_counters\<rparr>)"

text \<open>The metadata a row carries: \<^verbatim>\<open>value.udp.service.metadata.len()\<close>, or nothing.\<close>

definition row_bytes :: "ScanResult \<Rightarrow> nat" where
  "row_bytes v =
     (case udp v of None \<Rightarrow> 0 | Some u \<Rightarrow> case result_service u of None \<Rightarrow> 0 | Some s \<Rightarrow> length (metadata s))"

text \<open>The prefix that \<^verbatim>\<open>take\<close> drains: rows in order while their metadata fits one batch.\<close>

fun batch_prefix :: "ScanResult list \<Rightarrow> nat \<Rightarrow> nat \<Rightarrow> nat \<times> nat" where
  "batch_prefix [] n bytes = (n, bytes)"
| "batch_prefix (v # vs) n bytes =
     (if saturating_add 64 bytes (row_bytes v) > MAX_BATCH_SERVICE_METADATA_BYTES then (n, bytes)
      else batch_prefix vs (n + 1) (bytes + row_bytes v))"

definition queue_take :: "nat \<Rightarrow> QueueSink \<Rightarrow> ScanResult list option \<times> QueueSink" where
  "queue_take maximum k =
     (let q = q_queue k
      in if q_values q = [] then (None, k)
         else case batch_prefix (take maximum (q_values q)) 0 0 of (n, bytes) \<Rightarrow>
           if n = 0 then (None, k)
           else (Some (take n (q_values q)),
             k\<lparr>q_queue := q\<lparr>q_values := drop n (q_values q),
                              queued_metadata_bytes := queued_metadata_bytes q - bytes\<rparr>,
               environment_bytes := fetch_sub (environment_bytes k) bytes\<rparr>))"

definition queue_discard :: "QueueSink \<Rightarrow> nat \<times> QueueSink" where
  "queue_discard k =
     (let q = q_queue k; n = min (length (q_values q)) (max_of 64)
      in (n, k\<lparr>q_queue := q\<lparr>q_values := [], queued_metadata_bytes := 0,
                 counters := (counters q)\<lparr>c_discarded := saturating_add 64 (c_discarded (counters q)) n\<rparr>\<rparr>,
               environment_bytes := fetch_sub (environment_bytes k) (queued_metadata_bytes q)\<rparr>))"

definition take_completed_ids :: "QueueSink \<Rightarrow> nat list \<times> QueueSink" where
  "take_completed_ids k = (completed_ids (q_queue k), k\<lparr>q_queue := (q_queue k)\<lparr>completed_ids := []\<rparr>\<rparr>)"

definition inc :: "nat \<Rightarrow> nat" where
  "inc n = saturating_add 64 n 1"

definition count_outcome :: "ProbeOutcome \<Rightarrow> SummaryCounters \<Rightarrow> SummaryCounters" where
  "count_outcome oc c = (case oc of
       Network Open \<Rightarrow> c\<lparr>c_open := inc (c_open c)\<rparr>
     | Network ClosedPort \<Rightarrow> c\<lparr>c_closed := inc (c_closed c)\<rparr>
     | Network Filtered \<Rightarrow> c\<lparr>c_filtered := inc (c_filtered c)\<rparr>
     | Network OpenOrFiltered \<Rightarrow> c\<lparr>c_open_or_filtered := inc (c_open_or_filtered c)\<rparr>
     | Network Up \<Rightarrow> c\<lparr>c_up := inc (c_up c)\<rparr>
     | Network Unreachable \<Rightarrow> c\<lparr>c_unreachable := inc (c_unreachable c)\<rparr>
     | Network Unknown \<Rightarrow> c\<lparr>c_unknown := inc (c_unknown c)\<rparr>
     | Network DownByPolicy \<Rightarrow> c\<lparr>c_unknown := inc (c_unknown c)\<rparr>
     | OutcomeCancelled \<Rightarrow> c\<lparr>c_cancelled := inc (c_cancelled c)\<rparr>
     | OutcomeSessionDeadline \<Rightarrow> c\<lparr>c_deadline := inc (c_deadline c)\<rparr>
     | TransportFailed \<Rightarrow> c
     | ContextInvalidated \<Rightarrow> c)"

definition count_result :: "ScanResult \<Rightarrow> SummaryCounters \<Rightarrow> SummaryCounters" where
  "count_result v c =
     (let c1 = c\<lparr>c_results := inc (c_results c)\<rparr>;
          c2 = (if terminal_reason v = Timeout then c1\<lparr>c_timed_out := inc (c_timed_out c1)\<rparr> else c1)
      in count_outcome (outcome v) c2)"

definition queue_reserve :: "QueueSink \<Rightarrow> (nat, SinkReservation) result \<times> QueueSink" where
  "queue_reserve k =
     (let q = q_queue k; occupancy = saturating_add 64 (length (q_values q)) (q_reserved q)
      in if backpressured q \<and> occupancy > low_watermark q then (Ok Saturated, k)
         else
           let q = (if backpressured q then q\<lparr>backpressured := False\<rparr> else q)
           in if occupancy \<ge> q_capacity q
              then (Ok Saturated, k\<lparr>q_queue := q\<lparr>backpressured := True,
                      application_backpressured := saturating_add 64 (application_backpressured q) 1\<rparr>\<rparr>)
              else (Ok Reserved, k\<lparr>q_queue := q\<lparr>q_reserved := q_reserved q + 1\<rparr>\<rparr>))"

definition queue_commit :: "QueueSink \<Rightarrow> ScanResult \<Rightarrow> (nat, unit) result \<times> QueueSink" where
  "queue_commit k v =
     (let q = q_queue k
      in if q_reserved q = 0 \<or> length (q_values q) \<ge> q_capacity q then (Err 1, k)
         else (Ok (), k\<lparr>q_queue := q\<lparr>q_reserved := q_reserved q - 1,
                completed_ids := completed_ids q @ [logical_id (result_probe v)],
                counters := count_result v (counters q), q_values := q_values q @ [v]\<rparr>\<rparr>))"

text \<open>The update closure of \<^verbatim>\<open>try_update\<close> on the shared counter.\<close>

definition environment_total :: "nat \<Rightarrow> nat \<Rightarrow> nat option" where
  "environment_total current n =
     (case checked_add 64 current n of None \<Rightarrow> None
      | Some tot \<Rightarrow> if tot \<le> MAX_ENVIRONMENT_METADATA_BYTES then Some tot else None)"

definition queue_reserve_bytes :: "QueueSink \<Rightarrow> nat \<Rightarrow> (nat, SinkReservation) result \<times> QueueSink" where
  "queue_reserve_bytes k n =
     (case queue_reserve k of
        (Inl c, k') \<Rightarrow> (Err c, k')
      | (Inr Saturated, k') \<Rightarrow> (Ok Saturated, k')
      | (Inr Reserved, k') \<Rightarrow>
          (let q = q_queue k'
           in case checked_add 64 (reserved_metadata_bytes q) n of
                None \<Rightarrow> (Ok Saturated, k'\<lparr>q_queue := q\<lparr>q_reserved := q_reserved q - 1\<rparr>\<rparr>)
              | Some session_total \<Rightarrow>
                  (case (if session_total > MAX_SESSION_METADATA_BYTES then None
                         else environment_total (environment_bytes k') n) of
                     None \<Rightarrow> (Ok Saturated, k'\<lparr>q_queue := q\<lparr>q_reserved := q_reserved q - 1, backpressured := True,
                         application_backpressured := saturating_add 64 (application_backpressured q) 1\<rparr>\<rparr>)
                   | Some tot \<Rightarrow> (Ok Reserved, k'\<lparr>q_queue := q\<lparr>reserved_metadata_bytes := session_total\<rparr>,
                         environment_bytes := tot\<rparr>))))"

definition queue_commit_bytes ::
  "QueueSink \<Rightarrow> ScanResult \<Rightarrow> nat \<Rightarrow> nat \<Rightarrow> (nat, unit) result \<times> QueueSink" where
  "queue_commit_bytes k v actual reserved =
     (let q = q_queue k
      in if actual \<noteq> row_bytes v \<or> actual > reserved \<or> reserved > reserved_metadata_bytes q then (Err 3, k)
         else queue_commit
           (k\<lparr>q_queue := q\<lparr>reserved_metadata_bytes := reserved_metadata_bytes q - reserved,
                queued_metadata_bytes := saturating_add 64 (queued_metadata_bytes q) actual\<rparr>,
              environment_bytes := fetch_sub (environment_bytes k) (reserved - actual)\<rparr>) v)"

definition queue_release :: "QueueSink \<Rightarrow> nat \<Rightarrow> (nat, unit) result \<times> QueueSink" where
  "queue_release k n =
     (let q = q_queue k
      in if n > q_reserved q then (Err 2, k)
         else (Ok (), k\<lparr>q_queue := q\<lparr>q_reserved := q_reserved q - n\<rparr>\<rparr>))"

definition queue_release_bytes :: "QueueSink \<Rightarrow> nat \<Rightarrow> nat \<Rightarrow> (nat, unit) result \<times> QueueSink" where
  "queue_release_bytes k n bytes =
     (let q = q_queue k
      in if bytes > reserved_metadata_bytes q then (Err 4, k)
         else queue_release
           (k\<lparr>q_queue := q\<lparr>reserved_metadata_bytes := reserved_metadata_bytes q - bytes\<rparr>,
              environment_bytes := fetch_sub (environment_bytes k) bytes\<rparr>) n)"

definition queue_drop :: "QueueSink \<Rightarrow> nat" where
  "queue_drop k = fetch_sub (environment_bytes k)
     (saturating_add 64 (reserved_metadata_bytes (q_queue k)) (queued_metadata_bytes (q_queue k)))"

section \<open>The contract\<close>

text \<open>
  The ledger of the sink contract: the metadata bytes promised to each open reservation, the
  rows committed and not yet delivered, and the bytes the other queues of the process hold.
\<close>

record Ledger =
  open_rows :: "nat multiset"
  undelivered :: "ScanResult list"
  others :: nat

datatype QueueCall =
    TryReserve
  | TryReserveBytes nat
  | CommitRow ScanResult
  | CommitRowBytes ScanResult nat nat
  | ReleaseRows nat
  | ReleaseRowsBytes "nat multiset"
  | Take nat
  | Discard
  | TakeIds
  | Elsewhere nat

datatype QueueAnswer =
    Row SinkReservation
  | Accepted
  | Refused nat
  | Batch "ScanResult list option"
  | Discarded nat
  | Ids "nat list"

definition own_bytes :: "QueueSink \<Rightarrow> nat" where
  "own_bytes k = reserved_metadata_bytes (q_queue k) + queued_metadata_bytes (q_queue k)"

definition row_answer :: "(nat, SinkReservation) result \<Rightarrow> QueueAnswer" where
  "row_answer r = (case r of Inl c \<Rightarrow> Refused c | Inr x \<Rightarrow> Row x)"

definition unit_answer :: "(nat, unit) result \<Rightarrow> QueueAnswer" where
  "unit_answer r = (case r of Inl c \<Rightarrow> Refused c | Inr _ \<Rightarrow> Accepted)"

text \<open>
  One call of the scheduler, of the consumer, or activity of the other queues. A release of
  rows with bytes names the reservations it gives back; the call passes their number and
  the sum of their bytes.
\<close>

fun queue_call :: "QueueCall \<Rightarrow> QueueSink \<Rightarrow> QueueAnswer \<times> QueueSink" where
  "queue_call TryReserve k = map_prod row_answer id (queue_reserve k)"
| "queue_call (TryReserveBytes n) k = map_prod row_answer id (queue_reserve_bytes k n)"
| "queue_call (CommitRow v) k = map_prod unit_answer id (queue_commit k v)"
| "queue_call (CommitRowBytes v a r) k = map_prod unit_answer id (queue_commit_bytes k v a r)"
| "queue_call (ReleaseRows n) k = map_prod unit_answer id (queue_release k n)"
| "queue_call (ReleaseRowsBytes M) k = map_prod unit_answer id (queue_release_bytes k (size M) (\<Sum>\<^sub># M))"
| "queue_call (Take m) k = map_prod Batch id (queue_take m k)"
| "queue_call Discard k = map_prod Discarded id (queue_discard k)"
| "queue_call TakeIds k = map_prod Ids id (take_completed_ids k)"
| "queue_call (Elsewhere n) k = (Accepted, k\<lparr>environment_bytes := own_bytes k + n\<rparr>)"

text \<open>What the contract allows a client to call, and what it promises in return.\<close>

fun allowed :: "QueueCall \<Rightarrow> Ledger \<Rightarrow> bool" where
  "allowed (CommitRow v) l \<longleftrightarrow> 0 \<in># open_rows l \<and> row_bytes v = 0"
| "allowed (CommitRowBytes v a r) l \<longleftrightarrow> r \<in># open_rows l \<and> a = row_bytes v \<and> a \<le> r"
| "allowed (ReleaseRows n) l \<longleftrightarrow> replicate_mset n 0 \<subseteq># open_rows l"
| "allowed (ReleaseRowsBytes M) l \<longleftrightarrow> M \<subseteq># open_rows l"
| "allowed (Elsewhere n) l \<longleftrightarrow>
     \<Sum>\<^sub># (open_rows l) + sum_list (map row_bytes (undelivered l)) + n \<le> MAX_ENVIRONMENT_METADATA_BYTES"
| "allowed _ l \<longleftrightarrow> True"

inductive ledger_step :: "QueueCall \<Rightarrow> QueueAnswer \<Rightarrow> Ledger \<Rightarrow> Ledger \<Rightarrow> bool" where
  reserve: "ledger_step TryReserve (Row Reserved) l (l\<lparr>open_rows := add_mset 0 (open_rows l)\<rparr>)"
| reserve_bytes: "ledger_step (TryReserveBytes n) (Row Reserved) l (l\<lparr>open_rows := add_mset n (open_rows l)\<rparr>)"
| saturated: "c = TryReserve \<or> c = TryReserveBytes n \<Longrightarrow> ledger_step c (Row Saturated) l l"
| commit: "0 \<in># open_rows l \<Longrightarrow> ledger_step (CommitRow v) Accepted l
     (l\<lparr>open_rows := open_rows l - {#0#}, undelivered := undelivered l @ [v]\<rparr>)"
| commit_bytes: "r \<in># open_rows l \<Longrightarrow> ledger_step (CommitRowBytes v a r) Accepted l
     (l\<lparr>open_rows := open_rows l - {#r#}, undelivered := undelivered l @ [v]\<rparr>)"
| release: "replicate_mset n 0 \<subseteq># open_rows l \<Longrightarrow> ledger_step (ReleaseRows n) Accepted l
     (l\<lparr>open_rows := open_rows l - replicate_mset n 0\<rparr>)"
| release_bytes: "M \<subseteq># open_rows l \<Longrightarrow>
     ledger_step (ReleaseRowsBytes M) Accepted l (l\<lparr>open_rows := open_rows l - M\<rparr>)"
| take_none: "undelivered l = [] \<or> m = 0 \<or> MAX_BATCH_SERVICE_METADATA_BYTES < row_bytes (hd (undelivered l)) \<Longrightarrow>
     ledger_step (Take m) (Batch None) l l"
| take_some: "undelivered l = xs @ ys \<Longrightarrow> xs \<noteq> [] \<Longrightarrow> length xs \<le> m \<Longrightarrow>
     sum_list (map row_bytes xs) \<le> MAX_BATCH_SERVICE_METADATA_BYTES \<Longrightarrow>
     ledger_step (Take m) (Batch (Some xs)) l (l\<lparr>undelivered := ys\<rparr>)"
| discard: "ledger_step Discard (Discarded (length (undelivered l))) l (l\<lparr>undelivered := []\<rparr>)"
| ids: "ledger_step TakeIds (Ids is) l l"
| elsewhere: "ledger_step (Elsewhere n) Accepted l (l\<lparr>others := n\<rparr>)"

definition represents :: "QueueSink \<Rightarrow> Ledger \<Rightarrow> bool" where
  "represents k l \<longleftrightarrow>
     (let q = q_queue k
      in 1 \<le> q_capacity q \<and> q_capacity q \<le> MAX_QUEUED_RESULTS \<and> low_watermark q = q_capacity q div 2
       \<and> length (q_values q) + q_reserved q \<le> q_capacity q
       \<and> q_reserved q = size (open_rows l) \<and> reserved_metadata_bytes q = \<Sum>\<^sub># (open_rows l)
       \<and> q_values q = undelivered l \<and> queued_metadata_bytes q = sum_list (map row_bytes (undelivered l))
       \<and> environment_bytes k = own_bytes k + others l
       \<and> environment_bytes k \<le> MAX_ENVIRONMENT_METADATA_BYTES
       \<and> reserved_metadata_bytes q \<le> MAX_SESSION_METADATA_BYTES)"

lemma width_bounds:
  "MAX_QUEUED_RESULTS + MAX_QUEUED_RESULTS \<le> max_of 64" "MAX_ENVIRONMENT_METADATA_BYTES \<le> max_of 64"
  "MAX_ENVIRONMENT_METADATA_BYTES < 2 ^ 64" "MAX_SESSION_METADATA_BYTES + MAX_ENVIRONMENT_METADATA_BYTES \<le> max_of 64"
  by (simp_all add: queue_bounds max_of_def)

lemma fetch_sub_env: "n \<le> e \<Longrightarrow> e \<le> MAX_ENVIRONMENT_METADATA_BYTES \<Longrightarrow> fetch_sub e n = e - n"
  by (rule fetch_sub_exact) (use width_bounds(3) in linarith)+

lemma saturating_exact: "a + b \<le> max_of w \<Longrightarrow> saturating_add w a b = a + b"
  by (simp add: saturating_add_def)

lemma size_le_sum_mset_diff:
  assumes "M \<subseteq># N"
  shows "\<Sum>\<^sub># (N - M) = \<Sum>\<^sub># N - (\<Sum>\<^sub># M :: nat)" "size (N - M) = size N - size M" "\<Sum>\<^sub># M \<le> \<Sum>\<^sub># N" "size M \<le> size N"
proof -
  obtain K where N: "N = M + K" using assms by (metis mset_subset_eq_exists_conv)
  then show "\<Sum>\<^sub># (N - M) = \<Sum>\<^sub># N - \<Sum>\<^sub># M" "size (N - M) = size N - size M" "\<Sum>\<^sub># M \<le> \<Sum>\<^sub># N" "size M \<le> size N"
    by simp_all
qed

lemma represents_values:
  assumes "represents k l"
  shows "saturating_add 64 (length (q_values (q_queue k))) (q_reserved (q_queue k))
      = length (undelivered l) + size (open_rows l)"
  using assms width_bounds(1) by (auto simp: represents_def Let_def saturating_add_def)

lemma batch_prefix_spec:
  assumes "batch_prefix vs n bytes = (n', bytes')" and "bytes \<le> MAX_BATCH_SERVICE_METADATA_BYTES"
  shows "\<exists>j \<le> length vs. n' = n + j \<and> bytes' = bytes + sum_list (map row_bytes (take j vs))
      \<and> bytes' \<le> MAX_BATCH_SERVICE_METADATA_BYTES
      \<and> (vs \<noteq> [] \<and> bytes + row_bytes (hd vs) \<le> MAX_BATCH_SERVICE_METADATA_BYTES \<longrightarrow> 0 < j)"
  using assms
proof (induction vs n bytes rule: batch_prefix.induct)
  case (1 n bytes)
  then show ?case by simp
next
  case (2 v vs n bytes)
  show ?case
  proof (cases "saturating_add 64 bytes (row_bytes v) > MAX_BATCH_SERVICE_METADATA_BYTES")
    case True
    then have "\<not> bytes + row_bytes v \<le> MAX_BATCH_SERVICE_METADATA_BYTES" by (simp add: saturating_add_def)
    then show ?thesis using True 2(2,3) by (intro exI [of _ 0]) simp
  next
    case False
    then have fits: "bytes + row_bytes v \<le> MAX_BATCH_SERVICE_METADATA_BYTES"
      by (auto simp: saturating_add_def queue_bounds max_of_def min_def split: if_splits)
    obtain j where "j \<le> length vs" "n' = n + 1 + j" "bytes' = bytes + row_bytes v + sum_list (map row_bytes (take j vs))"
      "bytes' \<le> MAX_BATCH_SERVICE_METADATA_BYTES"
      using 2(1) [OF False _ fits] 2(2) False by auto
    then show ?thesis by (intro exI [of _ "Suc j"]) simp
  qed
qed

lemma refines_reserve:
  assumes "represents k l" and "queue_reserve k = (r, k')"
  shows "(r = Ok Reserved \<and> represents k' (l\<lparr>open_rows := add_mset 0 (open_rows l)\<rparr>) \<and>
      environment_bytes k' = environment_bytes k) \<or> (r = Ok Saturated \<and> represents k' l)"
proof -
  note rep = assms(1) [unfolded represents_def Let_def]
  show ?thesis
    using rep assms(2) unfolding queue_reserve_def represents_values [OF assms(1)] Let_def
    by (auto simp: represents_def own_bytes_def split: if_splits)
qed

lemma refines_reserve_bytes:
  assumes "represents k l" and "queue_reserve_bytes k n = (r, k')"
  shows "(r = Ok Reserved \<and> represents k' (l\<lparr>open_rows := add_mset n (open_rows l)\<rparr>)) \<or> (r = Ok Saturated \<and> represents k' l)"
proof -
  obtain x k1 where k1: "queue_reserve k = (x, k1)" by (cases "queue_reserve k")
  consider "x = Ok Reserved" "represents k1 (l\<lparr>open_rows := add_mset 0 (open_rows l)\<rparr>)" | "x = Ok Saturated" "represents k1 l"
    using refines_reserve [OF assms(1) k1] by blast
  then show ?thesis
  proof cases
    case 1
    note rep = 1(2) [unfolded represents_def Let_def]
    show ?thesis
      using rep assms(2) k1 1(1) unfolding queue_reserve_bytes_def Let_def
      by (auto simp: represents_def own_bytes_def environment_total_def checked_add_def split: if_splits option.splits)
  next
    case 2
    then show ?thesis using assms(2) k1 by (simp add: queue_reserve_bytes_def)
  qed
qed

text \<open>The state in which \<^verbatim>\<open>commit_reserved_with_bytes\<close> hands over to \<^verbatim>\<open>commit_reserved\<close>.\<close>

definition converted :: "nat \<Rightarrow> nat \<Rightarrow> QueueSink \<Rightarrow> QueueSink" where
  "converted r a k = k\<lparr>q_queue := (q_queue k)\<lparr>reserved_metadata_bytes := reserved_metadata_bytes (q_queue k) - r,
       queued_metadata_bytes := queued_metadata_bytes (q_queue k) + a\<rparr>,
     environment_bytes := environment_bytes k - (r - a)\<rparr>"

lemma refines_converted:
  assumes "represents k l" and "r \<in># open_rows l" and "row_bytes v \<le> r"
  shows "fst (queue_commit (converted r (row_bytes v) k) v) = Ok ()"
    and "represents (snd (queue_commit (converted r (row_bytes v) k) v))
      (l\<lparr>open_rows := open_rows l - {#r#}, undelivered := undelivered l @ [v]\<rparr>)"
proof -
  note rep = assms(1) [unfolded represents_def Let_def]
  note diff = size_le_sum_mset_diff [of "{#r#}" "open_rows l"]
  show "fst (queue_commit (converted r (row_bytes v) k) v) = Ok ()"
    using rep diff assms(2) by (auto simp: queue_commit_def converted_def Let_def)
  show "represents (snd (queue_commit (converted r (row_bytes v) k) v))
      (l\<lparr>open_rows := open_rows l - {#r#}, undelivered := undelivered l @ [v]\<rparr>)"
    using rep diff assms(2,3) by (auto simp: queue_commit_def converted_def Let_def represents_def own_bytes_def)
qed

lemma commit_bytes_converted:
  assumes "represents k l" and "r \<in># open_rows l" and "row_bytes v \<le> r"
  shows "queue_commit_bytes k v (row_bytes v) r = queue_commit (converted r (row_bytes v) k) v"
proof -
  note rep = assms(1) [unfolded represents_def Let_def]
  have r: "r \<le> reserved_metadata_bytes (q_queue k)" using rep size_le_sum_mset_diff(3) [of "{#r#}" "open_rows l"] assms(2) by simp
  then have own: "r \<le> environment_bytes k" using rep by (simp add: own_bytes_def)
  have "queued_metadata_bytes (q_queue k) \<le> MAX_ENVIRONMENT_METADATA_BYTES" using rep by (simp add: own_bytes_def)
  moreover have "row_bytes v \<le> MAX_SESSION_METADATA_BYTES" using rep r assms(3) by linarith
  ultimately have "saturating_add 64 (queued_metadata_bytes (q_queue k)) (row_bytes v)
      = queued_metadata_bytes (q_queue k) + row_bytes v"
    using width_bounds(4) by (intro saturating_exact) linarith
  moreover have "fetch_sub (environment_bytes k) (r - row_bytes v) = environment_bytes k - (r - row_bytes v)"
    using own rep by (intro fetch_sub_env) simp_all
  ultimately show ?thesis using assms(3) r by (simp add: queue_commit_bytes_def converted_def Let_def)
qed

lemma refines_release:
  assumes "represents k l" and "M \<subseteq># open_rows l"
  shows "fst (queue_release_bytes k (size M) (\<Sum>\<^sub># M)) = Ok ()"
    and "represents (snd (queue_release_bytes k (size M) (\<Sum>\<^sub># M))) (l\<lparr>open_rows := open_rows l - M\<rparr>)"
proof -
  note rep = assms(1) [unfolded represents_def Let_def]
  note diff = size_le_sum_mset_diff [OF assms(2)]
  have "fetch_sub (environment_bytes k) (\<Sum>\<^sub># M) = environment_bytes k - \<Sum>\<^sub># M"
    using diff(3) rep by (intro fetch_sub_env) (simp_all add: own_bytes_def)
  then show "fst (queue_release_bytes k (size M) (\<Sum>\<^sub># M)) = Ok ()"
    and "represents (snd (queue_release_bytes k (size M) (\<Sum>\<^sub># M))) (l\<lparr>open_rows := open_rows l - M\<rparr>)"
    using rep diff by (auto simp: queue_release_bytes_def queue_release_def Let_def represents_def own_bytes_def)
qed

lemma refines_release_plain:
  assumes "represents k l" and "replicate_mset n 0 \<subseteq># open_rows l"
  shows "queue_release k n = queue_release_bytes k n 0"
proof -
  have "fetch_sub (environment_bytes k) 0 = environment_bytes k"
    using assms by (subst fetch_sub_env) (simp_all add: represents_def Let_def)
  then show ?thesis by (simp add: queue_release_bytes_def)
qed

lemma refines_take:
  assumes "represents k l" and "queue_take m k = (r, k')"
  shows "\<exists>l'. ledger_step (Take m) (Batch r) l l' \<and> represents k' l'"
proof -
  note rep = assms(1) [unfolded represents_def Let_def]
  have vals: "q_values (q_queue k) = undelivered l" using rep by blast
  obtain n bytes where p: "batch_prefix (take m (undelivered l)) 0 0 = (n, bytes)"
    by (cases "batch_prefix (take m (undelivered l)) 0 0")
  obtain j where j: "j \<le> length (take m (undelivered l))" "n = j"
      "bytes = sum_list (map row_bytes (take j (take m (undelivered l))))" "bytes \<le> MAX_BATCH_SERVICE_METADATA_BYTES"
      "take m (undelivered l) \<noteq> [] \<and> row_bytes (hd (take m (undelivered l))) \<le> MAX_BATCH_SERVICE_METADATA_BYTES \<longrightarrow> 0 < j"
    using batch_prefix_spec [OF p le0, unfolded add_0_left] by blast
  show ?thesis
  proof (cases "undelivered l = [] \<or> n = 0")
    case True
    then have "undelivered l = [] \<or> m = 0 \<or> MAX_BATCH_SERVICE_METADATA_BYTES < row_bytes (hd (undelivered l))"
      using j(2,5) by (cases m; cases "undelivered l") auto
    moreover have "r = None" "k' = k"
      using True p assms(2) unfolding queue_take_def vals Let_def by (auto split: if_splits)
    ultimately show ?thesis using assms(1) by (blast intro: ledger_step.take_none)
  next
    case False
    let ?xs = "take n (undelivered l)" and ?ys = "drop n (undelivered l)"
    have bytes: "bytes = sum_list (map row_bytes ?xs)" using j(1-3) by (auto simp: min_def split: if_splits)
    have cut: "sum_list (map row_bytes (undelivered l)) = bytes + sum_list (map row_bytes ?ys)"
      unfolding bytes by (metis append_take_drop_id map_append sum_list_append)
    have "fetch_sub (environment_bytes k) bytes = environment_bytes k - bytes"
      using cut rep by (intro fetch_sub_env) (simp_all add: own_bytes_def)
    then have k': "r = Some ?xs" "k' = k\<lparr>q_queue := (q_queue k)\<lparr>q_values := ?ys,
          queued_metadata_bytes := queued_metadata_bytes (q_queue k) - bytes\<rparr>, environment_bytes := environment_bytes k - bytes\<rparr>"
      using False p assms(2) unfolding queue_take_def vals Let_def by auto
    have "represents k' (l\<lparr>undelivered := ?ys\<rparr>)"
      using rep cut by (auto simp: represents_def k'(2) own_bytes_def)
    moreover have "ledger_step (Take m) (Batch (Some ?xs)) l (l\<lparr>undelivered := ?ys\<rparr>)"
      by (rule ledger_step.take_some) (use False j bytes in \<open>auto simp: min_def split: if_splits\<close>)
    ultimately show ?thesis using k'(1) by blast
  qed
qed

lemma refines_discard:
  assumes "represents k l"
  shows "fst (queue_discard k) = length (undelivered l)" "represents (snd (queue_discard k)) (l\<lparr>undelivered := []\<rparr>)"
proof -
  note rep = assms [unfolded represents_def Let_def]
  have "fetch_sub (environment_bytes k) (queued_metadata_bytes (q_queue k)) = environment_bytes k - queued_metadata_bytes (q_queue k)"
    using rep by (intro fetch_sub_env) (simp_all add: own_bytes_def)
  then show "represents (snd (queue_discard k)) (l\<lparr>undelivered := []\<rparr>)"
    using rep by (auto simp: queue_discard_def represents_def own_bytes_def Let_def)
  show "fst (queue_discard k) = length (undelivered l)"
    using rep width_bounds(1) by (auto simp: queue_discard_def Let_def)
qed

lemma refines_call:
  assumes "represents k l" and "allowed c l" and "queue_call c k = (a, k')"
  shows "\<exists>l'. ledger_step c a l l' \<and> represents k' l'"
proof (cases c)
  case TryReserve
  then show ?thesis
    using refines_reserve [OF assms(1)] assms(3)
    by (cases "queue_reserve k") (fastforce simp: row_answer_def intro: ledger_step.reserve ledger_step.saturated)
next
  case (TryReserveBytes n)
  then show ?thesis
    using refines_reserve_bytes [OF assms(1), of n] assms(3)
    by (cases "queue_reserve_bytes k n") (fastforce simp: row_answer_def intro: ledger_step.reserve_bytes ledger_step.saturated)
next
  case (CommitRow v)
  then have z: "0 \<in># open_rows l" "row_bytes v = 0" using assms(2) by simp_all
  have "converted 0 (row_bytes v) k = k" using z(2) by (simp add: converted_def)
  then show ?thesis
    using refines_converted [OF assms(1) z(1), of v] z CommitRow assms(3) ledger_step.commit [OF z(1), of v]
    by (auto simp: unit_answer_def map_prod_def split: prod.splits)
next
  case (CommitRowBytes v b r)
  then have z: "r \<in># open_rows l" "b = row_bytes v" "row_bytes v \<le> r" using assms(2) by simp_all
  show ?thesis
    using refines_converted [OF assms(1) z(1,3)] commit_bytes_converted [OF assms(1) z(1,3)] z(2) CommitRowBytes assms(3)
      ledger_step.commit_bytes [OF z(1), of v b]
    by (auto simp: unit_answer_def map_prod_def split: prod.splits)
next
  case (ReleaseRows n)
  then have z: "replicate_mset n 0 \<subseteq># open_rows l" using assms(2) by simp
  show ?thesis
    using refines_release [OF assms(1) z] refines_release_plain [OF assms(1) z] ReleaseRows assms(3) ledger_step.release [OF z]
    by (auto simp: unit_answer_def map_prod_def split: prod.splits)
next
  case (ReleaseRowsBytes M)
  then have z: "M \<subseteq># open_rows l" using assms(2) by simp
  show ?thesis
    using refines_release [OF assms(1) z] ReleaseRowsBytes assms(3) ledger_step.release_bytes [OF z]
    by (auto simp: unit_answer_def map_prod_def split: prod.splits)
next
  case (Take m)
  then show ?thesis using refines_take [OF assms(1)] assms(3) by (cases "queue_take m k") auto
next
  case Discard
  then show ?thesis
    using refines_discard [OF assms(1)] assms(3) ledger_step.discard [of l] by (cases "queue_discard k") auto
next
  case TakeIds
  moreover have "represents (snd (take_completed_ids k)) l"
    using assms(1) by (auto simp: represents_def take_completed_ids_def own_bytes_def Let_def)
  ultimately show ?thesis using assms(3) ledger_step.ids [of _ l] by (cases "take_completed_ids k") auto
next
  case (Elsewhere n)
  then show ?thesis
    using assms ledger_step.elsewhere [of n l] by (auto simp: represents_def own_bytes_def Let_def)
qed

inductive_cases ledger_stepE:
  "ledger_step TryReserve a l l'" "ledger_step (TryReserveBytes n) a l l'" "ledger_step (CommitRow v) a l l'"
  "ledger_step (CommitRowBytes v b r) a l l'" "ledger_step (ReleaseRows n) a l l'" "ledger_step (ReleaseRowsBytes M) a l l'"
  "ledger_step (Take m) a l l'" "ledger_step Discard a l l'" "ledger_step TakeIds a l l'" "ledger_step (Elsewhere n) a l l'"

lemma ledger_step_determ: "ledger_step c a l l' \<Longrightarrow> ledger_step c a l l'' \<Longrightarrow> l' = l''"
  by (cases c) (auto elim!: ledger_stepE)

text \<open>A queue and its ledger, from the creation of the queue on.\<close>

inductive in_use :: "QueueSink \<Rightarrow> Ledger \<Rightarrow> bool" where
  fresh: "n \<le> MAX_ENVIRONMENT_METADATA_BYTES \<Longrightarrow>
     in_use \<lparr>q_queue = ResultQueue_new probes schema, environment_bytes = n\<rparr> \<lparr>open_rows = {#}, undelivered = [], others = n\<rparr>"
| call: "in_use k l \<Longrightarrow> allowed c l \<Longrightarrow> queue_call c k = (a, k') \<Longrightarrow> ledger_step c a l l' \<Longrightarrow> in_use k' l'"

lemma in_use_represents: "in_use k l \<Longrightarrow> represents k l"
proof (induction rule: in_use.induct)
  case (fresh n probes schema)
  then show ?case
    by (auto simp: represents_def ResultQueue_new_def own_bytes_def Let_def queue_bounds max_def min_def try_from_def)
next
  case (call k l c a k' l')
  then show ?case using refines_call ledger_step_determ by blast
qed

lemma accepted_answer: "ledger_step c a l l' \<Longrightarrow> a \<noteq> Refused code"
  by (induction rule: ledger_step.induct) auto

lemma reserve_answer:
  assumes "represents k l"
  shows "fst (queue_reserve k) =
    (if length (undelivered l) + size (open_rows l) < q_capacity (q_queue k) \<and>
        (backpressured (q_queue k) \<longrightarrow> length (undelivered l) + size (open_rows l) \<le> low_watermark (q_queue k))
     then Ok Reserved else Ok Saturated)"
  unfolding queue_reserve_def represents_values [OF assms] Let_def by simp

lemma reserve_pressure:
  assumes "represents k l"
  shows "fst (queue_reserve k) = Ok Saturated \<longleftrightarrow> backpressured (q_queue (snd (queue_reserve k)))"
  unfolding queue_reserve_def represents_values [OF assms] Let_def by auto

definition example_queue :: QueueSink where
  "example_queue = \<lparr>q_queue = ResultQueue_new 2 2, environment_bytes = 7\<rparr>"

definition example_ledger :: Ledger where
  "example_ledger = \<lparr>open_rows = {#}, undelivered = [], others = 7\<rparr>"

lemma example_fresh: "in_use example_queue example_ledger"
  unfolding example_queue_def example_ledger_def by (rule in_use.fresh) (simp add: queue_bounds)

lemma example_reserved:
  "in_use (snd (queue_call (TryReserveBytes 5) example_queue)) \<lparr>open_rows = {#5#}, undelivered = [], others = 7\<rparr>"
proof -
  have "queue_call (TryReserveBytes 5) example_queue = (Row Reserved, snd (queue_call (TryReserveBytes 5) example_queue))"
    by (simp add: example_queue_def ResultQueue_new_def queue_reserve_bytes_def queue_reserve_def Let_def queue_bounds
        try_from_def max_of_def saturating_add_def checked_add_def environment_total_def row_answer_def)
  from in_use.call [OF example_fresh _ this ledger_step.reserve_bytes] show ?thesis
    by (simp add: example_ledger_def)
qed

section \<open>Claims\<close>

text \<open>
  C7. The queue implements the ledger of the sink contract: for a client that only commits
  or releases what it has reserved, every call is answered as the ledger promises and never
  refused, and afterwards rows, reservations and byte counters are those of the ledger; in
  particular the shared byte counter never wraps and never exceeds its limit.
\<close>

theorem queue_refines_ledger:
  assumes "in_use k l" and "allowed c l" and "queue_call c k = (a, k')"
  shows "\<exists>l'. ledger_step c a l l' \<and> in_use k' l' \<and> represents k' l' \<and> (\<forall>code. a \<noteq> Refused code)"
proof -
  obtain l' where l': "ledger_step c a l l'" "represents k' l'"
    using refines_call [OF in_use_represents [OF assms(1)] assms(2,3)] by (elim exE conjE)
  show ?thesis
    by (intro exI [of _ l'] conjI allI) (rule l' in_use.call [OF assms l'(1)] accepted_answer [OF l'(1)])+
qed

theorem queue_refines_ledger_witness:
  "\<exists>l'. ledger_step (ReleaseRowsBytes {#5#}) Accepted \<lparr>open_rows = {#5#}, undelivered = [], others = 7\<rparr> l' \<and>
    represents (snd (queue_call (ReleaseRowsBytes {#5#}) (snd (queue_call (TryReserveBytes 5) example_queue)))) l'"
proof -
  let ?k = "snd (queue_call (TryReserveBytes 5) example_queue)" and ?l = "\<lparr>open_rows = {#5#}, undelivered = [], others = 7\<rparr>"
  have ok: "allowed (ReleaseRowsBytes {#5#}) ?l" by simp
  obtain l' where l': "ledger_step (ReleaseRowsBytes {#5#}) (fst (queue_call (ReleaseRowsBytes {#5#}) ?k)) ?l l'"
      "represents (snd (queue_call (ReleaseRowsBytes {#5#}) ?k)) l'"
    using queue_refines_ledger [OF example_reserved ok prod.collapse [symmetric]] by (elim exE conjE)
  have acc: "fst (queue_call (ReleaseRowsBytes {#5#}) ?k) = Accepted" using l'(1) by (rule ledger_stepE(6)) (assumption | simp only: QueueCall.distinct simp_thms)+
  show ?thesis by (intro exI [of _ l'] conjI) (rule l'(1) [unfolded acc] l'(2))+
qed

text \<open>
  C20. Back-pressure has hysteresis: a reservation is granted whenever at most half of the
  capacity is occupied and refused when all of it is; a refusal raises the back-pressure
  flag, and while the flag is up nothing is granted until the occupancy has fallen to half
  of the capacity.
\<close>

theorem queue_hysteresis:
  assumes "in_use k l"
  shows "(length (undelivered l) + size (open_rows l) \<le> q_capacity (q_queue k) div 2 \<longrightarrow> fst (queue_reserve k) = Ok Reserved) \<and>
    (length (undelivered l) + size (open_rows l) = q_capacity (q_queue k) \<longrightarrow> fst (queue_reserve k) = Ok Saturated) \<and>
    (fst (queue_reserve k) = Ok Saturated \<longleftrightarrow> backpressured (q_queue (snd (queue_reserve k)))) \<and>
    (backpressured (q_queue k) \<longrightarrow> q_capacity (q_queue k) div 2 < length (undelivered l) + size (open_rows l) \<longrightarrow>
      queue_reserve k = (Ok Saturated, k))"
proof -
  note rep = in_use_represents [OF assms]
  have "1 \<le> q_capacity (q_queue k)" "low_watermark (q_queue k) = q_capacity (q_queue k) div 2"
    using rep by (simp_all add: represents_def Let_def)
  moreover have "queue_reserve k = (Ok Saturated, k)"
    if "backpressured (q_queue k)" "low_watermark (q_queue k) < length (undelivered l) + size (open_rows l)"
    using that unfolding queue_reserve_def represents_values [OF rep] Let_def by simp
  ultimately show ?thesis unfolding reserve_pressure [OF rep, symmetric] reserve_answer [OF rep] by auto
qed

theorem queue_hysteresis_witness: "fst (queue_reserve example_queue) = Ok Reserved"
proof -
  have "length (undelivered example_ledger) + size (open_rows example_ledger) \<le> q_capacity (q_queue example_queue) div 2"
    by (simp add: example_ledger_def)
  then show ?thesis using queue_hysteresis [OF example_fresh] by blast
qed

end
