(* ===== verification/Queue_Session.thy ===== *)
theory Queue_Session
  imports Result_Queue Scheduler_Constant Scheduler_Examples
begin

text \<open>
  The scheduler and the result queue together, as \<^verbatim>\<open>NativeSession\<close> in
  \<^verbatim>\<open>nodenetscanner-native/src/session.rs\<close> composes them: requests of the embedder run the
  scheduler with the queue as its sink, and between requests the consumer takes batches, the
  session discards what is queued when it is closed, and the other sessions of the process move
  the shared byte counter. What the scheduler has reserved is what the queue counts as reserved,
  and the rows leave the queue in the order of their delivery, each exactly once.
\<close>

section \<open>The queue as a sink\<close>

definition with_queue :: "('t, 'r, 'x) env \<Rightarrow> ('t, 'r, QueueSink) env" where
  "with_queue env = \<lparr>emit = emit env, retire = retire env, resolve = resolve env,
     try_reserve = queue_reserve, try_reserve_with_bytes = queue_reserve_bytes,
     commit_reserved = queue_commit, commit_reserved_with_bytes = queue_commit_bytes,
     release_reserved = queue_release, release_reserved_with_bytes = queue_release_bytes\<rparr>"

definition rows_of :: "TraceEvent list \<Rightarrow> ScanResult list" where
  "rows_of tr = List.map_filter (\<lambda>e. case e of Committed r \<Rightarrow> Some r | _ \<Rightarrow> None) tr"

lemma rows_of_simps [simp]:
  "rows_of [] = []" "rows_of (xs @ ys) = rows_of xs @ rows_of ys" "rows_of [Committed r] = [r]"
  "rows_of [Emitted em] = []" "rows_of [ReservedRow] = []" "rows_of [ReleasedRows n] = []" "rows_of [StopRequested] = []"
  by (simp_all add: rows_of_def map_filter_def)

lemma committed_rows: "committed tr = map (\<lambda>r. logical_id (result_probe r)) (rows_of tr)"
  by (induction tr) (auto simp: committed_def rows_of_def map_filter_simps split: TraceEvent.splits)

lemma set_rows_of: "set (rows_of tr) = {r. Committed r \<in> set tr}"
  by (induction tr) (auto simp: rows_of_def map_filter_simps split: TraceEvent.splits)

text \<open>
  The queue agrees with the trace: open reservations, the rows still queued after the rows
  \<open>out\<close> that have left the queue, and the capacity.
\<close>

definition agrees :: "ScanResult list \<Rightarrow> ('t, 'r, QueueSink) sys \<Rightarrow> bool" where
  "agrees out w \<longleftrightarrow>
     (let q = q_queue (sink w)
      in q_reserved q + length (rows_of (trace w)) + released_rows (trace w) = reserved_rows (trace w)
       \<and> rows_of (trace w) = out @ q_values q
       \<and> length (q_values q) + q_reserved q \<le> q_capacity q \<and> q_capacity q \<le> MAX_QUEUED_RESULTS)"

definition keeps_agreement :: "('t, 'r, QueueSink) sys \<Rightarrow> ('t, 'r, QueueSink) sys \<Rightarrow> bool" where
  "keeps_agreement w w' \<longleftrightarrow> (\<forall>out. agrees out w \<longrightarrow> agrees out w')"

text \<open>The two ways a call of the scheduler changes the rows of the queue.\<close>

lemma queue_reserve_rows:
  assumes "queue_reserve k = (r, k')"
  shows "q_values (q_queue k') = q_values (q_queue k)" "q_capacity (q_queue k') = q_capacity (q_queue k)"
    and "(r = Ok Reserved \<and> q_reserved (q_queue k') = q_reserved (q_queue k) + 1 \<and>
        saturating_add 64 (length (q_values (q_queue k))) (q_reserved (q_queue k)) < q_capacity (q_queue k)) \<or>
      (r = Ok Saturated \<and> q_reserved (q_queue k') = q_reserved (q_queue k))"
  using assms by (auto simp: queue_reserve_def Let_def split: if_splits)

lemma queue_reserve_bytes_rows:
  assumes "queue_reserve_bytes k n = (r, k')"
  shows "q_values (q_queue k') = q_values (q_queue k)" "q_capacity (q_queue k') = q_capacity (q_queue k)"
    and "(r = Ok Reserved \<and> q_reserved (q_queue k') = q_reserved (q_queue k) + 1 \<and>
        saturating_add 64 (length (q_values (q_queue k))) (q_reserved (q_queue k)) < q_capacity (q_queue k)) \<or>
      (r = Ok Saturated \<and> q_reserved (q_queue k') = q_reserved (q_queue k))"
proof -
  obtain x k1 where k1: "queue_reserve k = (x, k1)" by (cases "queue_reserve k")
  note rows = queue_reserve_rows [OF k1]
  have "x = Ok Reserved \<or> x = Ok Saturated" using rows(3) by blast
  then consider "x = Ok Saturated" "r = Ok Saturated" "k' = k1"
    | "x = Ok Reserved" "r = Ok Saturated" "q_queue k' = (q_queue k1)\<lparr>q_reserved := q_reserved (q_queue k1) - 1,
        backpressured := backpressured (q_queue k'), application_backpressured := application_backpressured (q_queue k')\<rparr>"
    | "x = Ok Reserved" "r = Ok Reserved" "q_queue k' = (q_queue k1)\<lparr>reserved_metadata_bytes := reserved_metadata_bytes (q_queue k')\<rparr>"
    using assms k1 by (auto simp: queue_reserve_bytes_def Let_def split: if_splits option.splits)
  then have "q_values (q_queue k') = q_values (q_queue k) \<and> q_capacity (q_queue k') = q_capacity (q_queue k) \<and>
    ((r = Ok Reserved \<and> q_reserved (q_queue k') = q_reserved (q_queue k) + 1 \<and>
        saturating_add 64 (length (q_values (q_queue k))) (q_reserved (q_queue k)) < q_capacity (q_queue k)) \<or>
      (r = Ok Saturated \<and> q_reserved (q_queue k') = q_reserved (q_queue k)))"
  proof cases
    case 2
    from arg_cong [OF 2(3), of q_values] arg_cong [OF 2(3), of q_capacity] arg_cong [OF 2(3), of q_reserved]
    show ?thesis using rows 2(1,2) by simp
  next
    case 3
    from arg_cong [OF 3(3), of q_values] arg_cong [OF 3(3), of q_capacity] arg_cong [OF 3(3), of q_reserved]
    show ?thesis using rows 3(1,2) by simp
  qed (use rows in simp)
  then show "q_values (q_queue k') = q_values (q_queue k)" "q_capacity (q_queue k') = q_capacity (q_queue k)"
    and "(r = Ok Reserved \<and> q_reserved (q_queue k') = q_reserved (q_queue k) + 1 \<and>
        saturating_add 64 (length (q_values (q_queue k))) (q_reserved (q_queue k)) < q_capacity (q_queue k)) \<or>
      (r = Ok Saturated \<and> q_reserved (q_queue k') = q_reserved (q_queue k))"
    by blast+
qed

lemma queue_commit_rows:
  assumes "queue_commit k v = (r, k')"
  shows "q_capacity (q_queue k') = q_capacity (q_queue k)"
    and "(r = Ok () \<and> q_values (q_queue k') = q_values (q_queue k) @ [v] \<and> q_reserved (q_queue k) = q_reserved (q_queue k') + 1) \<or>
      (r = Err 1 \<and> k' = k)"
  using assms by (auto simp: queue_commit_def Let_def split: if_splits)

lemma queue_commit_bytes_rows:
  assumes "queue_commit_bytes k v a n = (r, k')"
  shows "q_capacity (q_queue k') = q_capacity (q_queue k)"
    and "(r = Ok () \<and> q_values (q_queue k') = q_values (q_queue k) @ [v] \<and> q_reserved (q_queue k) = q_reserved (q_queue k') + 1) \<or>
      (\<exists>c. r = Err c \<and> q_values (q_queue k') = q_values (q_queue k) \<and> q_reserved (q_queue k') = q_reserved (q_queue k))"
  using assms by (auto simp: queue_commit_bytes_def queue_commit_def Let_def split: if_splits)

lemma queue_release_rows:
  assumes "queue_release k n = (r, k') \<or> queue_release_bytes k n b = (r, k')"
  shows "q_capacity (q_queue k') = q_capacity (q_queue k)" "q_values (q_queue k') = q_values (q_queue k)"
    and "(r = Ok () \<and> q_reserved (q_queue k) = q_reserved (q_queue k') + n) \<or>
      (\<exists>c. r = Err c \<and> q_reserved (q_queue k') = q_reserved (q_queue k))"
  using assms by (auto simp: queue_release_bytes_def queue_release_def Let_def split: if_splits)

text \<open>One reservation, delivery or release, seen by the queue and by the trace.\<close>

lemma agreesD:
  assumes "agrees out w"
  shows "q_reserved (q_queue (sink w)) + length (rows_of (trace w)) + released_rows (trace w) = reserved_rows (trace w)"
    and "rows_of (trace w) = out @ q_values (q_queue (sink w))"
    and "length (q_values (q_queue (sink w))) + q_reserved (q_queue (sink w)) \<le> q_capacity (q_queue (sink w))"
    and "q_capacity (q_queue (sink w)) \<le> MAX_QUEUED_RESULTS"
  using assms unfolding agrees_def Let_def by blast+

lemma agrees_reserved:
  assumes "agrees out w" and "q_values (q_queue k') = q_values (q_queue (sink w))"
    and "q_capacity (q_queue k') = q_capacity (q_queue (sink w))"
    and "(r = Ok Reserved \<and> q_reserved (q_queue k') = q_reserved (q_queue (sink w)) + 1 \<and>
        saturating_add 64 (length (q_values (q_queue (sink w)))) (q_reserved (q_queue (sink w))) < q_capacity (q_queue (sink w))) \<or>
      (r = Ok Saturated \<and> q_reserved (q_queue k') = q_reserved (q_queue (sink w)))"
  shows "agrees out (w\<lparr>sink := k', trace := note_reservation r (trace w)\<rparr>)"
  using assms(4)
proof (elim disjE conjE)
  assume r: "r = Ok Reserved" "q_reserved (q_queue k') = q_reserved (q_queue (sink w)) + 1"
    and less: "saturating_add 64 (length (q_values (q_queue (sink w)))) (q_reserved (q_queue (sink w))) < q_capacity (q_queue (sink w))"
  have "saturating_add 64 (length (q_values (q_queue (sink w)))) (q_reserved (q_queue (sink w)))
      = length (q_values (q_queue (sink w))) + q_reserved (q_queue (sink w))"
    using assms(1) width_bounds(1) by (intro saturating_exact) (simp add: agrees_def Let_def)
  then show ?thesis
    unfolding agrees_def Let_def note_reservation_def using agreesD [OF assms(1)] assms(2,3) r less by simp
next
  assume "r = Ok Saturated" "q_reserved (q_queue k') = q_reserved (q_queue (sink w))"
  then show ?thesis
    unfolding agrees_def Let_def note_reservation_def using agreesD [OF assms(1)] assms(2,3) by simp
qed

lemma agrees_unchanged:
  assumes "agrees out w" and "q_values (q_queue k') = q_values (q_queue (sink w))"
    and "q_capacity (q_queue k') = q_capacity (q_queue (sink w))" and "q_reserved (q_queue k') = q_reserved (q_queue (sink w))"
  shows "agrees out (w\<lparr>sink := k'\<rparr>)"
  unfolding agrees_def Let_def using agreesD [OF assms(1)] assms(2-4) by simp

lemma agrees_committed:
  assumes "agrees out w" and "q_capacity (q_queue k') = q_capacity (q_queue (sink w))"
    and "q_values (q_queue k') = q_values (q_queue (sink w)) @ [v]" and "q_reserved (q_queue (sink w)) = q_reserved (q_queue k') + 1"
  shows "agrees out (w\<lparr>sink := k', trace := trace w @ [Committed v]\<rparr>)"
  unfolding agrees_def Let_def using agreesD [OF assms(1)] assms(2-4) by simp

lemma agrees_released:
  assumes "agrees out w" and "q_capacity (q_queue k') = q_capacity (q_queue (sink w))"
    and "q_values (q_queue k') = q_values (q_queue (sink w))" and "q_reserved (q_queue (sink w)) = q_reserved (q_queue k') + n"
  shows "agrees out (w\<lparr>sink := k', trace := trace w @ [ReleasedRows n]\<rparr>)"
  unfolding agrees_def Let_def using agreesD [OF assms(1)] assms(2-4) by simp

lemma agrees_reserve_calls:
  assumes "agrees out w"
  shows "agrees out (snd (call_reserve (with_queue env) w))" "agrees out (snd (call_reserve_bytes (with_queue env) n w))"
proof -
  obtain r k' where k': "queue_reserve (sink w) = (r, k')" by (cases "queue_reserve (sink w)")
  show "agrees out (snd (call_reserve (with_queue env) w))"
    using agrees_reserved [OF assms queue_reserve_rows [OF k']] k' by (simp add: call_reserve_def with_queue_def)
next
  obtain r k' where k': "queue_reserve_bytes (sink w) n = (r, k')" by (cases "queue_reserve_bytes (sink w) n")
  show "agrees out (snd (call_reserve_bytes (with_queue env) n w))"
    using agrees_reserved [OF assms queue_reserve_bytes_rows [OF k']] k' by (simp add: call_reserve_bytes_def with_queue_def)
qed

lemma agrees_commit_calls:
  assumes "agrees out w"
  shows "agrees out (snd (call_commit (with_queue env) res w))" "agrees out (snd (call_commit_bytes (with_queue env) res m n w))"
proof -
  obtain r k' where k': "queue_commit (sink w) res = (r, k')" by (cases "queue_commit (sink w) res")
  show "agrees out (snd (call_commit (with_queue env) res w))"
    using queue_commit_rows(2) [OF k']
  proof (elim disjE conjE)
    assume "r = Ok ()" "q_values (q_queue k') = q_values (q_queue (sink w)) @ [res]"
      "q_reserved (q_queue (sink w)) = q_reserved (q_queue k') + 1"
    then show ?thesis
      using agrees_committed [OF assms queue_commit_rows(1) [OF k']] k' by (simp add: call_commit_def with_queue_def)
  qed (use assms k' in \<open>simp add: call_commit_def with_queue_def\<close>)
next
  obtain r k' where k': "queue_commit_bytes (sink w) res m n = (r, k')" by (cases "queue_commit_bytes (sink w) res m n")
  show "agrees out (snd (call_commit_bytes (with_queue env) res m n w))"
    using queue_commit_bytes_rows(2) [OF k']
  proof (elim disjE conjE exE)
    assume "r = Ok ()" "q_values (q_queue k') = q_values (q_queue (sink w)) @ [res]"
      "q_reserved (q_queue (sink w)) = q_reserved (q_queue k') + 1"
    then show ?thesis
      using agrees_committed [OF assms queue_commit_bytes_rows(1) [OF k']] k' by (simp add: call_commit_bytes_def with_queue_def)
  next
    fix c
    assume "r = Err c" "q_values (q_queue k') = q_values (q_queue (sink w))" "q_reserved (q_queue k') = q_reserved (q_queue (sink w))"
    then show ?thesis
      using agrees_unchanged [OF assms _ queue_commit_bytes_rows(1) [OF k']] k' by (simp add: call_commit_bytes_def with_queue_def)
  qed
qed

lemma agrees_release_calls:
  assumes "agrees out w"
  shows "agrees out (snd (call_release (with_queue env) n w))" "agrees out (snd (call_release_bytes (with_queue env) n b w))"
proof -
  have step: "agrees out (w\<lparr>sink := k', trace := trace w @ [ReleasedRows n]\<rparr>)"
    if "queue_release (sink w) n = (Ok (), k') \<or> queue_release_bytes (sink w) n b = (Ok (), k')" for k'
    using agrees_released [OF assms queue_release_rows(1,2) [OF that]] queue_release_rows(3) [OF that] by simp
  have stay: "agrees out (w\<lparr>sink := k'\<rparr>)"
    if "queue_release (sink w) n = (Err c, k') \<or> queue_release_bytes (sink w) n b = (Err c, k')" for k' c
    using agrees_unchanged [OF assms queue_release_rows(2,1) [OF that]] queue_release_rows(3) [OF that] by simp
  show "agrees out (snd (call_release (with_queue env) n w))" "agrees out (snd (call_release_bytes (with_queue env) n b w))"
    using step stay by (auto simp: call_release_def call_release_bytes_def with_queue_def split: prod.splits sum.splits)
qed

interpretation queued: stable_relation "with_queue env" keeps_agreement for env :: "('t, 'r, 'x) env"
proof
  show "keeps_agreement w w" for w by (simp add: keeps_agreement_def)
  show "keeps_agreement w w''" if "keeps_agreement w w'" "keeps_agreement w' w''" for w w' w''
    using that unfolding keeps_agreement_def by blast
qed (simp_all add: keeps_agreement_def agrees_reserve_calls agrees_commit_calls agrees_release_calls, simp_all add: agrees_def
    call_emit_def call_retire_def call_resolve_def smod_def with_queue_def split: prod.splits sum.splits)

lemma perform_agrees: "perform (with_queue env) rq w = (r, w') \<Longrightarrow> agrees out w \<Longrightarrow> agrees out w'"
  using queued.steadily_get [OF queued.steadily_perform] unfolding keeps_agreement_def by blast

section \<open>Hosted sessions\<close>

text \<open>
  The steps between the requests: the consumer pulls a batch, the session discards everything
  that is queued, the embedder collects finished identifiers, and other sessions use the shared
  counter. The first component lists the rows that leave the queue, each with a mark that says
  whether the consumer receives it. A hosted session goes on after a failed request under the
  same condition as a session.
\<close>

datatype Consumer = Pull nat | DropAll | CollectIds | OtherSessions nat

type_synonym departures = "(ScanResult \<times> bool) list"

fun consume :: "Consumer \<Rightarrow> QueueSink \<Rightarrow> departures \<times> QueueSink" where
  "consume (Pull maximum) k =
     (case queue_take maximum k of (None, k') \<Rightarrow> ([], k') | (Some vs, k') \<Rightarrow> (map (\<lambda>v. (v, True)) vs, k'))"
| "consume DropAll k = (map (\<lambda>v. (v, False)) (q_values (q_queue k)), snd (queue_discard k))"
| "consume CollectIds k = ([], snd (take_completed_ids k))"
| "consume (OtherSessions n) k = ([], k\<lparr>environment_bytes := n\<rparr>)"

definition received :: "departures \<Rightarrow> ScanResult list" where
  "received gone = map fst (filter snd gone)"

definition discarded :: "departures \<Rightarrow> ScanResult list" where
  "discarded gone = map fst (filter (\<lambda>d. \<not> snd d) gone)"

inductive hosted :: "('t, 'r, 'x) env \<Rightarrow> ('t, 'r, QueueSink) sys \<Rightarrow> departures \<Rightarrow> ('t, 'r, QueueSink) sys \<Rightarrow> bool"
  for env :: "('t, 'r, 'x) env" and w0 :: "('t, 'r, QueueSink) sys" where
  hosted_open: "hosted env w0 [] w0"
| hosted_request: "hosted env w0 gone w \<Longrightarrow> perform (with_queue env) rq w = (r, w') \<Longrightarrow> unbroken r \<Longrightarrow> hosted env w0 gone w'"
| hosted_consume: "hosted env w0 gone w \<Longrightarrow> consume c (sink w) = (ds, k') \<Longrightarrow> hosted env w0 (gone @ ds) (w\<lparr>sink := k'\<rparr>)"

lemma mset_departures: "mset (map f (received gone)) + mset (map f (discarded gone)) = mset (map f (map fst gone))"
  by (induction gone) (auto simp: received_def discarded_def)

lemma set_departures: "set (received gone) \<subseteq> set (map fst gone)"
  by (auto simp: received_def)

lemma queue_take_rows:
  assumes "queue_take m k = (r, k')"
  shows "q_values (q_queue k) = (case r of None \<Rightarrow> [] | Some vs \<Rightarrow> vs) @ q_values (q_queue k')"
    and "q_reserved (q_queue k') = q_reserved (q_queue k)" "q_capacity (q_queue k') = q_capacity (q_queue k)"
  using assms by (auto simp: queue_take_def Let_def split: if_splits prod.splits)

lemma consume_rows:
  assumes "consume c k = (ds, k')"
  shows "q_values (q_queue k) = map fst ds @ q_values (q_queue k')"
    and "q_reserved (q_queue k') = q_reserved (q_queue k)" "q_capacity (q_queue k') = q_capacity (q_queue k)"
proof -
  have "q_values (q_queue k) = map fst ds @ q_values (q_queue k') \<and> q_reserved (q_queue k') = q_reserved (q_queue k) \<and>
    q_capacity (q_queue k') = q_capacity (q_queue k)"
  proof (cases c)
    case (Pull m)
    obtain r k1 where k1: "queue_take m k = (r, k1)" by (cases "queue_take m k")
    show ?thesis using queue_take_rows [OF k1] Pull k1 assms by (cases r) (auto simp: comp_def)
  qed (use assms in \<open>auto simp: queue_discard_def take_completed_ids_def Let_def comp_def\<close>)
  then show "q_values (q_queue k) = map fst ds @ q_values (q_queue k')" "q_reserved (q_queue k') = q_reserved (q_queue k)"
    "q_capacity (q_queue k') = q_capacity (q_queue k)" by simp_all
qed

lemma hosted_good:
  assumes "opened pl cfg seed w0" and "sink w0 = \<lparr>q_queue = ResultQueue_new n schema, environment_bytes = e\<rparr>"
    and "hosted env w0 gone w"
  shows "good w" and "plan (sched w) = pl" and "agrees (map fst gone) w"
proof -
  have "good w \<and> plan (sched w) = pl \<and> agrees (map fst gone) w"
    using assms(3)
  proof (induction rule: hosted.induct)
    case hosted_open
    have "agrees [] w0"
      using assms(1,2) by (simp add: agrees_def opened_def ResultQueue_new_def Let_def queue_bounds)
    then show ?case using good_opened [OF assms(1)] by simp
  next
    case (hosted_request gone w rq r w')
    then have "good w'" by (blast intro: good_unbroken)
    then show ?case
      using perform_grows [OF hosted_request.hyps(2)] perform_agrees [OF hosted_request.hyps(2)] hosted_request.IH
      by (simp add: grows_def)
  next
    case (hosted_consume gone w c ds k')
    note rows = consume_rows [OF hosted_consume.hyps(2)]
    have ag: "agrees (map fst gone) w" using hosted_consume.IH by blast
    have "agrees (map fst (gone @ ds)) (w\<lparr>sink := k'\<rparr>)"
      unfolding agrees_def Let_def using agreesD [OF ag] rows by simp
    then show ?case using hosted_consume.IH by (simp add: good_def)
  qed
  then show "good w" "plan (sched w) = pl" "agrees (map fst gone) w" by simp_all
qed

section \<open>A hosted session that completes\<close>

lemma hosted_serve:
  "hosted env w0 gone w \<Longrightarrow> serve (with_queue env) rqs w = (rs, w') \<Longrightarrow> list_all unbroken rs \<Longrightarrow> hosted env w0 gone w'"
proof (induction rqs arbitrary: w rs)
  case (Cons rq rqs)
  obtain r w1 rs' where w1: "perform (with_queue env) rq w = (r, w1)" "serve (with_queue env) rqs w1 = (rs', w')" "rs = r # rs'"
    using Cons.prems(2) by (auto split: prod.splits)
  from Cons.IH [OF hosted_request [OF Cons.prems(1) w1(1)] w1(2)] show ?case using w1(3) Cons.prems(3) by simp
qed simp

definition demo_queue :: QueueSink where
  "demo_queue = \<lparr>q_queue = ResultQueue_new 3 1, environment_bytes = 0\<rparr>"

definition demo_hosted :: "(unit, unit, QueueSink) sys" where
  "demo_hosted =
     \<lparr>sched = sched (demo_sys (demo_config 4 False)), transport = (), resolver = (), sink = demo_queue,
      report = \<lparr>transitions = 0, emissions = 0, results = 0\<rparr>, trace = []\<rparr>"

definition demo_served :: "(unit, unit, QueueSink) sys" where
  "demo_served = snd (serve (with_queue demo_env) demo_requests demo_hosted)"

definition demo_gone :: departures where
  "demo_gone = fst (consume (Pull 10) (sink demo_served))"

definition demo_final :: "(unit, unit, QueueSink) sys" where
  "demo_final = demo_served\<lparr>sink := snd (consume (Pull 10) (sink demo_served))\<rparr>"

lemma demo_hosted_run:
  "(case serve (with_queue demo_env) demo_requests demo_hosted of
     (rs, w) \<Rightarrow> (list_all unbroken rs, lifecycle (sched w), list_all (\<lambda>e. e \<noteq> StopRequested) (trace w),
       q_values (q_queue (snd (consume (Pull 10) (sink w)))) = [], map snd (fst (consume (Pull 10) (sink w)))))
   = (True, Completed, True, True, [True, True, True])"
  by code_simp

lemma demo_final:
  "list_all unbroken (fst (serve (with_queue demo_env) demo_requests demo_hosted))" "lifecycle (sched demo_final) = Completed"
  "StopRequested \<notin> set (trace demo_final)" "q_values (q_queue (sink demo_final)) = []" "map snd demo_gone = [True, True, True]"
  using demo_hosted_run
  by (auto simp: demo_final_def demo_gone_def demo_served_def list_all_iff split: prod.splits)

lemma demo_nothing_lost: "discarded demo_gone = []"
proof -
  have "snd d" if "d \<in> set demo_gone" for d using image_eqI [OF refl that, of snd] demo_final(5) by (metis set_map empty_set list.simps(15) insertE emptyE)
  then show ?thesis by (auto simp: discarded_def filter_empty_conv)
qed

lemma demo_hosted_opened: "opened demo_plan (demo_config 4 False) (Explicit 7) demo_hosted"
proof -
  have same: "sched demo_hosted = sched (demo_sys (demo_config 4 False))" "trace demo_hosted = []"
    by (simp_all add: demo_hosted_def)
  show ?thesis using demo_opened(1) unfolding opened_def same by blast
qed

lemma demo_hosted_final: "hosted demo_env demo_hosted demo_gone demo_final"
proof -
  have "hosted demo_env demo_hosted [] demo_served"
    using hosted_serve [OF hosted_open _ demo_final(1)] unfolding demo_served_def by (metis prod.collapse)
  from hosted_consume [OF this, of "Pull 10" demo_gone "snd (consume (Pull 10) (sink demo_served))"]
  show ?thesis by (simp add: demo_gone_def demo_final_def)
qed

lemmas demo_sink = arg_cong [OF demo_hosted_def, of sink, simplified, unfolded demo_queue_def]

section \<open>Claims\<close>



text \<open>
  C2. End to end: when a session completes without having been stopped and the queue is empty,
  then the rows the consumer received and those the session discarded are together exactly one
  per logical probe of the plan, and each row the consumer received carries the probe the plan
  decodes for its identifier. So a consumer that pulled until the queue was empty, with nothing
  discarded, has received exactly one row for every probe.
\<close>

theorem consumer_receives_every_probe_once:
  assumes "opened pl cfg seed w0" and "sink w0 = \<lparr>q_queue = ResultQueue_new n schema, environment_bytes = e\<rparr>"
    and "hosted env w0 gone w" and "lifecycle (sched w) = Completed" and "StopRequested \<notin> set (trace w)"
    and "q_values (q_queue (sink w)) = []"
  shows "mset (map (\<lambda>v. logical_id (result_probe v)) (received gone))
      + mset (map (\<lambda>v. logical_id (result_probe v)) (discarded gone)) = mset [0..<logical_probe_count pl] \<and>
    (discarded gone = [] \<longrightarrow>
      mset (map (\<lambda>v. logical_id (result_probe v)) (received gone)) = mset [0..<logical_probe_count pl]) \<and>
    (\<forall>v \<in> set (received gone). logical_probe_at pl (logical_id (result_probe v)) = Ok (result_probe v))"
proof -
  have rows: "rows_of (trace w) = map fst gone" using agreesD(2) [OF hosted_good(3) [OF assms(1-3)]] assms(6) by simp
  have ids: "mset (map (\<lambda>v. logical_id (result_probe v)) (map fst gone)) = mset [0..<logical_probe_count pl]"
    and probes: "\<forall>res. Committed res \<in> set (trace w) \<longrightarrow>
      logical_probe_at pl (logical_id (result_probe res)) = Ok (result_probe res)"
    using lossless_of_good [OF hosted_good(1) [OF assms(1-3)] assms(4,5)] hosted_good(2) [OF assms(1-3)]
    unfolding committed_rows rows by simp_all
  have "logical_probe_at pl (logical_id (result_probe v)) = Ok (result_probe v)" if "v \<in> set (received gone)" for v
    using that set_departures [of gone] set_rows_of [of "trace w"] probes unfolding rows by blast
  moreover note mset_departures [of "\<lambda>v. logical_id (result_probe v)" gone, unfolded ids]
  ultimately show ?thesis by (metis add_0_right list.simps(8) mset.simps(1))
qed

theorem consumer_receives_every_probe_once_witness:
  "mset (map (\<lambda>v. logical_id (result_probe v)) (received demo_gone)) = mset [0, 1, 2]"
  using consumer_receives_every_probe_once [OF demo_hosted_opened demo_sink demo_hosted_final demo_final(2-4)] demo_nothing_lost
  by (simp add: demo_plan_def upt_rec)

end
