(* ===== verification/Byte_Codec.thy ===== *)
theory Byte_Codec
  imports Net_Types
begin

text \<open>
  Shared vocabulary of the byte-level codecs. A Rust parser either accepts, refuses with one
  of its own errors, or panics: indexing and slicing out of range is the failure \<open>Crash\<close>,
  so that the absence of panics is a theorem and not an assumption. \<open>parses r Q\<close> says that
  \<open>r\<close> is not a panic and that what it accepts satisfies \<open>Q\<close>; its laws compute along the
  structure of a parser. The second half holds the texts both sides of the language boundary
  exchange: little-endian integers, decimal digits and the UTF-8 decoder of the consumer.
\<close>

named_theorems parse_simps "what a parser without panic accepts"

section \<open>Parsers\<close>

datatype 'e failure = Refuse 'e | Crash

type_synonym ('e, 'a) parse = "('e failure, 'a) result"

abbreviation refuse :: "'e \<Rightarrow> ('e, 'a) parse" where "refuse e \<equiv> Err (Refuse e)"

text \<open>\<^verbatim>\<open>xs[i]\<close> and \<^verbatim>\<open>&xs[a..b]\<close>; \<^verbatim>\<open>xs.get(i)\<close> followed by \<^verbatim>\<open>ok_or(e)?\<close>.\<close>

definition byte_at :: "'b list \<Rightarrow> nat \<Rightarrow> ('e, 'b) parse" where
  "byte_at xs i = (if i < length xs then Ok (xs ! i) else Err Crash)"

definition slice :: "'b list \<Rightarrow> nat \<Rightarrow> nat \<Rightarrow> ('e, 'b list) parse" where
  "slice xs a b = (if a \<le> b \<and> b \<le> length xs then Ok (take (b - a) (drop a xs)) else Err Crash)"

definition get_or :: "'b list \<Rightarrow> nat \<Rightarrow> 'e \<Rightarrow> ('e, 'b) parse" where
  "get_or xs i e = (if i < length xs then Ok (xs ! i) else refuse e)"

definition demand :: "bool \<Rightarrow> 'e \<Rightarrow> ('e, unit) parse" where
  "demand b e = (if b then Ok () else refuse e)"

definition demand_some :: "'a option \<Rightarrow> 'e \<Rightarrow> ('e, 'a) parse" where
  "demand_some x e = (case x of None \<Rightarrow> refuse e | Some a \<Rightarrow> Ok a)"

definition unwrap :: "'a option \<Rightarrow> ('e, 'a) parse" where
  "unwrap x = (case x of None \<Rightarrow> Err Crash | Some a \<Rightarrow> Ok a)"

abbreviation rthen :: "('e, unit) result \<Rightarrow> ('e, 'a) result \<Rightarrow> ('e, 'a) result" where
  "rthen r s \<equiv> rbind r (\<lambda>_. s)"

definition parses :: "('e, 'a) parse \<Rightarrow> ('a \<Rightarrow> bool) \<Rightarrow> bool" where
  "parses r Q = (case r of Inl (Refuse _) \<Rightarrow> True | Inl Crash \<Rightarrow> False | Inr a \<Rightarrow> Q a)"

lemma parses_basic [parse_simps]:
  "parses (Ok a) Q = Q a" "parses (refuse e) Q" "\<not> parses (Err Crash) Q"
  by (simp_all add: parses_def)

lemma parses_rbind [parse_simps]: "parses (rbind r f) Q = parses r (\<lambda>a. parses (f a) Q)"
  by (auto simp: parses_def rbind_def split: sum.splits failure.splits)

lemma parses_access [parse_simps]:
  "parses (byte_at xs i) Q' \<longleftrightarrow> i < length xs \<and> Q' (xs ! i)"
  "parses (slice xs a b) Q \<longleftrightarrow> a \<le> b \<and> b \<le> length xs \<and> Q (take (b - a) (drop a xs))"
  "parses (get_or xs i e) Q' \<longleftrightarrow> (i < length xs \<longrightarrow> Q' (xs ! i))"
  "parses (demand c e) Q'' \<longleftrightarrow> (c \<longrightarrow> Q'' ())"
  by (auto simp: parses_def byte_at_def slice_def get_or_def demand_def)

lemma parses_option [parse_simps]:
  "parses (demand_some x e) Q \<longleftrightarrow> (\<forall>a. x = Some a \<longrightarrow> Q a)"
  "parses (unwrap x) Q \<longleftrightarrow> (\<exists>a. x = Some a \<and> Q a)"
  by (auto simp: parses_def demand_some_def unwrap_def split: option.splits)

lemma parses_mono: "parses r Q \<Longrightarrow> (\<And>a. Q a \<Longrightarrow> Q' a) \<Longrightarrow> parses r Q'"
  by (auto simp: parses_def split: sum.splits failure.splits)

lemma parses_Ok: "parses r Q \<Longrightarrow> r = Ok a \<Longrightarrow> Q a"
  by (simp add: parses_def)

lemma parses_no_crash: "parses r Q \<Longrightarrow> r \<noteq> Err Crash"
  by (auto simp: parses_def)

lemma access_Ok [result_simps]:
  "byte_at xs i = Ok b \<longleftrightarrow> i < length xs \<and> b = xs ! i"
  "slice ys a c = Ok zs \<longleftrightarrow> a \<le> c \<and> c \<le> length ys \<and> zs = take (c - a) (drop a ys)"
  "get_or xs i e = Ok b \<longleftrightarrow> i < length xs \<and> b = xs ! i"
  "demand d e' = Ok u \<longleftrightarrow> d" "demand_some x e'' = Ok y \<longleftrightarrow> x = Some y" "unwrap x = Ok y \<longleftrightarrow> x = Some y"
  by (auto simp: byte_at_def slice_def get_or_def demand_def demand_some_def unwrap_def split: option.splits)

text \<open>\<^verbatim>\<open>checked_add(n).filter(|end| *end <= limit).ok_or(e)?\<close> on \<^verbatim>\<open>usize\<close>.\<close>

definition bounded_add :: "nat \<Rightarrow> nat \<Rightarrow> nat \<Rightarrow> 'e \<Rightarrow> ('e, nat) parse" where
  "bounded_add a n limit e =
     (case checked_add 64 a n of None \<Rightarrow> refuse e | Some c \<Rightarrow> if c \<le> limit then Ok c else refuse e)"

lemma parses_bounded_add [parse_simps]:
  "parses (bounded_add a n limit e) Q \<longleftrightarrow> (a + n \<le> max_of 64 \<longrightarrow> a + n \<le> limit \<longrightarrow> Q (a + n))"
  by (auto simp: bounded_add_def parses_def checked_add_def)

section \<open>Texts and integers\<close>

definition le_of_nat :: "nat \<Rightarrow> nat \<Rightarrow> u8 list" where
  "le_of_nat n x = rev (be_of_nat n x)"

definition nat_of_le :: "u8 list \<Rightarrow> nat" where
  "nat_of_le bs = nat_of_be (rev bs)"

lemma length_le_of_nat [simp]: "length (le_of_nat n x) = n"
  by (simp add: le_of_nat_def)

lemma nat_of_le_of_nat: "x < 256 ^ n \<Longrightarrow> nat_of_le (le_of_nat n x) = x"
  by (simp add: nat_of_le_def le_of_nat_def nat_of_be_of_nat)

lemma nat_of_le_two: "nat_of_le [a, b] = unat a + 256 * unat b"
  by (simp add: nat_of_le_def)

definition ascii :: "string \<Rightarrow> u8 list" where
  "ascii s = map (\<lambda>c. word_of_nat (of_char c)) s"

text \<open>\<^verbatim>\<open>u16::from_be_bytes\<close> of two indexed bytes and \<^verbatim>\<open>u32::from_be_bytes\<close> of a slice.\<close>

definition be16 :: "u8 list \<Rightarrow> nat \<Rightarrow> ('e, nat) parse" where
  "be16 xs i = rbind (byte_at xs i) (\<lambda>a. rbind (byte_at xs (i + 1)) (\<lambda>b. Ok (nat_of_be [a, b])))"

definition be32 :: "u8 list \<Rightarrow> nat \<Rightarrow> ('e, nat) parse" where
  "be32 xs i = rbind (slice xs i (i + 4)) (\<lambda>s. Ok (nat_of_be s))"

lemma parses_be [parse_simps]:
  "parses (be16 xs i) Q \<longleftrightarrow> i + 1 < length xs \<and> Q (nat_of_be [xs ! i, xs ! (i + 1)])"
  "parses (be32 xs i) Q \<longleftrightarrow> i + 4 \<le> length xs \<and> Q (nat_of_be (take 4 (drop i xs)))"
  by (auto simp: be16_def be32_def parse_simps)

text \<open>\<^verbatim>\<open>copy_from_slice\<close> into a part of a buffer.\<close>

definition splice :: "u8 list \<Rightarrow> nat \<Rightarrow> u8 list \<Rightarrow> u8 list" where
  "splice xs i ys = take i xs @ ys @ drop (i + length ys) xs"

lemma length_splice [simp]: "i + length ys \<le> length xs \<Longrightarrow> length (splice xs i ys) = length xs"
  by (simp add: splice_def)

text \<open>Rust's \<^verbatim>\<open>to_string\<close> on an unsigned integer.\<close>

fun decimal :: "nat \<Rightarrow> u8 list" where
  "decimal n = (if n < 10 then [word_of_nat (48 + n)] else decimal (n div 10) @ [word_of_nat (48 + n mod 10)])"

declare decimal.simps [simp del]

definition printable :: "u8 \<Rightarrow> bool" where
  "printable b \<longleftrightarrow> 0x20 \<le> b \<and> b \<le> 0x7e"

lemma printable_digit: "d < 10 \<Longrightarrow> printable (word_of_nat (48 + d))"
  by (simp add: printable_def word_le_nat_alt unat_of_nat del: of_nat_add)

lemma decimal_printable: "list_all printable (decimal n)"
proof (induction n rule: decimal.induct)
  case (1 n)
  then show ?case
    by (cases "n < 10") (subst decimal.simps, simp add: printable_digit del: of_nat_add)+
qed

lemma decimal_length: "n < 10 ^ k \<Longrightarrow> 0 < k \<Longrightarrow> length (decimal n) \<le> k"
proof (induction n arbitrary: k rule: decimal.induct)
  case (1 n)
  show ?case
  proof (cases "n < 10")
    case True
    then show ?thesis using 1(3) by (subst decimal.simps) simp
  next
    case False
    then obtain j where k: "k = Suc j" "0 < j" using 1(2,3) by (cases k; cases "k - 1") auto
    then have "n div 10 < 10 ^ j" using 1(2) by (simp add: less_mult_imp_div_less mult.commute)
    from 1(1) [OF False this k(2)] show ?thesis using False k(1) by (subst decimal.simps) simp
  qed
qed

lemma decimal_nonempty [simp]: "decimal n \<noteq> []"
  by (subst decimal.simps) simp

text \<open>
  The consumer's \<^verbatim>\<open>TextDecoder\<close>: UTF-8, fatal on malformed input, a leading byte-order mark
  is dropped. A decoded text is represented by its UTF-8 bytes.
\<close>

definition continuation :: "u8 \<Rightarrow> bool" where
  "continuation b \<longleftrightarrow> 0x80 \<le> b \<and> b \<le> 0xBF"

fun utf8_valid :: "u8 list \<Rightarrow> bool" where
  "utf8_valid [] = True"
| "utf8_valid (b # bs) =
     (if b < 0x80 then utf8_valid bs
      else case bs of [] \<Rightarrow> False | c # cs \<Rightarrow>
        if 0xC2 \<le> b \<and> b \<le> 0xDF then continuation c \<and> utf8_valid cs
        else case cs of [] \<Rightarrow> False | d # ds \<Rightarrow>
          if 0xE0 \<le> b \<and> b \<le> 0xEF
          then continuation c \<and> (b = 0xE0 \<longrightarrow> 0xA0 \<le> c) \<and> (b = 0xED \<longrightarrow> c \<le> 0x9F) \<and> continuation d \<and> utf8_valid ds
          else case ds of [] \<Rightarrow> False | e # es \<Rightarrow>
            0xF0 \<le> b \<and> b \<le> 0xF4 \<and> continuation c \<and> (b = 0xF0 \<longrightarrow> 0x90 \<le> c) \<and> (b = 0xF4 \<longrightarrow> c \<le> 0x8F)
            \<and> continuation d \<and> continuation e \<and> utf8_valid es)"

definition text_decode :: "u8 list \<Rightarrow> u8 list option" where
  "text_decode bs =
     (if utf8_valid bs then Some (if take 3 bs = [0xEF, 0xBB, 0xBF] then drop 3 bs else bs) else None)"

definition plain_text :: "u8 list \<Rightarrow> bool" where
  "plain_text bs \<longleftrightarrow> list_all (\<lambda>b. b < 0x80) bs"

lemma printable_plain: "list_all printable bs \<Longrightarrow> plain_text bs"
proof -
  have "b < 0x80" if "printable b" for b :: u8
    using that by (auto simp: printable_def word_le_nat_alt word_less_nat_alt)
  then show "list_all printable bs \<Longrightarrow> plain_text bs" by (simp add: plain_text_def list_all_iff)
qed

lemma plain_decode: "plain_text bs \<Longrightarrow> text_decode bs = Some bs"
proof -
  assume p: "plain_text bs"
  then have "utf8_valid bs" unfolding plain_text_def by (induction bs) auto
  moreover have "take 3 bs \<noteq> [0xEF, 0xBB, 0xBF]" using p by (cases bs) (auto simp: plain_text_def)
  ultimately show ?thesis by (simp add: text_decode_def)
qed

end
