(* ===== verification/Service_Record.thy ===== *)
theory Service_Record
  imports Byte_Codec
begin

text \<open>
  The service metadata record that travels from the UDP codecs
  (\<^verbatim>\<open>encode_metadata\<close> and \<^verbatim>\<open>bounded_text\<close> in \<^verbatim>\<open>nodenet-protocols/src/udp_safe.rs\<close>) to the
  consumer (\<^verbatim>\<open>validateServiceMetadataRecord\<close> and \<^verbatim>\<open>decodeServiceMetadataRecord\<close> in
  \<^verbatim>\<open>packages/nodenetscanner/src/index.ts\<close>). A record that the encoder produces is decoded to
  what was encoded exactly when its extra fields have increasing, supported identifiers; the
  encoder itself does not check that.
\<close>

section \<open>Encoding\<close>

datatype UdpSafeCodecError =
    UnsupportedProbe | InvalidSourceAddress | MalformedResponse | WrongTransaction | MetadataTooLarge

type_synonym Text = "u8 list"
type_synonym 'a codec = "(UdpSafeCodecError, 'a) parse"

definition MAX_UDP_SERVICE_METADATA_BYTES :: nat where
  "MAX_UDP_SERVICE_METADATA_BYTES = 1024"

definition bounded_text :: "u8 list \<Rightarrow> Text option" where
  "bounded_text value =
     (if value = [] \<or> length value > 255 \<or> \<not> list_all printable value then None else Some value)"

text \<open>A length prefix and the bytes of a text.\<close>

definition encode_text :: "Text \<Rightarrow> u8 list codec" where
  "encode_text value =
     rbind (demand_some (try_from 16 (length value)) MetadataTooLarge) (\<lambda>n. Ok (le_of_nat 2 n @ value))"

fun encode_extras :: "(nat \<times> Text) list \<Rightarrow> u8 list codec" where
  "encode_extras [] = Ok []"
| "encode_extras ((i, value) # xs) =
     (if length value > 255 then refuse MetadataTooLarge
      else rbind (encode_text value) (\<lambda>v. rbind (encode_extras xs) (\<lambda>rest. Ok (le_of_nat 2 i @ v @ rest))))"

definition encode_metadata :: "Text \<Rightarrow> Text option \<Rightarrow> (nat \<times> Text) list \<Rightarrow> u8 list codec" where
  "encode_metadata product version extras =
     (let version = (case version of None \<Rightarrow> [] | Some v \<Rightarrow> v)
      in if length product > 255 \<or> length version > 255 \<or> length extras > 32 then refuse MetadataTooLarge
         else rbind (encode_text product) (\<lambda>p. rbind (encode_text version) (\<lambda>v.
           rbind (demand_some (try_from 8 (length extras)) MetadataTooLarge) (\<lambda>n.
           rbind (encode_extras extras) (\<lambda>xs.
             let output = [1] @ p @ v @ [word_of_nat n] @ xs
             in if length output > MAX_UDP_SERVICE_METADATA_BYTES then refuse MetadataTooLarge else Ok output)))))"

section \<open>Decoding\<close>

type_synonym 'a js = "(string, 'a) result"

definition MAX_SERVICE_METADATA_RECORD_BYTES :: nat where "MAX_SERVICE_METADATA_RECORD_BYTES = 1024"
definition MAX_SERVICE_METADATA_STRING_BYTES :: nat where "MAX_SERVICE_METADATA_STRING_BYTES = 255"
definition MAX_SERVICE_METADATA_EXTRAS :: nat where "MAX_SERVICE_METADATA_EXTRAS = 32"

definition SERVICE_METADATA_FIELD_IDS :: "nat list" where
  "SERVICE_METADATA_FIELD_IDS = [1, 2, 3, 4, 5, 6, 7, 8]"

lemmas record_bounds = MAX_UDP_SERVICE_METADATA_BYTES_def MAX_SERVICE_METADATA_RECORD_BYTES_def
  MAX_SERVICE_METADATA_STRING_BYTES_def MAX_SERVICE_METADATA_EXTRAS_def

definition js_byte :: "u8 list \<Rightarrow> nat \<Rightarrow> (nat \<times> nat) js" where
  "js_byte record cursor =
     (if cursor < length record then Ok (unat (record ! cursor), cursor + 1)
      else Err ''UDP service metadata record is truncated'')"

definition js_u16 :: "u8 list \<Rightarrow> nat \<Rightarrow> (nat \<times> nat) js" where
  "js_u16 record cursor =
     rbind (js_byte record cursor) (\<lambda>(lo, cursor). rbind (js_byte record cursor) (\<lambda>(hi, cursor).
       Ok (lo + 256 * hi, cursor)))"

definition js_string :: "u8 list \<Rightarrow> nat \<Rightarrow> nat js" where
  "js_string record cursor =
     rbind (js_u16 record cursor) (\<lambda>(n, cursor).
       if n > MAX_SERVICE_METADATA_STRING_BYTES then Err ''UDP service metadata string exceeds 255 bytes''
       else if cursor + n > length record then Err ''UDP service metadata string is truncated''
       else case text_decode (take n (drop cursor record)) of
           None \<Rightarrow> Err ''UDP service metadata is not valid UTF-8''
         | Some _ \<Rightarrow> Ok (cursor + n))"

fun validate_fields :: "u8 list \<Rightarrow> nat \<Rightarrow> nat \<Rightarrow> nat \<Rightarrow> nat js" where
  "validate_fields record 0 prior cursor = Ok cursor"
| "validate_fields record (Suc n) prior cursor =
     rbind (js_u16 record cursor) (\<lambda>(field, cursor).
       if field \<notin> set SERVICE_METADATA_FIELD_IDS then Err ''UDP service metadata field ID is unsupported''
       else if field \<le> prior then Err ''UDP service metadata fields are not unique and ordered''
       else rbind (js_string record cursor) (validate_fields record n field))"

definition validateServiceMetadataRecord :: "u8 list \<Rightarrow> unit js" where
  "validateServiceMetadataRecord record =
     (if length record > MAX_SERVICE_METADATA_RECORD_BYTES then Err ''UDP service metadata record exceeds 1 KiB''
      else rbind (js_byte record 0) (\<lambda>(version, cursor).
        if version \<noteq> 1 then Err ''UDP service metadata version is unsupported''
        else rbind (js_string record cursor) (\<lambda>cursor. rbind (js_string record cursor) (\<lambda>cursor.
          rbind (js_byte record cursor) (\<lambda>(extras, cursor).
            if extras > MAX_SERVICE_METADATA_EXTRAS then Err ''UDP service metadata has too many extra fields''
            else rbind (validate_fields record extras 0 cursor) (\<lambda>cursor.
              if cursor \<noteq> length record then Err ''UDP service metadata record has trailing bytes''
              else Ok ()))))))"

record UdpServiceMetadata =
  md_product :: Text
  md_version :: "Text option"
  md_fields :: "(nat \<times> Text) list"

text \<open>\<^verbatim>\<open>record[cursor] ?? 0\<close>, and the second pass that builds the object.\<close>

definition byte_or_zero :: "u8 list \<Rightarrow> nat \<Rightarrow> nat" where
  "byte_or_zero record i = (if i < length record then unat (record ! i) else 0)"

definition decode_string :: "u8 list \<Rightarrow> nat \<Rightarrow> (Text \<times> nat) js" where
  "decode_string record cursor =
     (let n = byte_or_zero record cursor + 256 * byte_or_zero record (cursor + 1); cursor = cursor + 2
      in case text_decode (take n (drop cursor record)) of
           None \<Rightarrow> Err ''The encoded data was not valid for encoding utf-8''
         | Some t \<Rightarrow> Ok (t, cursor + n))"

fun decode_fields :: "u8 list \<Rightarrow> nat \<Rightarrow> nat \<Rightarrow> (nat \<times> Text) list js" where
  "decode_fields record 0 cursor = Ok []"
| "decode_fields record (Suc n) cursor =
     (let i = byte_or_zero record cursor + 256 * byte_or_zero record (cursor + 1)
      in rbind (decode_string record (cursor + 2)) (\<lambda>(value, cursor).
           rbind (decode_fields record n cursor) (\<lambda>fields. Ok ((i, value) # fields))))"

definition decodeServiceMetadataRecord :: "u8 list \<Rightarrow> UdpServiceMetadata js" where
  "decodeServiceMetadataRecord record =
     rbind (validateServiceMetadataRecord record) (\<lambda>_.
     rbind (decode_string record 1) (\<lambda>(product, cursor).
     rbind (decode_string record cursor) (\<lambda>(version, cursor).
     rbind (decode_fields record (byte_or_zero record cursor) (cursor + 1)) (\<lambda>fields.
       Ok \<lparr>md_product = product, md_version = (if version = [] then None else Some version), md_fields = fields\<rparr>))))"

section \<open>Reading what was written\<close>

text \<open>The bytes a text and a field occupy, and the order the consumer expects of the fields.\<close>

definition text_bytes :: "Text \<Rightarrow> u8 list" where
  "text_bytes v = le_of_nat 2 (length v) @ v"

definition field_bytes :: "nat \<times> Text \<Rightarrow> u8 list" where
  "field_bytes f = le_of_nat 2 (fst f) @ text_bytes (snd f)"

definition record_bytes :: "Text \<Rightarrow> Text \<Rightarrow> (nat \<times> Text) list \<Rightarrow> u8 list" where
  "record_bytes p v xs = 1 # text_bytes p @ text_bytes v @ word_of_nat (length xs) # concat (map field_bytes xs)"

fun fields_ordered :: "nat \<Rightarrow> nat list \<Rightarrow> bool" where
  "fields_ordered prior [] = True"
| "fields_ordered prior (i # is) \<longleftrightarrow> prior < i \<and> i \<le> 8 \<and> fields_ordered i is"

definition readable :: "Text \<Rightarrow> bool" where
  "readable v \<longleftrightarrow> length v \<le> 255 \<and> text_decode v = Some v"

definition small_id :: "nat \<times> Text \<Rightarrow> bool" where
  "small_id f \<longleftrightarrow> fst f < 65536 \<and> readable (snd f)"

lemma field_ids: "i \<in> set SERVICE_METADATA_FIELD_IDS \<longleftrightarrow> 0 < i \<and> i \<le> 8"
  by (auto simp: SERVICE_METADATA_FIELD_IDS_def)

lemma drop_ConsD:
  assumes "drop c r = b # bs"
  shows "c < length r" "r ! c = b" "drop (Suc c) r = bs"
proof -
  show c: "c < length r" using assms by (metis drop_all list.distinct(1) not_le)
  then show "r ! c = b" "drop (Suc c) r = bs" using assms by (simp_all flip: Cons_nth_drop_Suc)
qed

lemma drop_appendD:
  assumes "drop c r = xs @ ys"
  shows "take (length xs) (drop c r) = xs" "drop (c + length xs) r = ys" "xs \<noteq> [] \<Longrightarrow> c + length xs \<le> length r"
proof -
  show "take (length xs) (drop c r) = xs" using assms by simp
  show "drop (c + length xs) r = ys" using arg_cong [OF assms, of "drop (length xs)"] by (simp add: add.commute)
  assume "xs \<noteq> []"
  then show "c + length xs \<le> length r" using arg_cong [OF assms, of length] by (cases "c \<le> length r") auto
qed

lemma two_bytes:
  assumes "n < 65536"
  obtains lo hi where "le_of_nat 2 n = [lo, hi]" "unat lo + 256 * unat hi = n"
proof -
  let ?lo = "word_of_nat (n mod 256) :: u8" and ?hi = "word_of_nat (n div 256) :: u8"
  have "le_of_nat 2 n = [?lo, ?hi]" by (simp add: le_of_nat_def numeral_2_eq_2)
  moreover have "unat ?lo = n mod 256" "unat ?hi = n div 256" using assms by (simp_all add: unat_of_nat)
  ultimately show ?thesis using that [of ?lo ?hi] by simp
qed

lemma read_u16:
  assumes "drop c r = le_of_nat 2 n @ ys" and "n < 65536"
  shows "js_u16 r c = Ok (n, c + 2)" "byte_or_zero r c + 256 * byte_or_zero r (c + 1) = n" "drop (c + 2) r = ys"
proof -
  obtain lo hi where n: "le_of_nat 2 n = [lo, hi]" "unat lo + 256 * unat hi = n" using two_bytes [OF assms(2)] .
  have c: "drop c r = lo # hi # ys" using assms(1) n(1) by simp
  note lo = drop_ConsD [OF c] and hi = drop_ConsD [OF drop_ConsD(3) [OF c]]
  show "js_u16 r c = Ok (n, c + 2)" "byte_or_zero r c + 256 * byte_or_zero r (c + 1) = n" "drop (c + 2) r = ys"
    using lo hi n(2) by (simp_all add: js_u16_def js_byte_def byte_or_zero_def)
qed

lemma read_text:
  assumes "drop c r = text_bytes v @ ys" and "readable v"
  shows "js_string r c = Ok (c + 2 + length v)" "decode_string r c = Ok (v, c + 2 + length v)"
    "drop (c + 2 + length v) r = ys"
proof -
  have len: "length v < 65536" using assms(2) by (simp add: readable_def)
  have c: "drop c r = le_of_nat 2 (length v) @ v @ ys" using assms(1) by (simp add: text_bytes_def)
  note u = read_u16 [OF c len]
  note d = drop_appendD [OF u(3)]
  have room: "c + 2 + length v \<le> length r"
    using drop_appendD(3) [of c r "le_of_nat 2 (length v) @ v" ys] c
    by (metis append.assoc append_is_Nil_conv length_append length_le_of_nat list.size(3) add.assoc zero_neq_numeral)
  show "js_string r c = Ok (c + 2 + length v)"
    using u(1) d(1) room assms(2) by (simp add: js_string_def readable_def record_bounds)
  show "decode_string r c = Ok (v, c + 2 + length v)"
    using u(2) d(1) assms(2) by (simp add: decode_string_def readable_def Let_def)
  show "drop (c + 2 + length v) r = ys" using d(2) .
qed

lemma read_field:
  assumes "drop c r = concat (map field_bytes ((i, v) # fs))" and "list_all small_id ((i, v) # fs)"
  shows "js_u16 r c = Ok (i, c + 2)" "js_string r (c + 2) = Ok (c + 4 + length v)"
    "decode_string r (c + 2) = Ok (v, c + 4 + length v)" "byte_or_zero r c + 256 * byte_or_zero r (c + 1) = i"
    "drop (c + 4 + length v) r = concat (map field_bytes fs)" "list_all small_id fs" "c + 4 + length v \<le> length r"
proof -
  have iv: "i < 65536" "readable v" using assms(2) by (simp_all add: small_id_def)
  have d: "drop c r = le_of_nat 2 i @ text_bytes v @ concat (map field_bytes fs)"
    using assms(1) by (simp add: field_bytes_def)
  note u = read_u16 [OF d iv(1)]
  have four: "c + 2 + 2 + length v = c + 4 + length v" by simp
  note t = read_text [OF u(3) iv(2), unfolded four]
  show "js_u16 r c = Ok (i, c + 2)" "byte_or_zero r c + 256 * byte_or_zero r (c + 1) = i" using u by simp_all
  show "js_string r (c + 2) = Ok (c + 4 + length v)" "decode_string r (c + 2) = Ok (v, c + 4 + length v)"
    "drop (c + 4 + length v) r = concat (map field_bytes fs)"
    by (rule t)+
  show "list_all small_id fs" using assms(2) by simp
  have n: "length (field_bytes (i, v)) = 4 + length v" by (simp add: field_bytes_def text_bytes_def)
  then have "field_bytes (i, v) \<noteq> []" by auto
  then show "c + 4 + length v \<le> length r"
    using drop_appendD(3) [of c r "field_bytes (i, v)" "concat (map field_bytes fs)"] assms(1) n by simp
qed

lemma read_fields:
  assumes "drop c r = concat (map field_bytes xs)" and "list_all small_id xs" and "c \<le> length r"
  shows "(fields_ordered prior (map fst xs) \<longrightarrow> validate_fields r (length xs) prior c = Ok (length r)) \<and>
    (\<not> fields_ordered prior (map fst xs) \<longrightarrow> (\<exists>e. validate_fields r (length xs) prior c = Err e)) \<and>
    decode_fields r (length xs) c = Ok xs"
  using assms
proof (induction xs arbitrary: prior c)
  case Nil
  then show ?case by simp
next
  case (Cons f fs)
  obtain i v where f: "f = (i, v)" by (cases f)
  note st = read_field [OF Cons.prems(1,2) [unfolded f]]
  show ?case using Cons.IH [OF st(5-7)] st(1-4) by (auto simp: f field_ids Let_def)
qed

lemma validate_record:
  assumes "readable p" and "readable v" and "list_all small_id xs" and "length xs \<le> 32"
    and "length (record_bytes p v xs) \<le> 1024"
  shows "validateServiceMetadataRecord (record_bytes p v xs) = Ok () \<longleftrightarrow> fields_ordered 0 (map fst xs)"
    and "fields_ordered 0 (map fst xs) \<Longrightarrow> decodeServiceMetadataRecord (record_bytes p v xs) =
      Ok \<lparr>md_product = p, md_version = (if v = [] then None else Some v), md_fields = xs\<rparr>"
proof -
  define r where "r = record_bytes p v xs"
  have head: "js_byte r 0 = Ok (1, 1)" by (simp add: r_def record_bytes_def js_byte_def)
  have "drop 1 r = text_bytes p @ text_bytes v @ word_of_nat (length xs) # concat (map field_bytes xs)"
    by (simp add: r_def record_bytes_def)
  note pt = read_text [OF this assms(1)]
  note vt = read_text [OF pt(3) assms(2)]
  define c where "c = 1 + 2 + length p + 2 + length v"
  note vt = vt [folded c_def]
  note rest = vt(3)
  note d = drop_ConsD [OF rest]
  have n: "unat (word_of_nat (length xs) :: u8) = length xs" using assms(4) by (simp add: unat_of_nat)
  have cnt: "js_byte r c = Ok (length xs, c + 1)" "byte_or_zero r c = length xs"
    using d n by (simp_all add: js_byte_def byte_or_zero_def)
  have fields: "drop (c + 1) r = concat (map field_bytes xs)" "c + 1 \<le> length r" using d by simp_all
  note f = read_fields [OF fields(1) assms(3) fields(2), of 0]
  have val: "validateServiceMetadataRecord r = rbind (validate_fields r (length xs) 0 (c + 1)) (\<lambda>cursor.
      if cursor \<noteq> length r then Err ''UDP service metadata record has trailing bytes'' else Ok ())"
    using assms(4,5) head pt(1) vt(1) cnt(1)
    by (simp add: validateServiceMetadataRecord_def r_def [symmetric] record_bounds)
  show "validateServiceMetadataRecord (record_bytes p v xs) = Ok () \<longleftrightarrow> fields_ordered 0 (map fst xs)"
    using f by (cases "fields_ordered 0 (map fst xs)") (auto simp: val simp flip: r_def)
  show "decodeServiceMetadataRecord (record_bytes p v xs) =
      Ok \<lparr>md_product = p, md_version = (if v = [] then None else Some v), md_fields = xs\<rparr>"
    if "fields_ordered 0 (map fst xs)"
    using f that pt(2) vt(2) cnt(2)
    by (simp add: decodeServiceMetadataRecord_def val flip: r_def)
qed

lemma encode_extras_bytes:
  "encode_extras xs = Ok bs \<Longrightarrow> bs = concat (map field_bytes xs) \<and> list_all (\<lambda>f. length (snd f) \<le> 255) xs"
proof (induction xs arbitrary: bs)
  case (Cons f fs)
  then show ?case by (cases f) (auto simp: encode_text_def result_simps field_bytes_def text_bytes_def split: if_splits)
qed simp

lemma encode_metadata_bytes:
  assumes "encode_metadata p v xs = Ok r"
  shows "r = record_bytes p (case v of None \<Rightarrow> [] | Some t \<Rightarrow> t) xs" "length r \<le> 1024" "length xs \<le> 32"
    "length p \<le> 255" "length (case v of None \<Rightarrow> [] | Some t \<Rightarrow> t) \<le> 255" "list_all (\<lambda>f. length (snd f) \<le> 255) xs"
  using assms encode_extras_bytes [of xs]
  by (auto simp: encode_metadata_def encode_text_def result_simps record_bytes_def text_bytes_def record_bounds Let_def
      split: if_splits)

text \<open>A text the consumer reads back unchanged; every text of the codecs is of this kind.\<close>

lemma printable_readable: "list_all printable t \<Longrightarrow> length t \<le> 255 \<Longrightarrow> readable t"
  by (simp add: readable_def plain_decode printable_plain)

lemma bounded_text_readable: "bounded_text bs = Some t \<Longrightarrow> readable t"
  by (auto simp: bounded_text_def printable_readable split: if_splits)

definition round_trips :: "Text \<Rightarrow> bool" where
  "round_trips t \<longleftrightarrow> text_decode t = Some t"

lemma record_of_encoding:
  assumes "encode_metadata p v xs = Ok r" and "round_trips p" and "\<And>t. v = Some t \<Longrightarrow> round_trips t"
    and "list_all (\<lambda>f. fst f < 65536 \<and> round_trips (snd f)) xs"
  shows "validateServiceMetadataRecord r = Ok () \<longleftrightarrow> fields_ordered 0 (map fst xs)"
    and "fields_ordered 0 (map fst xs) \<Longrightarrow> decodeServiceMetadataRecord r =
      Ok \<lparr>md_product = p, md_version = (if v = Some [] then None else v), md_fields = xs\<rparr>"
proof -
  let ?v = "case v of None \<Rightarrow> [] | Some t \<Rightarrow> t"
  note e = encode_metadata_bytes [OF assms(1)]
  have p: "readable p" using e(4) assms(2) by (simp add: readable_def round_trips_def)
  have "text_decode [] = Some []" by (simp add: text_decode_def)
  then have v: "readable ?v" using e(5) assms(3) by (auto simp: readable_def round_trips_def split: option.splits)
  have xs: "list_all small_id xs"
    using e(6) assms(4) by (simp add: list_all_iff small_id_def readable_def round_trips_def)
  note rec = validate_record [OF p v xs e(3) e(2) [unfolded e(1)]]
  show "validateServiceMetadataRecord r = Ok () \<longleftrightarrow> fields_ordered 0 (map fst xs)" using rec(1) e(1) by simp
  show "decodeServiceMetadataRecord r = Ok \<lparr>md_product = p, md_version = (if v = Some [] then None else v), md_fields = xs\<rparr>"
    if "fields_ordered 0 (map fst xs)"
    using rec(2) [OF that] e(1) by (auto split: option.splits)
qed

section \<open>Claims\<close>

text \<open>
  C11. The service record survives the language boundary: what the Rust encoder writes, the
  consumer decodes to the same product, version and fields, provided the extra fields carry
  supported identifiers in increasing order; any other order of identifiers makes the
  consumer refuse the record, although the encoder accepts it.
\<close>

theorem service_record_roundtrip:
  assumes "encode_metadata p v xs = Ok r" and "round_trips p" and "v \<noteq> None \<longrightarrow> round_trips (the v)"
    and "list_all (\<lambda>f. fst f < 65536 \<and> round_trips (snd f)) xs"
  shows "(fields_ordered 0 (map fst xs) \<longrightarrow> decodeServiceMetadataRecord r =
      Ok \<lparr>md_product = p, md_version = (if v = Some [] then None else v), md_fields = xs\<rparr>) \<and>
    (\<not> fields_ordered 0 (map fst xs) \<longrightarrow> (\<exists>e. decodeServiceMetadataRecord r = Err e))"
proof -
  have v: "\<And>t. v = Some t \<Longrightarrow> round_trips t" using assms(3) by auto
  note rec = record_of_encoding [OF assms(1,2) v assms(4)]
  have "\<exists>e. decodeServiceMetadataRecord r = Err e" if "\<not> fields_ordered 0 (map fst xs)"
    using rec(1) that by (cases "validateServiceMetadataRecord r") (auto simp: decodeServiceMetadataRecord_def)
  then show ?thesis using rec(2) by blast
qed

theorem service_record_roundtrip_witness:
  "decodeServiceMetadataRecord (projr (encode_metadata [0x4E, 0x54, 0x50] (Some [0x76, 0x34]) [(2, [0x31])])) =
   Ok \<lparr>md_product = [0x4E, 0x54, 0x50], md_version = Some [0x76, 0x34], md_fields = [(2, [0x31])]\<rparr>"
proof -
  have "encode_metadata [0x4E, 0x54, 0x50] (Some [0x76, 0x34]) [(2, [0x31])]
      = Ok (projr (encode_metadata [0x4E, 0x54, 0x50] (Some [0x76, 0x34]) [(2, [0x31])]))"
    by (simp add: encode_metadata_def encode_text_def demand_some_def try_from_def max_of_def record_bounds Let_def)
  from service_record_roundtrip [OF this] show ?thesis by (simp add: round_trips_def text_decode_def)
qed

end
