(* ===== verification/Udp_Safe.thy ===== *)
theory Udp_Safe
  imports Service_Record
begin

text \<open>
  The safe-profile UDP codecs (\<^verbatim>\<open>nodenet-protocols/src/udp_safe.rs\<close>): the request of each probe
  and the strict parser of its response. Responses are hostile bytes; every access of a
  parser is one that could panic.
\<close>

section \<open>Probes\<close>

datatype UdpSafeProbe = Dns | Ntp | SnmpV3 | Rpcbind | Stun | Coap | AsfRmcp | Memcached | Pcp

fun service_family :: "UdpSafeProbe \<Rightarrow> nat" where
  "service_family Dns = 1"
| "service_family Ntp = 2"
| "service_family SnmpV3 = 3"
| "service_family Rpcbind = 4"
| "service_family Stun = 5"
| "service_family Coap = 6"
| "service_family AsfRmcp = 7"
| "service_family Memcached = 8"
| "service_family Pcp = 9"

definition from_id :: "nat \<Rightarrow> UdpSafeProbe option" where
  "from_id i =
     (if i = 1 then Some Dns else if i = 2 then Some Ntp else if i = 3 then Some SnmpV3 else if i = 4 then Some Rpcbind
      else if i = 5 then Some Stun else if i = 6 then Some Coap else if i = 7 then Some AsfRmcp
      else if i = 8 then Some Memcached else if i = 9 then Some Pcp else None)"

fun probe_port :: "UdpSafeProbe \<Rightarrow> nat" where
  "probe_port Dns = 53"
| "probe_port Ntp = 123"
| "probe_port SnmpV3 = 161"
| "probe_port Rpcbind = 111"
| "probe_port Stun = 3478"
| "probe_port Coap = 5683"
| "probe_port AsfRmcp = 623"
| "probe_port Memcached = 11211"
| "probe_port Pcp = 5351"

record UdpSafeMatch =
  match_family :: nat
  match_confidence :: nat
  match_metadata :: "u8 list"

fun product_name :: "UdpSafeProbe \<Rightarrow> Text" where
  "product_name Dns = ascii ''DNS''"
| "product_name Ntp = ascii ''NTP''"
| "product_name SnmpV3 = ascii ''SNMPv3''"
| "product_name Rpcbind = ascii ''ONC RPC rpcbind''"
| "product_name Stun = ascii ''STUN''"
| "product_name Coap = ascii ''CoAP''"
| "product_name AsfRmcp = ascii ''ASF RMCP''"
| "product_name Memcached = ascii ''memcached''"
| "product_name Pcp = ascii ''PCP''"

section \<open>Requests\<close>

text \<open>A token is an array of sixteen bytes; \<open>part\<close> is a slice of it within range.\<close>

definition part :: "u8 list \<Rightarrow> nat \<Rightarrow> nat \<Rightarrow> u8 list" where
  "part xs a b = take (b - a) (drop a xs)"

definition build_dns :: "u8 list \<Rightarrow> u8 list" where
  "build_dns token =
     splice (splice (splice (splice (splice (splice (replicate 128 0) 0 (part token 0 2)) 4 (be_of_nat 2 1))
       10 (be_of_nat 2 1)) 12 [0, 0, 1, 0, 1]) 17 [0, 0, 41, 2, 0, 0, 0, 0, 0, 0, 100]) 28 [0, 12, 0, 96]"

definition build_ntp :: "u8 list \<Rightarrow> u8 list" where
  "build_ntp token = splice ((replicate 48 0)[0 := 0x23]) 40 (part token 0 8)"

definition build_rpcbind :: "u8 list \<Rightarrow> u8 list" where
  "build_rpcbind token = part token 0 4 @ concat (map (be_of_nat 4) [0, 2, 100000, 2, 0, 0, 0, 0, 0])"

definition build_stun :: "u8 list \<Rightarrow> u8 list" where
  "build_stun token =
     splice (splice (splice (replicate 20 0) 0 (be_of_nat 2 1)) 4 (be_of_nat 4 0x2112a442)) 8 (part token 0 12)"

definition build_asf :: "u8 list \<Rightarrow> u8 list" where
  "build_asf token = [0x06, 0x00, 0xff, 0x06, 0x00, 0x00, 0x11, 0xbe, 0x80, token ! 0, 0x00, 0x00]"

definition build_memcached :: "u8 list \<Rightarrow> u8 list" where
  "build_memcached token = [token ! 0, token ! 1, 0, 0, 0, 1, 0, 0] @ ascii ''version'' @ [13, 10]"

definition build_pcp :: "IpAddress \<Rightarrow> u8 list" where
  "build_pcp source =
     (let value = (replicate 24 0)[0 := 2, 1 := 0]
      in case source of
           V4 os \<Rightarrow> splice (splice (splice value 8 (replicate 10 0)) 18 [0xff, 0xff]) 20 os
         | V6 os \<Rightarrow> splice value 8 os)"

definition ber_integer :: "nat \<Rightarrow> u8 list" where
  "ber_integer value =
     (let bytes = be_of_nat 4 value;
          s = (case dropWhile (\<lambda>b. b = 0) bytes of [] \<Rightarrow> drop 3 bytes | c # cs \<Rightarrow> c # cs);
          high = (hd s AND 0x80 \<noteq> 0)
      in [0x02, word_of_nat (length s + (if high then 1 else 0))] @ (if high then [0] else []) @ s)"

definition ber_tagged :: "u8 \<Rightarrow> u8 list list \<Rightarrow> u8 list codec" where
  "ber_tagged tag parts =
     rbind (unwrap (try_from 8 (sum_list (map length parts)))) (\<lambda>n. Ok ([tag, word_of_nat n] @ concat parts))"

definition ber_octets :: "u8 list \<Rightarrow> u8 list codec" where
  "ber_octets value = rbind (unwrap (try_from 8 (length value))) (\<lambda>n. Ok ([0x04, word_of_nat n] @ value))"

definition token_id :: "u8 list \<Rightarrow> nat \<Rightarrow> nat" where
  "token_id token i = unat ((word_of_nat (nat_of_be (part token i (i + 4))) :: u32) AND 0x7fffffff)"

definition build_snmpv3 :: "u8 list \<Rightarrow> u8 list codec" where
  "build_snmpv3 token =
     rbind (ber_tagged 0x30 [ber_integer (token_id token 0), [0x02, 0x03, 0x00, 0xff, 0xe3], [0x04, 0x01, 0x04],
       [0x02, 0x01, 0x03]]) (\<lambda>header.
     rbind (ber_tagged 0x30 [[0x04, 0x00], [0x02, 0x01, 0], [0x02, 0x01, 0], [0x04, 0x00], [0x04, 0x00],
       [0x04, 0x00]]) (\<lambda>security.
     rbind (ber_tagged 0xa0 [ber_integer (token_id token 4), [0x02, 0x01, 0], [0x02, 0x01, 0], [0x30, 0x00]]) (\<lambda>pdu.
     rbind (ber_tagged 0x30 [[0x04, 0x00], [0x04, 0x00], pdu]) (\<lambda>scoped.
     rbind (ber_octets security) (\<lambda>octets.
       ber_tagged 0x30 [[0x02, 0x01, 0x03], header, octets, scoped])))))"

definition build_udp_safe_request :: "UdpSafeProbe \<Rightarrow> u8 list \<Rightarrow> IpAddress \<Rightarrow> u8 list codec" where
  "build_udp_safe_request probe token source =
     (case probe of
        Dns \<Rightarrow> Ok (build_dns token)
      | Ntp \<Rightarrow> Ok (build_ntp token)
      | SnmpV3 \<Rightarrow> build_snmpv3 token
      | Rpcbind \<Rightarrow> Ok (build_rpcbind token)
      | Stun \<Rightarrow> Ok (build_stun token)
      | Coap \<Rightarrow> Ok [0x40, 0x00, token ! 0, token ! 1]
      | AsfRmcp \<Rightarrow> Ok (build_asf token)
      | Memcached \<Rightarrow> Ok (build_memcached token)
      | Pcp \<Rightarrow> Ok (build_pcp source))"

section \<open>Responses\<close>

type_synonym Parsed = "nat \<times> Text option \<times> (nat \<times> Text) list"

text \<open>The end of a domain name: at most 128 labels, or a compression pointer into the message.\<close>

fun dns_name_end :: "nat \<Rightarrow> u8 list \<Rightarrow> nat \<Rightarrow> nat codec" where
  "dns_name_end 0 value cursor = refuse MalformedResponse"
| "dns_name_end (Suc n) value cursor =
     rbind (get_or value cursor MalformedResponse) (\<lambda>len.
       let cursor = cursor + 1
       in if len = 0 then Ok cursor
          else if len AND 0xc0 = 0xc0 then
            rbind (get_or value cursor MalformedResponse) (\<lambda>second.
              if nat_of_be [len AND 0x3f, second] \<ge> length value then refuse MalformedResponse else Ok (cursor + 1))
          else if len > 63 then refuse MalformedResponse
          else rbind (bounded_add cursor (unat len) (length value) MalformedResponse) (dns_name_end n value))"

fun dns_questions :: "nat \<Rightarrow> u8 list \<Rightarrow> nat \<Rightarrow> nat codec" where
  "dns_questions 0 value cursor = Ok cursor"
| "dns_questions (Suc n) value cursor =
     rbind (dns_name_end 128 value cursor) (\<lambda>cursor.
     rbind (bounded_add cursor 4 (length value) MalformedResponse) (dns_questions n value))"

fun dns_records :: "nat \<Rightarrow> u8 list \<Rightarrow> nat \<Rightarrow> nat codec" where
  "dns_records 0 value cursor = Ok cursor"
| "dns_records (Suc n) value cursor =
     rbind (dns_name_end 128 value cursor) (\<lambda>cursor.
     rbind (bounded_add cursor 10 (length value) MalformedResponse) (\<lambda>header_end.
     rbind (byte_at value (header_end - 2)) (\<lambda>a. rbind (byte_at value (header_end - 1)) (\<lambda>b.
     rbind (bounded_add header_end (nat_of_be [a, b]) (length value) MalformedResponse) (dns_records n value)))))"

definition validate_dns_message :: "u8 list \<Rightarrow> unit codec" where
  "validate_dns_message value =
     rbind (be16 value 4) (\<lambda>c0. rbind (be16 value 6) (\<lambda>c1. rbind (be16 value 8) (\<lambda>c2. rbind (be16 value 10) (\<lambda>c3.
     rbind (dns_questions c0 value 12) (\<lambda>cursor.
       let records = saturating_add 64 (saturating_add 64 c1 c2) c3
       in if records > length value div 11 then refuse MalformedResponse
          else rbind (dns_records records value cursor) (\<lambda>cursor.
            if cursor \<noteq> length value then refuse MalformedResponse else Ok ()))))))"

definition parse_dns :: "u8 list \<Rightarrow> u8 list \<Rightarrow> Parsed codec" where
  "parse_dns request response =
     (if length response < 12 \<or> length response > 512 \<or> length request < 2 then refuse MalformedResponse
      else rbind (slice response 0 2) (\<lambda>a. rbind (slice request 0 2) (\<lambda>b.
        if a \<noteq> b then refuse WrongTransaction
        else rbind (byte_at response 2) (\<lambda>flags.
          if flags AND 0x80 = 0 \<or> flags AND 0x78 \<noteq> 0 then refuse MalformedResponse
          else rbind (be16 response 4) (\<lambda>questions.
            if questions > 1 then refuse MalformedResponse
            else rbind (validate_dns_message response) (\<lambda>_. rbind (byte_at response 3) (\<lambda>rcode.
              Ok (3, None, [(1, decimal (unat (rcode AND 0x0f)))]))))))))"

definition parse_ntp :: "u8 list \<Rightarrow> u8 list \<Rightarrow> Parsed codec" where
  "parse_ntp request response =
     (if length request \<noteq> 48 \<or> length response < 48 then refuse MalformedResponse
      else rbind (byte_at response 0) (\<lambda>b.
        let version = drop_bit 3 b AND 7
        in if b AND 7 \<noteq> 4 \<or> version = 0 then refuse MalformedResponse
           else rbind (slice response 24 32) (\<lambda>o'. rbind (slice request 40 48) (\<lambda>t.
             if o' \<noteq> t then refuse WrongTransaction
             else rbind (byte_at response 1) (\<lambda>stratum.
               Ok (3, Some (ascii ''v'' @ decimal (unat version)), [(2, decimal (unat stratum))]))))))"

definition align4 :: "nat \<Rightarrow> nat" where
  "align4 n = (n + 3) div 4 * 4"

definition parse_rpcbind :: "u8 list \<Rightarrow> u8 list \<Rightarrow> Parsed codec" where
  "parse_rpcbind request response =
     (if length request < 4 \<or> length response < 24 then refuse MalformedResponse
      else rbind (slice response 0 4) (\<lambda>a. rbind (slice request 0 4) (\<lambda>b.
        if a \<noteq> b then refuse WrongTransaction
        else rbind (be32 response 4) (\<lambda>reply. rbind (be32 response 8) (\<lambda>denied.
          if reply \<noteq> 1 \<or> denied \<noteq> 0 then refuse MalformedResponse
          else rbind (be32 response 16) (\<lambda>verifier_length.
            rbind (demand_some (checked_add 64 20 (align4 verifier_length)) MalformedResponse) (\<lambda>accept_offset.
              if checked_add 64 accept_offset 4 \<noteq> Some (length response) then refuse MalformedResponse
              else rbind (be32 response accept_offset) (\<lambda>status.
                if status \<noteq> 0 then refuse MalformedResponse else Ok (3, Some (ascii ''v2''), [])))))))))"

lemma align4_ge: "n \<le> align4 n"
  unfolding align4_def by linarith

function stun_attributes :: "u8 list \<Rightarrow> nat \<Rightarrow> Text option \<Rightarrow> Text option codec" where
  "stun_attributes response cursor software =
     (if cursor < length response then
        if cursor + 4 > length response then refuse MalformedResponse
        else rbind (be16 response cursor) (\<lambda>kind. rbind (be16 response (cursor + 2)) (\<lambda>size.
          rbind (demand_some (checked_add 64 (cursor + 4) size) MalformedResponse) (\<lambda>finish.
            if finish > length response then refuse MalformedResponse
            else rbind (if kind = 0x8022 then rbind (slice response (cursor + 4) finish) (\<lambda>s. Ok (bounded_text s))
                        else Ok software) (\<lambda>software.
              if align4 finish > length response then refuse MalformedResponse
              else stun_attributes response (align4 finish) software))))
      else Ok software)"
  by auto
termination
proof (relation "measure (\<lambda>(response, cursor, _). length response - cursor)", goal_cases)
  case (2 response cursor software kind size finish)
  then show ?case using align4_ge [of finish] by (auto simp: result_simps)
qed simp

declare stun_attributes.simps [simp del]

definition parse_stun :: "u8 list \<Rightarrow> u8 list \<Rightarrow> Parsed codec" where
  "parse_stun request response =
     (if length request \<noteq> 20 \<or> length response < 20 then refuse MalformedResponse
      else rbind (byte_at response 0) (\<lambda>b. if b AND 0xc0 \<noteq> 0 then refuse MalformedResponse
      else rbind (be16 response 2) (\<lambda>len.
        if len mod 4 \<noteq> 0 \<or> length response \<noteq> 20 + len then refuse MalformedResponse
        else rbind (slice response 4 8) (\<lambda>c. rbind (slice request 4 8) (\<lambda>d.
          if c \<noteq> d then refuse MalformedResponse
          else rbind (slice response 8 20) (\<lambda>t. rbind (slice request 8 20) (\<lambda>u.
            if t \<noteq> u then refuse WrongTransaction
            else rbind (be16 response 0) (\<lambda>message_type.
              if message_type \<notin> {0x0101, 0x0111} then refuse MalformedResponse
              else rbind (stun_attributes response 20 None) (\<lambda>software. Ok (3, software, []))))))))))"

definition parse_coap :: "u8 list \<Rightarrow> u8 list \<Rightarrow> Parsed codec" where
  "parse_coap request response =
     (if length request \<noteq> 4 \<or> length response \<noteq> 4 then refuse MalformedResponse
      else rbind (byte_at response 0) (\<lambda>a. rbind (byte_at response 1) (\<lambda>b.
        if a \<noteq> 0x70 \<or> b \<noteq> 0 then refuse MalformedResponse
        else rbind (slice response 2 4) (\<lambda>t. rbind (slice request 2 4) (\<lambda>u.
          if t \<noteq> u then refuse WrongTransaction else Ok (3, None, []))))))"

definition parse_asf :: "u8 list \<Rightarrow> u8 list \<Rightarrow> Parsed codec" where
  "parse_asf request response =
     (if length request \<noteq> 12 \<or> length response < 12 then refuse MalformedResponse
      else rbind (slice response 0 8) (\<lambda>h.
        if h \<noteq> [6, 0, 0xff, 6, 0, 0, 0x11, 0xbe] then refuse MalformedResponse
        else rbind (byte_at response 9) (\<lambda>t. rbind (byte_at request 9) (\<lambda>u.
          if t \<noteq> u then refuse WrongTransaction
          else rbind (byte_at response 8) (\<lambda>k. rbind (byte_at response 11) (\<lambda>n.
            if k \<noteq> 0x40 \<or> length response \<noteq> 12 + unat n then refuse MalformedResponse else Ok (3, None, [])))))))"

definition starts_with :: "u8 list \<Rightarrow> u8 list \<Rightarrow> bool" where
  "starts_with xs p \<longleftrightarrow> take (length p) xs = p"

definition ends_with :: "u8 list \<Rightarrow> u8 list \<Rightarrow> bool" where
  "ends_with xs p \<longleftrightarrow> length p \<le> length xs \<and> drop (length xs - length p) xs = p"

definition parse_memcached :: "u8 list \<Rightarrow> u8 list \<Rightarrow> Parsed codec" where
  "parse_memcached request response =
     (if length request < 8 \<or> length response < 18 \<or> length response > 512 then refuse MalformedResponse
      else rbind (slice response 0 2) (\<lambda>a. rbind (slice request 0 2) (\<lambda>b.
      rbind (slice response 2 4) (\<lambda>c. rbind (slice response 4 6) (\<lambda>d.
      rbind (slice response 8 (length response)) (\<lambda>body.
        if a \<noteq> b \<or> c \<noteq> [0, 0] \<or> d \<noteq> [0, 1] \<or> \<not> starts_with body (ascii ''VERSION '') \<or> \<not> ends_with response [13, 10]
        then refuse MalformedResponse
        else rbind (slice response 16 (length response - 2)) (\<lambda>v.
          rbind (demand_some (bounded_text v) MalformedResponse) (\<lambda>version. Ok (3, Some version, []))))))))) "

definition parse_pcp :: "u8 list \<Rightarrow> Parsed codec" where
  "parse_pcp response =
     (if length response < 24 \<or> length response mod 4 \<noteq> 0 then refuse MalformedResponse
      else rbind (byte_at response 0) (\<lambda>a. rbind (byte_at response 1) (\<lambda>b. rbind (byte_at response 3) (\<lambda>code.
        if a \<noteq> 2 \<or> b \<noteq> 0x80 \<or> code > 13 then refuse MalformedResponse
        else rbind (be32 response 8) (\<lambda>epoch.
          Ok (2, Some (ascii ''v2''), [(4, decimal epoch), (1, decimal (unat code))]))))))"

definition ber_tlv :: "u8 list \<Rightarrow> nat \<Rightarrow> (nat \<times> u8 list) codec" where
  "ber_tlv value start =
     (if start + 2 > length value then refuse MalformedResponse
      else rbind (byte_at value (start + 1)) (\<lambda>b.
        rbind (if b AND 0x80 = 0 then Ok (unat b, 2)
               else let n = unat (b AND 0x7f)
                    in if n = 0 \<or> n > 2 \<or> start + 2 + n > length value then refuse MalformedResponse
                       else rbind (slice value (start + 2) (start + 2 + n)) (\<lambda>ls. Ok (nat_of_be ls, 2 + n))) (\<lambda>(len, header).
        rbind (demand_some (checked_add 64 (start + header) len) MalformedResponse) (\<lambda>finish.
          if finish > length value then refuse MalformedResponse
          else rbind (slice value (start + header) finish) (\<lambda>body. Ok (finish, body))))))"

definition ber_field :: "u8 list \<Rightarrow> nat \<Rightarrow> u8 \<Rightarrow> (nat \<times> u8 list) codec" where
  "ber_field value start tag =
     (if start < length value \<and> value ! start = tag then ber_tlv value start else refuse MalformedResponse)"

definition parse_ber_u32 :: "u8 list \<Rightarrow> nat \<Rightarrow> (u32 \<times> nat) codec" where
  "parse_ber_u32 value start =
     rbind (ber_field value start 0x02) (\<lambda>(finish, integer).
       if integer = [] \<or> length integer > 5 then refuse MalformedResponse
       else rbind (byte_at integer 0) (\<lambda>a.
         if a AND 0x80 \<noteq> 0 then refuse MalformedResponse
         else rbind (if length integer > 1 \<and> a = 0 then rbind (byte_at integer 1) (\<lambda>b. Ok (b AND 0x80 = 0)) else Ok False) (\<lambda>padded.
           if padded \<or> (length integer = 5 \<and> a \<noteq> 0) then refuse MalformedResponse
           else Ok (foldl (\<lambda>acc byte. push_bit 8 acc OR ucast byte) 0 integer, finish))))"

definition validate_usm_security_parameters :: "u8 list \<Rightarrow> unit codec" where
  "validate_usm_security_parameters value =
     rbind (ber_field value 0 0x30) (\<lambda>(finish, sequence).
     if finish \<noteq> length value then refuse MalformedResponse
     else rbind (ber_field sequence 0 0x04) (\<lambda>(cursor, _).
       rbind (parse_ber_u32 sequence cursor) (\<lambda>(_, cursor).
       rbind (parse_ber_u32 sequence cursor) (\<lambda>(_, cursor).
       rbind (ber_field sequence cursor 0x04) (\<lambda>(cursor, _).
       rbind (ber_field sequence cursor 0x04) (\<lambda>(cursor, authentication).
       rbind (ber_field sequence cursor 0x04) (\<lambda>(cursor, privacy).
         if cursor \<noteq> length sequence \<or> length authentication > 64 \<or> length privacy > 64
         then refuse MalformedResponse else Ok ())))))))"

fun varbinds_loop :: "nat \<Rightarrow> u8 list \<Rightarrow> nat \<Rightarrow> unit codec" where
  "varbinds_loop 0 value cursor = refuse MalformedResponse"
| "varbinds_loop (Suc n) value cursor =
     (if cursor = length value then Ok ()
      else rbind (ber_field value cursor 0x30) (\<lambda>(next, varbind).
        rbind (ber_field varbind 0 0x06) (\<lambda>(varbind_cursor, oid).
          if oid = [] \<or> varbind_cursor \<ge> length varbind then refuse MalformedResponse
          else rbind (ber_tlv varbind varbind_cursor) (\<lambda>(value_end, _).
            if value_end \<noteq> length varbind then refuse MalformedResponse else varbinds_loop n value next))))"

definition validate_varbinds :: "u8 list \<Rightarrow> unit codec" where
  "validate_varbinds value = varbinds_loop 64 value 0"

text \<open>The header, and the scoped data unit, of a message.\<close>

definition snmp_header :: "u8 list \<Rightarrow> u32 codec" where
  "snmp_header header =
     rbind (parse_ber_u32 header 0) (\<lambda>(message_id, cursor).
     rbind (parse_ber_u32 header cursor) (\<lambda>(_, cursor).
     rbind (ber_field header cursor 0x04) (\<lambda>(cursor, flags).
       if length flags \<noteq> 1 then refuse MalformedResponse
       else rbind (parse_ber_u32 header cursor) (\<lambda>(security_model, cursor).
         if security_model \<noteq> 3 \<or> cursor \<noteq> length header then refuse MalformedResponse else Ok message_id))))"

definition snmp_scoped :: "u8 list \<Rightarrow> u8 \<Rightarrow> u32 codec" where
  "snmp_scoped scoped tag =
     rbind (ber_field scoped 0 0x04) (\<lambda>(cursor, _).
     rbind (ber_field scoped cursor 0x04) (\<lambda>(cursor, _).
     rbind (ber_field scoped cursor tag) (\<lambda>(pdu_end, pdu).
       if pdu_end \<noteq> length scoped then refuse MalformedResponse
       else rbind (parse_ber_u32 pdu 0) (\<lambda>(request_id, cursor).
         rbind (parse_ber_u32 pdu cursor) (\<lambda>(_, cursor).
         rbind (parse_ber_u32 pdu cursor) (\<lambda>(_, cursor).
         rbind (ber_field pdu cursor 0x30) (\<lambda>(varbind_end, varbinds).
           if varbind_end \<noteq> length pdu then refuse MalformedResponse
           else rbind (validate_varbinds varbinds) (\<lambda>_. Ok request_id))))))))"

definition parse_snmpv3_message :: "u8 list \<Rightarrow> u8 \<Rightarrow> (u32 \<times> u32) codec" where
  "parse_snmpv3_message value tag =
     rbind (ber_field value 0 0x30) (\<lambda>(outer_end, outer).
     if outer_end \<noteq> length value then refuse MalformedResponse
     else rbind (ber_field outer 0 0x02) (\<lambda>(cursor, version).
       if version \<noteq> [3] then refuse MalformedResponse
       else rbind (ber_field outer cursor 0x30) (\<lambda>(cursor, header).
         rbind (snmp_header header) (\<lambda>message_id.
         rbind (ber_field outer cursor 0x04) (\<lambda>(cursor, security).
         rbind (validate_usm_security_parameters security) (\<lambda>_.
         rbind (ber_field outer cursor 0x30) (\<lambda>(scoped_end, scoped).
           if scoped_end \<noteq> length outer then refuse MalformedResponse
           else rbind (snmp_scoped scoped tag) (\<lambda>request_id. Ok (message_id, request_id)))))))))"

definition parse_snmpv3 :: "u8 list \<Rightarrow> u8 list \<Rightarrow> Parsed codec" where
  "parse_snmpv3 request response =
     rbind (parse_snmpv3_message request 0xa0) (\<lambda>a. rbind (parse_snmpv3_message response 0xa8) (\<lambda>b.
       if a \<noteq> b then refuse WrongTransaction else Ok (3, Some (ascii ''v3''), [])))"

definition parse_safe :: "UdpSafeProbe \<Rightarrow> u8 list \<Rightarrow> u8 list \<Rightarrow> Parsed codec" where
  "parse_safe probe request response =
     (case probe of
        Dns \<Rightarrow> parse_dns request response
      | Ntp \<Rightarrow> parse_ntp request response
      | SnmpV3 \<Rightarrow> parse_snmpv3 request response
      | Rpcbind \<Rightarrow> parse_rpcbind request response
      | Stun \<Rightarrow> parse_stun request response
      | Coap \<Rightarrow> parse_coap request response
      | AsfRmcp \<Rightarrow> parse_asf request response
      | Memcached \<Rightarrow> parse_memcached request response
      | Pcp \<Rightarrow> parse_pcp response)"

definition parse_udp_safe_response :: "UdpSafeProbe \<Rightarrow> u8 list \<Rightarrow> u8 list \<Rightarrow> UdpSafeMatch codec" where
  "parse_udp_safe_response probe request response =
     rbind (parse_safe probe request response) (\<lambda>(confidence, version, extras).
     rbind (encode_metadata (product_name probe) version extras) (\<lambda>metadata.
       Ok \<lparr>match_family = service_family probe, match_confidence = confidence, match_metadata = metadata\<rparr>))"

end
