(* ===== verification/Udp_Safe_Properties.thy ===== *)
theory Udp_Safe_Properties
  imports Udp_Safe
begin

text \<open>
  The safe-profile codecs on arbitrary bytes: no parser panics, an accepted response repeats
  the token of its request, and which records the consumer accepts. The SNMP request is
  decoded by the parser that decodes the response, so the encoding is read back here.
\<close>

section \<open>What the parsers accept\<close>

text \<open>
  Texts that survive the language boundary, and the shape of the extra fields. The parsers
  of a probe accept only parsed values that are tidy.
\<close>

definition tidy :: "Parsed \<Rightarrow> bool" where
  "tidy p = (case p of (c, v, xs) \<Rightarrow> c \<in> {1, 2, 3} \<and> (case v of None \<Rightarrow> True | Some t \<Rightarrow> list_all printable t \<and> length t \<le> 255)
     \<and> list_all (\<lambda>f. fst f < 65536 \<and> list_all printable (snd f)) xs)"

definition extra_ids :: "Parsed \<Rightarrow> nat list" where
  "extra_ids p = map fst (snd (snd p))"

lemma tidy_simps:
  "tidy (c, None, xs) \<longleftrightarrow> c \<in> {1, 2, 3} \<and> list_all (\<lambda>f. fst f < 65536 \<and> list_all printable (snd f)) xs"
  "tidy (c, Some t, xs) \<longleftrightarrow> c \<in> {1, 2, 3} \<and> list_all printable t \<and> length t \<le> 255
     \<and> list_all (\<lambda>f. fst f < 65536 \<and> list_all printable (snd f)) xs"
  by (simp_all add: tidy_def)

lemma printable_codes: "b \<in> set [0x20..<0x7f] \<Longrightarrow> printable (word_of_nat b)"
  by (auto simp: printable_def word_le_nat_alt unat_of_nat)

lemma ascii_printable: "list_all (\<lambda>c. of_char c \<in> set [0x20..<0x7f]) s \<Longrightarrow> list_all printable (ascii s)"
  by (auto simp: ascii_def list_all_iff intro!: printable_codes)

lemma parses_dns_name: "parses (dns_name_end n msg cursor) (\<lambda>c. c \<le> length msg)"
  by (induction n arbitrary: cursor) (auto simp: parse_simps Let_def)

lemma parses_dns_questions:
  "cursor \<le> length msg \<Longrightarrow> parses (dns_questions n msg cursor) (\<lambda>c. c \<le> length msg)"
  by (induction n arbitrary: cursor)
    (auto simp: parse_simps intro!: parses_mono [OF parses_dns_name])

lemma parses_dns_records:
  "cursor \<le> length msg \<Longrightarrow> parses (dns_records n msg cursor) (\<lambda>c. c \<le> length msg)"
  by (induction n arbitrary: cursor)
    (auto simp: parse_simps intro!: parses_mono [OF parses_dns_name])

lemma parses_dns_message: "12 \<le> length msg \<Longrightarrow> parses (validate_dns_message msg) (\<lambda>_. True)"
  by (auto simp: validate_dns_message_def parse_simps Let_def
      intro!: parses_mono [OF parses_dns_questions] parses_mono [OF parses_dns_records])

lemma decimal_le: "n \<le> 10 ^ 9 \<Longrightarrow> length (decimal n) \<le> 10"
  by (rule decimal_length) simp_all

lemma byte_printable: "list_all printable (decimal n)"
  by (rule decimal_printable)

lemma parses_dns:
  "parses (parse_dns request response) (\<lambda>p. tidy p \<and> fields_ordered 0 (extra_ids p))"
  by (auto simp: parse_dns_def parse_simps tidy_simps extra_ids_def decimal_printable
      intro!: parses_mono [OF parses_dns_message])

lemma static_printable:
  "list_all printable (ascii ''v2'')" "list_all printable (ascii ''v3'')" "list_all printable (ascii ''v'')"
  by (simp_all add: ascii_def printable_def)

lemma product_printable: "list_all printable (product_name probe)"
  by (cases probe) (simp_all add: ascii_def printable_def)

lemma static_length [simp]: "length (ascii s) = length s"
  by (simp add: ascii_def)

lemma parses_ntp: "parses (parse_ntp request response) (\<lambda>p. tidy p \<and> fields_ordered 0 (extra_ids p))"
proof -
  have "length (decimal (unat b)) \<le> 3" for b :: u8
    using unsigned_less [of b, where ?'a = nat] by (intro decimal_length) simp_all
  from le_trans [OF this, of 254] have "length (ascii ''v'' @ decimal (unat b)) \<le> 255" for b :: u8 by simp
  then show ?thesis
    by (simp add: parse_ntp_def parse_simps tidy_simps extra_ids_def decimal_printable static_printable Let_def
        del: length_greater_0_conv)
qed

lemma parses_rpcbind: "parses (parse_rpcbind request response) (\<lambda>p. tidy p \<and> fields_ordered 0 (extra_ids p))"
proof -
  have last: "checked_add 64 a 4 = Some (length response) \<Longrightarrow> a + 4 \<le> length response" for a
    by (simp add: result_simps)
  show ?thesis
    unfolding parse_rpcbind_def
    by (simp add: parse_simps tidy_simps extra_ids_def static_printable last)
qed

lemma bounded_text_printable: "bounded_text bs = Some t \<Longrightarrow> list_all printable t \<and> length t \<le> 255"
  by (auto simp: bounded_text_def split: if_splits)

lemma parses_stun_attributes:
  assumes "\<And>t. software = Some t \<Longrightarrow> list_all printable t \<and> length t \<le> 255"
  shows "parses (stun_attributes response cursor software) (\<lambda>v. \<forall>t. v = Some t \<longrightarrow> list_all printable t \<and> length t \<le> 255)"
  using assms
proof (induction "length response - cursor" arbitrary: cursor software rule: less_induct)
  case less
  have further: "parses (stun_attributes response (align4 finish) s) (\<lambda>v. \<forall>t. v = Some t \<longrightarrow> list_all printable t \<and> length t \<le> 255)"
    if "cursor < length response" "cursor + 4 \<le> finish" "\<And>t. s = Some t \<Longrightarrow> list_all printable t \<and> length t \<le> 255" for finish s
    by (rule less.hyps) (use align4_ge [of finish] that in auto)
  show ?case
    by (subst stun_attributes.simps)
      (use less.prems in \<open>auto simp: parse_simps result_simps intro!: further dest: bounded_text_printable\<close>)
qed

lemma parses_stun: "parses (parse_stun request response) (\<lambda>p. tidy p \<and> fields_ordered 0 (extra_ids p))"
proof -
  have attrs: "parses (stun_attributes response 20 None) (\<lambda>v. tidy (3, v, []) \<and> fields_ordered 0 (extra_ids (3, v, [])))"
    by (rule parses_mono [OF parses_stun_attributes]) (auto simp: tidy_def extra_ids_def split: option.splits)
  show ?thesis unfolding parse_stun_def by (auto simp: parse_simps attrs)
qed

lemma parses_small:
  "parses (parse_coap request response) (\<lambda>p. tidy p \<and> fields_ordered 0 (extra_ids p))"
  "parses (parse_asf request response) (\<lambda>p. tidy p \<and> fields_ordered 0 (extra_ids p))"
  "parses (parse_memcached request response) (\<lambda>p. tidy p \<and> fields_ordered 0 (extra_ids p))"
  by (auto simp: parse_coap_def parse_asf_def parse_memcached_def parse_simps tidy_simps extra_ids_def
      dest: bounded_text_printable)

lemma parses_pcp: "parses (parse_pcp response) (\<lambda>p. tidy p \<and> extra_ids p = [4, 1])"
  by (auto simp: parse_pcp_def parse_simps tidy_simps extra_ids_def static_printable decimal_printable)

lemma parses_ber_tlv: "parses (ber_tlv msg start) (\<lambda>(finish, body). start + 2 \<le> finish \<and> finish \<le> length msg)"
  by (auto simp: ber_tlv_def parse_simps Let_def result_simps)

lemma parses_ber_field: "parses (ber_field msg start tag) (\<lambda>(finish, body). start + 2 \<le> finish \<and> finish \<le> length msg)"
  using parses_ber_tlv by (simp add: ber_field_def parse_simps)

lemma parses_ber_u32: "parses (parse_ber_u32 msg start) (\<lambda>_. True)"
  unfolding parse_ber_u32_def parses_rbind
  by (rule parses_mono [OF parses_ber_field]) (auto simp: parse_simps)

text \<open>Where only the absence of panics matters.\<close>

lemma parses_total:
  "parses (ber_tlv msg start) (\<lambda>_. True)" "parses (ber_field msg start tag) (\<lambda>_. True)"
  by (rule parses_mono [OF parses_ber_tlv] parses_mono [OF parses_ber_field], simp)+

lemma parses_anyway: "parses r (\<lambda>_. True) \<Longrightarrow> (\<And>a. Q a) \<Longrightarrow> parses r Q"
  by (erule parses_mono)

lemmas parses_step = parses_anyway [OF parses_total(1)] parses_anyway [OF parses_total(2)] parses_anyway [OF parses_ber_u32]

lemma parses_varbinds: "parses (varbinds_loop n msg cursor) (\<lambda>_. True)"
  by (induction n arbitrary: cursor) (auto simp: parse_simps intro!: parses_step)

lemma parses_snmp_message: "parses (parse_snmpv3_message msg tag) (\<lambda>_. True)"
proof -
  have usm: "parses (validate_usm_security_parameters v) (\<lambda>_. True)" for v
    by (auto simp: validate_usm_security_parameters_def parse_simps intro!: parses_step)
  have h: "parses (snmp_header v) (\<lambda>_. True)" for v
    by (auto simp: snmp_header_def parse_simps intro!: parses_step)
  have s: "parses (snmp_scoped v t) (\<lambda>_. True)" for v t
    by (auto simp: snmp_scoped_def validate_varbinds_def parse_simps intro!: parses_step parses_anyway [OF parses_varbinds])
  show ?thesis
    by (auto simp: parse_snmpv3_message_def parse_simps intro!: parses_step parses_anyway [OF usm] parses_anyway [OF h]
        parses_anyway [OF s])
qed

lemma parses_snmpv3: "parses (parse_snmpv3 request response) (\<lambda>p. tidy p \<and> fields_ordered 0 (extra_ids p))"
  by (auto simp: parse_snmpv3_def parse_simps tidy_simps extra_ids_def static_printable
      intro!: parses_anyway [OF parses_snmp_message])

lemma parses_safe:
  "parses (parse_safe probe request response) (\<lambda>p. tidy p \<and> (fields_ordered 0 (extra_ids p) \<longleftrightarrow> probe \<noteq> Pcp))"
proof (cases "probe = Pcp")
  case True
  then show ?thesis by (simp add: parse_safe_def) (rule parses_mono [OF parses_pcp], simp)
next
  case False
  have "parses (parse_safe probe request response) (\<lambda>p. tidy p \<and> fields_ordered 0 (extra_ids p))"
    using False parses_dns parses_ntp parses_rpcbind parses_stun parses_small parses_snmpv3
    by (cases probe) (simp_all add: parse_safe_def)
  then show ?thesis by (rule parses_mono) (use False in simp)
qed

lemma parses_encode: "parses (encode_metadata p v xs) (\<lambda>r. encode_metadata p v xs = Ok r)"
proof -
  have one_text: "parses (encode_text t) (\<lambda>_. True)" for t by (simp add: encode_text_def parse_simps)
  have "parses (encode_extras xs) (\<lambda>_. True)" for xs
    by (induction xs) (auto simp: parse_simps intro!: parses_anyway [OF one_text])
  note extras = this
  have "parses (encode_metadata p v xs) (\<lambda>_. True)"
    by (auto simp: encode_metadata_def parse_simps Let_def intro!: parses_anyway [OF one_text] parses_anyway [OF extras])
  then show ?thesis by (auto simp: parses_def split: sum.splits failure.splits)
qed

lemma record_of_tidy:
  assumes "tidy (c, v, xs)" and "encode_metadata (product_name probe) v xs = Ok r"
  shows "validateServiceMetadataRecord r = Ok () \<longleftrightarrow> fields_ordered 0 (map fst xs)"
proof (rule record_of_encoding(1) [OF assms(2)])
  have rt: "round_trips t" if "list_all printable t" for t
    using plain_decode [OF printable_plain [OF that]] by (simp add: round_trips_def)
  show "round_trips (product_name probe)" by (rule rt) (rule product_printable)
  show "round_trips t" if "v = Some t" for t using assms(1) that rt by (simp add: tidy_def)
  show "list_all (\<lambda>f. fst f < 65536 \<and> round_trips (snd f)) xs"
    using assms(1) rt by (auto simp: tidy_def list_all_iff split: option.splits)
qed

lemma parses_response:
  "parses (parse_udp_safe_response probe request response)
     (\<lambda>m. match_family m = service_family probe \<and> match_confidence m \<in> {1, 2, 3} \<and>
       (validateServiceMetadataRecord (match_metadata m) = Ok () \<longleftrightarrow> probe \<noteq> Pcp))" (is "parses _ ?Q")
proof -
  have enc: "parses (rbind (encode_metadata (product_name probe) v xs) (\<lambda>metadata.
       Ok \<lparr>match_family = service_family probe, match_confidence = c, match_metadata = metadata\<rparr>)) ?Q"
    if "tidy (c, v, xs)" "fields_ordered 0 (extra_ids (c, v, xs)) \<longleftrightarrow> probe \<noteq> Pcp" for c v xs
    unfolding parses_rbind
    by (rule parses_mono [OF parses_encode]) (use that record_of_tidy in \<open>simp add: parse_simps extra_ids_def tidy_def\<close>)
  show ?thesis
    unfolding parse_udp_safe_response_def parses_rbind [of "parse_safe probe request response"]
  proof (rule parses_mono [OF parses_safe])
    fix p
    assume "tidy p \<and> (fields_ordered 0 (extra_ids p) \<longleftrightarrow> probe \<noteq> Pcp)"
    then show "parses (case p of (c, v, xs) \<Rightarrow> rbind (encode_metadata (product_name probe) v xs) (\<lambda>metadata.
       Ok \<lparr>match_family = service_family probe, match_confidence = c, match_metadata = metadata\<rparr>)) ?Q"
      by (cases p) (simp only: prod.case, rule enc, simp_all)
  qed
qed

section \<open>The transaction of a request\<close>

lemma shift_or: "push_bit 8 acc OR ucast b = acc * 256 + (ucast b :: u32)" for acc :: u32 and b :: u8
proof -
  have "push_bit 8 acc + (ucast b :: u32) = push_bit 8 acc OR ucast b"
  proof (rule disjunctive_add)
    fix n
    have "n < 8" if "bit (ucast b :: u32) n" using that by (auto simp: bit_simps dest: bit_imp_le_length)
    then show "\<not> bit (push_bit 8 acc) n \<or> \<not> bit (ucast b :: u32) n" by (auto simp: bit_simps)
  qed
  then show ?thesis by (simp add: push_bit_eq_mult)
qed

lemma fold_be: "foldl (\<lambda>acc b. push_bit 8 acc OR ucast b) a bs = a * 256 ^ length bs + (word_of_nat (nat_of_be bs) :: u32)"
proof (induction bs arbitrary: a)
  case (Cons b bs)
  have "(word_of_nat (unat b) :: u32) = ucast b" by simp
  then show ?case using Cons by (simp add: shift_or algebra_simps)
qed simp

lemma ber_short:
  assumes "drop start msg = tag # n # body @ rest" and "length body = unat n" and "unat n < 128" and "length msg \<le> max_of 64"
  shows "ber_field msg start tag = Ok (start + 2 + length body, body)" "drop (start + 2 + length body) msg = rest"
proof -
  note t = drop_ConsD [OF assms(1)] and l = drop_ConsD [OF drop_ConsD(3) [OF assms(1)]]
  have d: "drop (start + 2) msg = body @ rest" using l(3) by simp
  have len: "start + 2 + length body \<le> length msg"
    using arg_cong [OF assms(1), of length] t(1) by simp
  have "\<not> bit (unat n) 7" using assms(3) by (simp add: bit_iff_odd)
  then have "\<not> bit n 7" by (simp add: bit_simps)
  then have "n AND 0x80 = 0" using and_exp_eq_0_iff_not_bit [of n 7] by simp
  then show "ber_field msg start tag = Ok (start + 2 + length body, body)"
    using t l d len assms(2,4)
    by (simp add: ber_field_def ber_tlv_def byte_at_def demand_some_def checked_add_def slice_def)
  show "drop (start + 2 + length body) msg = rest" using drop_appendD(2) [OF d] .
qed

lemma be_of_nat_4:
  "be_of_nat 4 x = [word_of_nat (x div 16777216), word_of_nat (x mod 16777216 div 65536),
     word_of_nat (x mod 65536 div 256), word_of_nat (x mod 256)]"
proof -
  have four: "4 = Suc (Suc (Suc (Suc 0)))" by simp
  have "x mod 16777216 mod 65536 = x mod 65536" "x mod 65536 mod 256 = x mod 256" by (simp_all add: mod_mod_cancel)
  then show ?thesis unfolding four be_of_nat.simps by simp
qed

lemma nat_of_be_strip: "nat_of_be (dropWhile (\<lambda>b. b = 0) bs) = nat_of_be bs"
  by (induction bs) auto

lemma ber_integer_body:
  assumes "v < 2 ^ 32"
  obtains high s where "ber_integer v = 0x02 # word_of_nat (length ((if high then [0] else []) @ s)) # (if high then [0] else []) @ s"
    "s \<noteq> []" "length s \<le> 4" "nat_of_be s = v" "hd s = 0 \<Longrightarrow> s = [0]" "high \<longleftrightarrow> hd s AND 0x80 \<noteq> 0"
proof -
  let ?bytes = "be_of_nat 4 v"
  define s where "s = (case dropWhile (\<lambda>b. b = 0) ?bytes of [] \<Rightarrow> drop 3 ?bytes | c # cs \<Rightarrow> c # cs)"
  have v: "nat_of_be ?bytes = v" using nat_of_be_of_nat [of v 4] assms by simp
  have "s \<noteq> [] \<and> length s \<le> 4 \<and> nat_of_be s = v \<and> (hd s = 0 \<longrightarrow> s = [0])"
  proof (cases "dropWhile (\<lambda>b. b = 0) ?bytes")
    case Nil
    have "v = 0" using nat_of_be_strip [of ?bytes, unfolded Nil] v by simp
    then have "s = [0]" using Nil by (simp add: s_def be_of_nat_4)
    then show ?thesis using \<open>v = 0\<close> by simp
  next
    case (Cons c cs)
    have "length (c # cs) \<le> 4" using length_dropWhile_le [of "\<lambda>b. b = 0" ?bytes] Cons by simp
    moreover have "c \<noteq> 0" using Cons by (simp add: dropWhile_eq_Cons_conv)
    moreover have "nat_of_be (c # cs) = v" using nat_of_be_strip [of ?bytes] v Cons by simp
    ultimately show ?thesis using Cons by (simp add: s_def)
  qed
  then show ?thesis
    using that [of "hd s AND 0x80 \<noteq> 0" s] by (simp add: ber_integer_def Let_def flip: s_def)
qed

lemma parse_ber_integer:
  assumes "drop start msg = ber_integer v @ rest" and "v < 2 ^ 32" and "length msg \<le> max_of 64"
  shows "parse_ber_u32 msg start = Ok (word_of_nat v, start + length (ber_integer v))"
    "drop (start + length (ber_integer v)) msg = rest"
proof -
  obtain high s where i: "ber_integer v = 0x02 # word_of_nat (length ((if high then [0] else []) @ s)) # (if high then [0] else []) @ s"
    and s: "s \<noteq> []" "length s \<le> 4" "nat_of_be s = v" "hd s = 0 \<Longrightarrow> s = [0]" "high \<longleftrightarrow> hd s AND 0x80 \<noteq> 0"
    using ber_integer_body [OF assms(2)] by blast
  define body where "body = (if high then [0] else []) @ s"
  have i': "ber_integer v = 0x02 # word_of_nat (length body) # body" using i by (simp only: body_def)
  have body: "body \<noteq> []" "length body \<le> 5" using s(1,2) by (simp_all add: body_def)
  then have n: "unat (word_of_nat (length body) :: u8) = length body" by (simp add: unat_of_nat)
  have d: "drop start msg = 0x02 # word_of_nat (length body) # body @ rest" using assms(1) i' by simp
  note f = ber_short [OF d n [symmetric] _ assms(3)]
  have val: "foldl (\<lambda>acc b. push_bit 8 acc OR ucast b) 0 body = (word_of_nat v :: u32)"
    using s(3) by (simp add: fold_be body_def)
  obtain b bs where sb: "s = b # bs" using s(1) by (cases s) auto
  show "parse_ber_u32 msg start = Ok (word_of_nat v, start + length (ber_integer v))"
    using f(1) n body val s(2,4,5) sb
    by (cases high) (auto simp: parse_ber_u32_def byte_at_def body_def i')
  show "drop (start + length (ber_integer v)) msg = rest" using f(2) n body(2) by (simp add: i')
qed

lemma ber_constants:
  "[0x02, 0x03, 0x00, 0xff, 0xe3] = ber_integer 65507" "[0x02, 0x01, 0x03] = ber_integer 3" "[0x02, 0x01, 0] = ber_integer 0"
  by (simp_all add: ber_integer_def be_of_nat_4 Let_def)

lemma length_ber_integer: "v < 2 ^ 32 \<Longrightarrow> length (ber_integer v) \<le> 7"
  by (rule ber_integer_body [of v]) auto

definition tlv :: "u8 \<Rightarrow> u8 list \<Rightarrow> u8 list" where
  "tlv tag body = tag # word_of_nat (length body) # body"

lemma length_tlv [simp]: "length (tlv tag body) = length body + 2"
  by (simp add: tlv_def)

lemma field_of_tlv:
  assumes "drop start msg = tlv tag body @ rest" and "length body < 128" and "length msg \<le> max_of 64"
  shows "ber_field msg start tag = Ok (start + length (tlv tag body), body)" "drop (start + length (tlv tag body)) msg = rest"
proof -
  have n: "unat (word_of_nat (length body) :: u8) = length body" using assms(2) by (simp add: unat_of_nat)
  have d: "drop start msg = tag # word_of_nat (length body) # body @ rest" using assms(1) by (simp add: tlv_def)
  from ber_short [OF d n [symmetric] _ assms(3)] assms(2) n
  show "ber_field msg start tag = Ok (start + length (tlv tag body), body)" "drop (start + length (tlv tag body)) msg = rest"
    by (simp_all add: add.assoc add.commute [of 2])
qed

lemma tagged_tlv: "length (concat parts) < 128 \<Longrightarrow> ber_tagged tag parts = Ok (tlv tag (concat parts))"
  by (simp add: ber_tagged_def tlv_def unwrap_def try_from_def max_of_def length_concat)

lemma octets_tlv: "length body < 128 \<Longrightarrow> ber_octets body = Ok (tlv 0x04 body)"
  by (simp add: ber_octets_def tlv_def unwrap_def try_from_def max_of_def)

lemma tlv_constants: "[0x04, 0x00] = tlv 0x04 []" "[0x30, 0x00] = tlv 0x30 []" "[0x04, 0x01, 0x04] = tlv 0x04 [0x04]"
  by (simp_all add: tlv_def)

definition header_body :: "nat \<Rightarrow> u8 list" where
  "header_body m = ber_integer m @ ber_integer 65507 @ tlv 0x04 [0x04] @ ber_integer 3"

definition security_body :: "u8 list" where
  "security_body = tlv 0x04 [] @ ber_integer 0 @ ber_integer 0 @ tlv 0x04 [] @ tlv 0x04 [] @ tlv 0x04 []"

definition pdu_body :: "nat \<Rightarrow> u8 list" where
  "pdu_body q = ber_integer q @ ber_integer 0 @ ber_integer 0 @ tlv 0x30 []"

definition scoped_body :: "u8 \<Rightarrow> nat \<Rightarrow> u8 list" where
  "scoped_body tag q = tlv 0x04 [] @ tlv 0x04 [] @ tlv tag (pdu_body q)"

definition message_body :: "u8 \<Rightarrow> nat \<Rightarrow> nat \<Rightarrow> u8 list" where
  "message_body tag m q = ber_integer 3 @ tlv 0x30 (header_body m) @ tlv 0x04 (tlv 0x30 security_body)
     @ tlv 0x30 (scoped_body tag q)"

lemma length_constants [simp]: "length (ber_integer 65507) = 5" "length (ber_integer 3) = 3" "length (ber_integer 0) = 3"
  by (simp_all flip: ber_constants)

lemma body_lengths:
  assumes "m < 2 ^ 32" and "q < 2 ^ 32"
  shows "length (header_body m) \<le> 18" "length security_body = 14" "length (pdu_body q) \<le> 15"
    "length (scoped_body tag q) \<le> 21" "length (message_body tag m q) \<le> 64"
  using length_ber_integer [OF assms(1)] length_ber_integer [OF assms(2)]
  by (simp_all add: header_body_def security_body_def pdu_body_def scoped_body_def message_body_def)

lemma small_width: "n \<le> 200 \<Longrightarrow> n \<le> max_of 64"
  by (simp add: max_of_def)

lemma header_parses:
  assumes "m < 2 ^ 32"
  shows "snmp_header (header_body m) = Ok (word_of_nat m)"
proof -
  let ?h = "header_body m"
  have w: "length ?h \<le> max_of 64" using body_lengths(1) [OF assms, of 0] by (intro small_width) simp
  have "drop 0 ?h = ber_integer m @ ber_integer 65507 @ tlv 0x04 [0x04] @ ber_integer 3 @ []" by (simp add: header_body_def)
  note a = parse_ber_integer [OF this assms w]
  note b = parse_ber_integer [OF a(2) _ w]
  note c = field_of_tlv [OF b(2) _ w]
  note d = parse_ber_integer [OF c(2) _ w]
  show ?thesis using a(1) b(1) c(1) d(1) by (simp add: snmp_header_def header_body_def)
qed

lemma security_parses: "validate_usm_security_parameters (tlv 0x30 security_body) = Ok ()"
proof -
  have w: "length (tlv 0x30 security_body) \<le> max_of 64" "length security_body \<le> max_of 64"
    using body_lengths(2) [of 0 0] by (simp_all add: max_of_def)
  have "drop 0 (tlv 0x30 security_body) = tlv 0x30 security_body @ []" by simp
  note s = field_of_tlv [OF this _ w(1)]
  have "drop 0 security_body = tlv 0x04 [] @ ber_integer 0 @ ber_integer 0 @ tlv 0x04 [] @ tlv 0x04 [] @ tlv 0x04 [] @ []"
    by (simp add: security_body_def)
  note a = field_of_tlv [OF this _ w(2)]
  note b = parse_ber_integer [OF a(2) _ w(2)]
  note c = parse_ber_integer [OF b(2) _ w(2)]
  note d = field_of_tlv [OF c(2) _ w(2)]
  note e = field_of_tlv [OF d(2) _ w(2)]
  note f = field_of_tlv [OF e(2) _ w(2)]
  show ?thesis
    using s(1) a(1) b(1) c(1) d(1) e(1) f(1) by (simp add: validate_usm_security_parameters_def security_body_def)
qed

lemma scoped_parses:
  assumes "q < 2 ^ 32"
  shows "snmp_scoped (scoped_body tag q) tag = Ok (word_of_nat q)"
proof -
  have "(0 :: nat) < 2 ^ 32" by simp
  note len = body_lengths(3,4) [OF this assms]
  have w: "length (scoped_body tag q) \<le> max_of 64" "length (pdu_body q) \<le> max_of 64"
    using len(1) len(2) [of tag] by (auto intro: small_width)
  have "drop 0 (scoped_body tag q) = tlv 0x04 [] @ tlv 0x04 [] @ tlv tag (pdu_body q) @ []" by (simp add: scoped_body_def)
  note a = field_of_tlv [OF this _ w(1)]
  note b = field_of_tlv [OF a(2) _ w(1)]
  note c = field_of_tlv [OF b(2) _ w(1)]
  have "drop 0 (pdu_body q) = ber_integer q @ ber_integer 0 @ ber_integer 0 @ tlv 0x30 [] @ []" by (simp add: pdu_body_def)
  note d = parse_ber_integer [OF this assms w(2)]
  note e = parse_ber_integer [OF d(2) _ w(2)]
  note f = parse_ber_integer [OF e(2) _ w(2)]
  note g = field_of_tlv [OF f(2) _ w(2)]
  have "validate_varbinds [] = Ok ()" using varbinds_loop.simps(2) [of 63 "[]" 0] by (simp add: validate_varbinds_def)
  then show ?thesis
    using a(1) b(1) c(1) d(1) e(1) f(1) g(1) len(1)
    by (simp add: snmp_scoped_def scoped_body_def pdu_body_def)
qed

lemma message_parses:
  assumes "m < 2 ^ 32" and "q < 2 ^ 32"
  shows "parse_snmpv3_message (tlv 0x30 (message_body tag m q)) tag = Ok (word_of_nat m, word_of_nat q)"
proof -
  let ?o = "message_body tag m q"
  note len = body_lengths [OF assms]
  have w: "length (tlv 0x30 ?o) \<le> max_of 64" "length ?o \<le> max_of 64" using len(5) [of tag] by (auto intro: small_width)
  have "drop 0 (tlv 0x30 ?o) = tlv 0x30 ?o @ []" by simp
  note a = field_of_tlv [OF this _ w(1)]
  have three: "ber_integer 3 = tlv 0x02 [3]" by (simp add: tlv_def flip: ber_constants)
  have "drop 0 ?o = tlv 0x02 [3] @ tlv 0x30 (header_body m) @ tlv 0x04 (tlv 0x30 security_body) @ tlv 0x30 (scoped_body tag q) @ []"
    by (simp add: message_body_def three)
  note b = field_of_tlv [OF this _ w(2)]
  note c = field_of_tlv [OF b(2) _ w(2)]
  note d = field_of_tlv [OF c(2) _ w(2)]
  note e = field_of_tlv [OF d(2) _ w(2)]
  have small: "length ?o < 128" "length (header_body m) < 128" "length (scoped_body tag q) < 128"
    using len(1) len(4) [of tag] len(5) [of tag] by simp_all
  have "length ?o = length (tlv 0x02 [3]) + length (tlv 0x30 (header_body m)) + length (tlv 0x04 (tlv 0x30 security_body))
      + length (tlv 0x30 (scoped_body tag q))"
    by (simp add: message_body_def)
  then show ?thesis
    using a(1) b(1) c(1) d(1) e(1) small len(2) header_parses [OF assms(1)] security_parses scoped_parses [OF assms(2)]
    by (simp add: parse_snmpv3_message_def)
qed

lemma token_id_less: "token_id token i < 2 ^ 32"
  using unsigned_less [of "(word_of_nat (nat_of_be (part token i (i + 4))) :: u32) AND 0x7fffffff", where ?'a = nat]
  by (simp add: token_id_def)

lemma build_snmpv3_bytes:
  "build_snmpv3 token = Ok (tlv 0x30 (message_body 0xa0 (token_id token 0) (token_id token 4)))"
proof -
  note len = body_lengths [OF token_id_less [of token 0] token_id_less [of token 4]]
  have "ber_tagged 0x30 [ber_integer (token_id token 0), [0x02, 0x03, 0x00, 0xff, 0xe3], [0x04, 0x01, 0x04], [0x02, 0x01, 0x03]]
      = Ok (tlv 0x30 (header_body (token_id token 0)))"
    using len(1) by (subst tagged_tlv) (simp_all add: header_body_def ber_constants tlv_constants)
  moreover have "ber_tagged 0x30 [[0x04, 0x00], [0x02, 0x01, 0], [0x02, 0x01, 0], [0x04, 0x00], [0x04, 0x00], [0x04, 0x00]]
      = Ok (tlv 0x30 security_body)"
    using len(2) by (subst tagged_tlv) (simp_all add: security_body_def ber_constants tlv_constants)
  moreover have "ber_tagged 0xa0 [ber_integer (token_id token 4), [0x02, 0x01, 0], [0x02, 0x01, 0], [0x30, 0x00]]
      = Ok (tlv 0xa0 (pdu_body (token_id token 4)))"
    using len(3) by (subst tagged_tlv) (simp_all add: pdu_body_def ber_constants tlv_constants)
  moreover have "ber_tagged 0x30 [[0x04, 0x00], [0x04, 0x00], tlv 0xa0 (pdu_body (token_id token 4))]
      = Ok (tlv 0x30 (scoped_body 0xa0 (token_id token 4)))"
    using len(4) [of "0xa0"] by (subst tagged_tlv) (simp_all add: scoped_body_def tlv_constants)
  moreover have "ber_octets (tlv 0x30 security_body) = Ok (tlv 0x04 (tlv 0x30 security_body))"
    using len(2) by (intro octets_tlv) simp
  moreover have "ber_tagged 0x30 [[0x02, 0x01, 0x03], tlv 0x30 (header_body (token_id token 0)), tlv 0x04 (tlv 0x30 security_body),
      tlv 0x30 (scoped_body 0xa0 (token_id token 4))] = Ok (tlv 0x30 (message_body 0xa0 (token_id token 0) (token_id token 4)))"
    using len(5) [of "0xa0"] by (subst tagged_tlv) (simp_all add: message_body_def ber_constants)
  ultimately show ?thesis unfolding build_snmpv3_def by (simp only: rbind_simps)
qed

text \<open>
  The part of a response that repeats the token of the request. The port-control announce
  message carries no transaction identifier, so no answer to it repeats anything.
\<close>

definition echoes :: "UdpSafeProbe \<Rightarrow> u8 list \<Rightarrow> u8 list \<Rightarrow> bool" where
  "echoes probe token response =
     (case probe of
        Dns \<Rightarrow> part response 0 2 = part token 0 2
      | Ntp \<Rightarrow> part response 24 32 = part token 0 8
      | SnmpV3 \<Rightarrow> parse_snmpv3_message response 0xa8
          = Ok (word_of_nat (token_id token 0), word_of_nat (token_id token 4))
      | Rpcbind \<Rightarrow> part response 0 4 = part token 0 4
      | Stun \<Rightarrow> part response 8 20 = part token 0 12
      | Coap \<Rightarrow> part response 2 4 = part token 0 2
      | AsfRmcp \<Rightarrow> response ! 9 = token ! 0
      | Memcached \<Rightarrow> part response 0 2 = part token 0 2
      | Pcp \<Rightarrow> False)"

lemma part_splice:
  "b \<le> i \<Longrightarrow> i \<le> length xs \<Longrightarrow> part (splice xs i ys) a b = part xs a b"
  "i \<le> length xs \<Longrightarrow> b = i + length ys \<Longrightarrow> part (splice xs i ys) i b = ys"
  by (auto simp: part_def splice_def drop_take min_def)

lemma length_part [simp]: "b \<le> length xs \<Longrightarrow> length (part xs a b) = b - a"
  by (auto simp: part_def)

lemma request_tokens:
  assumes "length token = 16"
  shows "part (build_dns token) 0 2 = part token 0 2" "part (build_ntp token) 40 48 = part token 0 8"
    "part (build_rpcbind token) 0 4 = part token 0 4" "part (build_stun token) 8 20 = part token 0 12"
    "part [0x40, 0x00, token ! 0, token ! 1] 2 4 = part token 0 2" "part (build_memcached token) 0 2 = part token 0 2"
proof -
  obtain x y rest where "token = x # y # rest" using assms by (cases token; cases "tl token") auto
  then show "part [0x40, 0x00, token ! 0, token ! 1] 2 4 = part token 0 2" "part (build_memcached token) 0 2 = part token 0 2"
    by (simp_all add: part_def build_memcached_def)
  show "part (build_rpcbind token) 0 4 = part token 0 4" using assms by (simp add: part_def build_rpcbind_def)
qed (use assms in \<open>simp_all add: build_dns_def build_ntp_def build_stun_def part_splice\<close>)

lemma parsed_transactions:
  "parse_dns request response = Ok p \<Longrightarrow> part response 0 2 = part request 0 2"
  "parse_ntp request response = Ok p \<Longrightarrow> part response 24 32 = part request 40 48"
  "parse_rpcbind request response = Ok p \<Longrightarrow> part response 0 4 = part request 0 4"
  "parse_stun request response = Ok p \<Longrightarrow> part response 8 20 = part request 8 20"
  "parse_coap request response = Ok p \<Longrightarrow> part response 2 4 = part request 2 4"
  "parse_asf request response = Ok p \<Longrightarrow> response ! 9 = request ! 9"
  "parse_memcached request response = Ok p \<Longrightarrow> part response 0 2 = part request 0 2"
  "parse_snmpv3 request response = Ok p \<Longrightarrow> parse_snmpv3_message response 0xa8 = parse_snmpv3_message request 0xa0"
  by (auto simp: parse_dns_def parse_ntp_def parse_rpcbind_def parse_stun_def parse_coap_def parse_asf_def
      parse_memcached_def parse_snmpv3_def part_def result_simps Let_def split: if_splits)

lemma parse_safe_echoes:
  assumes "build_udp_safe_request probe token source = Ok request" and "length token = 16"
    and "parse_safe probe request response = Ok p" and "probe \<noteq> Pcp"
  shows "echoes probe token response"
proof (cases probe)
  case SnmpV3
  then have "request = tlv 0x30 (message_body 0xa0 (token_id token 0) (token_id token 4))"
    using assms(1) build_snmpv3_bytes [of token] by (simp add: build_udp_safe_request_def)
  then show ?thesis
    using parsed_transactions(8) [of request response p] assms(3) SnmpV3
      message_parses [OF token_id_less [of token 0] token_id_less [of token 4], of "0xa0"]
    by (simp add: parse_safe_def echoes_def)
next
  case AsfRmcp
  then show ?thesis
    using assms parsed_transactions(6) [of request response p]
    by (auto simp: build_udp_safe_request_def build_asf_def parse_safe_def echoes_def)
qed (use assms request_tokens [OF assms(2)] parsed_transactions(1-5,7) [of request response p]
    in \<open>auto simp: build_udp_safe_request_def parse_safe_def echoes_def\<close>)

lemma build_total: "\<exists>request. build_udp_safe_request probe token source = Ok request"
  using build_snmpv3_bytes [of token] by (cases probe) (simp_all add: build_udp_safe_request_def)

text \<open>Two exchanges: a CoAP ping with its reset, and the answer of a port-control server.\<close>

definition example_token :: "u8 list" where
  "example_token = [1, 2, 3, 4, 5, 6, 7, 8, 9, 10, 11, 12, 13, 14, 15, 16]"

definition pcp_answer :: "u8 list" where
  "pcp_answer = [2, 0x80, 0, 0, 0, 0, 0, 0, 0, 0, 0, 7, 0, 0, 0, 0, 0, 0, 0, 0, 0, 0, 0, 0]"

lemma le_of_nat_2: "le_of_nat 2 x = [word_of_nat (x mod 256), word_of_nat (x div 256)]"
  by (simp add: le_of_nat_def numeral_2_eq_2)

lemma coap_exchange:
  "build_udp_safe_request Coap example_token (V4 [127, 0, 0, 1]) = Ok [0x40, 0, 1, 2]"
  "parse_udp_safe_response Coap [0x40, 0, 1, 2] [0x70, 0, 1, 2]
     = Ok \<lparr>match_family = 6, match_confidence = 3, match_metadata = [1, 4, 0, 67, 111, 65, 80, 0, 0, 0]\<rparr>"
  by (simp_all add: build_udp_safe_request_def example_token_def parse_udp_safe_response_def parse_safe_def parse_coap_def
      byte_at_def slice_def encode_metadata_def encode_text_def demand_some_def try_from_def max_of_def record_bounds ascii_def
      le_of_nat_2 Let_def)

lemma pcp_exchange: "parse_udp_safe_response Pcp [] pcp_answer =
    Ok \<lparr>match_family = 9, match_confidence = 2,
        match_metadata = [1, 3, 0, 80, 67, 80, 2, 0, 118, 50, 2, 4, 0, 1, 0, 55, 1, 0, 1, 0, 48]\<rparr>"
  by (simp add: parse_udp_safe_response_def parse_safe_def parse_pcp_def pcp_answer_def be32_def decimal.simps
      byte_at_def slice_def encode_metadata_def encode_text_def demand_some_def try_from_def max_of_def record_bounds ascii_def
      le_of_nat_2 Let_def)

section \<open>Claims\<close>

text \<open>
  C8. No response and no request, however hostile, makes a safe-profile parser panic: every
  index and slice is in range and every loop ends; and building a request always succeeds.
\<close>

theorem safe_codecs_never_panic:
  "parse_udp_safe_response probe request response \<noteq> Err Crash \<and>
   is_ok (build_udp_safe_request probe token source)"
  using parses_no_crash [OF parses_response] build_total [of probe token source] by (auto simp: is_ok_iff)

text \<open>
  C9. An accepted response is reported as correlated with the transaction (confidence 3) exactly
  when it repeats the token of the request at the place the protocol has for it; for SNMP this
  goes through the encoding and decoding of the message. Every accepted response is of this
  kind except those of port-control servers, which are reported as parsed only (confidence 2).
\<close>

theorem safe_response_correlated:
  assumes "build_udp_safe_request probe token source = Ok request" and "length token = 16"
    and "parse_udp_safe_response probe request response = Ok m"
  shows "match_family m = service_family probe
    \<and> (match_confidence m = 3 \<longleftrightarrow> echoes probe token response)
    \<and> match_confidence m = (if probe = Pcp then 2 else 3)"
proof -
  obtain p where p: "parse_safe probe request response = Ok p" "fst p = match_confidence m" "match_family m = service_family probe"
    using assms(3) by (auto simp: parse_udp_safe_response_def result_simps)
  have "fst p = (if probe = Pcp then 2 else 3)"
    using p(1) by (cases probe) (auto simp: parse_safe_def parse_dns_def parse_ntp_def parse_rpcbind_def parse_stun_def
        parse_coap_def parse_asf_def parse_memcached_def parse_snmpv3_def parse_pcp_def result_simps Let_def split: if_splits)
  moreover have "echoes probe token response \<longleftrightarrow> probe \<noteq> Pcp"
    using parse_safe_echoes [OF assms(1,2) p(1)] by (auto simp: echoes_def)
  ultimately show ?thesis using p(2,3) by simp
qed

theorem safe_response_correlated_witness: "echoes Coap example_token [0x70, 0, 1, 2]"
  using safe_response_correlated [OF coap_exchange(1) _ coap_exchange(2)] by (simp add: example_token_def)

text \<open>
  C10. Every service record of an accepted response is one the consumer accepts, except those
  of port-control servers: their parser lists field 4 before field 1, and the consumer
  refuses records whose fields are not in increasing order.
\<close>

theorem safe_record_accepted_iff:
  assumes "parse_udp_safe_response probe request response = Ok m"
  shows "validateServiceMetadataRecord (match_metadata m) = Ok () \<longleftrightarrow> probe \<noteq> Pcp"
  using parses_Ok [OF parses_response assms] by simp

theorem safe_record_accepted_iff_witness:
  "validateServiceMetadataRecord [1, 4, 0, 67, 111, 65, 80, 0, 0, 0] = Ok () \<and>
   validateServiceMetadataRecord [1, 3, 0, 80, 67, 80, 2, 0, 118, 50, 2, 4, 0, 1, 0, 55, 1, 0, 1, 0, 48] \<noteq> Ok ()"
  using safe_record_accepted_iff [OF coap_exchange(2)] safe_record_accepted_iff [OF pcp_exchange] by simp

end
