(* ===== verification/Result_Batch.thy ===== *)
theory Result_Batch
  imports Result_Queue Service_Record
begin

text \<open>
  The columnar result batch: \<^verbatim>\<open>seal_result_batch\<close> in \<^verbatim>\<open>nodenetscanner-native/src/session.rs\<close>
  writes it, \<^verbatim>\<open>ScanResultBatch\<close> in \<^verbatim>\<open>packages/nodenetscanner/src/index.ts\<close> validates it and decodes
  its rows. The columns are byte buffers; the optional ones of schema 2 arrive as absent
  properties when they are \<^verbatim>\<open>None\<close>.
\<close>

section \<open>Sealing\<close>

definition MISSING_U64 :: nat where "MISSING_U64 = max_of 64"

record SealedScanResultBatch =
  b_schema_version :: nat
  row_count :: nat
  address_bytes :: "u8 list"
  address_offsets :: "u8 list"
  families :: "u8 list"
  scopes :: "u8 list"
  probes :: "u8 list"
  ports :: "u8 list"
  states :: "u8 list"
  outcomes :: "u8 list"
  b_attempts :: "u8 list"
  b_transmissions :: "u8 list"
  rtt_nanoseconds :: "u8 list"
  timestamps_nanoseconds :: "u8 list"
  route_generations :: "u8 list"
  evidence :: "u8 list"
  metadata_bytes :: "u8 list"
  metadata_offsets :: "u8 list"
  terminal_udp_probe_ids :: "u8 list option"
  udp_variants_attempted :: "u8 list option"
  udp_response_kinds :: "u8 list option"
  udp_service_families :: "u8 list option"
  udp_service_confidences :: "u8 list option"
  service_metadata_bytes :: "u8 list option"
  service_metadata_offsets :: "u8 list option"

definition push_u16 :: "nat \<Rightarrow> u8 list \<Rightarrow> u8 list" where "push_u16 v out = out @ le_of_nat 2 v"
definition push_u32 :: "nat \<Rightarrow> u8 list \<Rightarrow> u8 list" where "push_u32 v out = out @ le_of_nat 4 v"
definition push_u64 :: "nat \<Rightarrow> u8 list \<Rightarrow> u8 list" where "push_u64 v out = out @ le_of_nat 8 v"

fun probe_code :: "ProbeFamily \<Rightarrow> nat" where
  "probe_code Arp = 1"
| "probe_code Ndp = 2"
| "probe_code Icmpv4Echo = 3"
| "probe_code Icmpv6Echo = 4"
| "probe_code TcpSyn = 5"
| "probe_code Udp = 6"

fun network_state_code :: "NetworkState \<Rightarrow> nat" where
  "network_state_code Open = 1"
| "network_state_code ClosedPort = 2"
| "network_state_code Filtered = 3"
| "network_state_code OpenOrFiltered = 4"
| "network_state_code Up = 5"
| "network_state_code Unreachable = 6"
| "network_state_code Unknown = 7"
| "network_state_code DownByPolicy = 8"

fun outcome_code :: "ProbeOutcome \<Rightarrow> nat" where
  "outcome_code (Network _) = 1"
| "outcome_code OutcomeCancelled = 2"
| "outcome_code OutcomeSessionDeadline = 3"
| "outcome_code TransportFailed = 4"
| "outcome_code ContextInvalidated = 5"

fun evidence_code :: "EvidenceStrength \<Rightarrow> nat" where
  "evidence_code TupleCorrelatedUnauthenticated = 1"
| "evidence_code TruncatedQuote = 2"
| "evidence_code StrongTcpSequence32 = 3"
| "evidence_code StrongPayload128 = 4"
| "evidence_code ProtocolTransaction16 = 5"
| "evidence_code ProtocolTransaction32 = 6"
| "evidence_code ProtocolTransaction64 = 7"
| "evidence_code AlternateEndpointHandshake = 8"

fun response_kind_code :: "UdpResponseKind \<Rightarrow> nat" where
  "response_kind_code NoResponse = 0"
| "response_kind_code DirectUdp = 1"
| "response_kind_code Icmpv4TargetPortUnreachable = 2"
| "response_kind_code OtherIcmpv4 = 3"
| "response_kind_code Icmpv6TargetPortUnreachable = 4"
| "response_kind_code Icmpv6ParameterProblem = 5"
| "response_kind_code OtherIcmpv6 = 6"
| "response_kind_code Silence = 7"

text \<open>The derived \<^verbatim>\<open>Debug\<close> text of an evidence kind is the name of its variant.\<close>

fun evidence_kind_name :: "EvidenceKind \<Rightarrow> string" where
  "evidence_kind_name TcpSynAcknowledgment = ''TcpSynAcknowledgment''"
| "evidence_kind_name TcpReset = ''TcpReset''"
| "evidence_kind_name EchoReply = ''EchoReply''"
| "evidence_kind_name UdpReply = ''UdpReply''"
| "evidence_kind_name UdpServiceHint = ''UdpServiceHint''"
| "evidence_kind_name IcmpPortUnreachable = ''IcmpPortUnreachable''"
| "evidence_kind_name IcmpOtherError = ''IcmpOtherError''"
| "evidence_kind_name ExplicitUnreachable = ''ExplicitUnreachable''"
| "evidence_kind_name ArpReply = ''ArpReply''"
| "evidence_kind_name NeighborAdvertisement = ''NeighborAdvertisement''"
| "evidence_kind_name NeighborResolved = ''NeighborResolved''"

fun reason_name :: "TerminalReason \<Rightarrow> Text" where
  "reason_name (ReasonEvidence k) = ascii ''evidence:'' @ ascii (evidence_kind_name k)"
| "reason_name Timeout = ascii ''timeout''"
| "reason_name ReasonCancelled = ascii ''cancelled''"
| "reason_name ReasonSessionDeadline = ascii ''deadline''"
| "reason_name (TransportFailure code) = ascii ''transport:'' @ decimal code"
| "reason_name ReasonContextInvalidated = ascii ''contextInvalidated''"

text \<open>\<^verbatim>\<open>u32::try_from(len).unwrap_or(u32::MAX)\<close>.\<close>

definition offset_of :: "nat \<Rightarrow> nat" where
  "offset_of n = (case try_from 32 n of None \<Rightarrow> max_of 32 | Some m \<Rightarrow> m)"

definition row_service :: "ScanResult \<Rightarrow> UdpServiceEvidence option" where
  "row_service v = (case udp v of None \<Rightarrow> None | Some u \<Rightarrow> result_service u)"

definition row_metadata :: "ScanResult \<Rightarrow> u8 list" where
  "row_metadata v = (case row_service v of None \<Rightarrow> [] | Some s \<Rightarrow> metadata s)"

definition row_terminal_id :: "ScanResult \<Rightarrow> nat" where
  "row_terminal_id v = (case udp v of None \<Rightarrow> 0 | Some u \<Rightarrow> case terminal_probe_id u of None \<Rightarrow> 0 | Some i \<Rightarrow> i)"

definition row_variants :: "ScanResult \<Rightarrow> nat" where
  "row_variants v = (case udp v of None \<Rightarrow> 0 | Some u \<Rightarrow> variants_attempted u)"

definition row_response_kind :: "ScanResult \<Rightarrow> nat" where
  "row_response_kind v = (case udp v of None \<Rightarrow> 0 | Some u \<Rightarrow> response_kind_code (result_response_kind u))"

definition row_family :: "ScanResult \<Rightarrow> nat" where
  "row_family v = (case row_service v of None \<Rightarrow> 0 | Some s \<Rightarrow> service_evidence_family s)"

definition row_confidence :: "ScanResult \<Rightarrow> nat" where
  "row_confidence v = (case row_service v of None \<Rightarrow> 0 | Some s \<Rightarrow> confidence_code (confidence s))"

text \<open>One iteration of the loop over the rows.\<close>

definition seal_row :: "nat \<Rightarrow> SealedScanResultBatch \<Rightarrow> ScanResult \<Rightarrow> SealedScanResultBatch" where
  "seal_row schema b v =
     (let p = result_probe v; a = target_address (target p); address' = address_bytes b @ octets a;
          b = b\<lparr>families := families b @ [if is_V4_addr a then 4 else 6], address_bytes := address',
                address_offsets := push_u32 (offset_of (length address')) (address_offsets b)\<rparr>;
          b = (if schema = 2 then
            let service' = map_option (\<lambda>c. c @ row_metadata v) (service_metadata_bytes b)
            in b\<lparr>terminal_udp_probe_ids := map_option (push_u16 (row_terminal_id v)) (terminal_udp_probe_ids b),
                 udp_variants_attempted := map_option (push_u16 (row_variants v)) (udp_variants_attempted b),
                 udp_response_kinds := map_option (\<lambda>c. c @ [word_of_nat (row_response_kind v)]) (udp_response_kinds b),
                 udp_service_families := map_option (push_u16 (row_family v)) (udp_service_families b),
                 udp_service_confidences := map_option (\<lambda>c. c @ [word_of_nat (row_confidence v)]) (udp_service_confidences b),
                 service_metadata_bytes := service',
                 service_metadata_offsets :=
                   map_option (push_u32 (offset_of (case service' of None \<Rightarrow> 0 | Some c \<Rightarrow> length c))) (service_metadata_offsets b)\<rparr>
            else b);
          reasons' = metadata_bytes b @ reason_name (terminal_reason v)
      in b\<lparr>scopes := push_u32 (case target_scope (target p) of None \<Rightarrow> 0 | Some z \<Rightarrow> z) (scopes b),
           probes := probes b @ [word_of_nat (probe_code (family p))],
           ports := push_u16 (case port p of None \<Rightarrow> 0 | Some n \<Rightarrow> n) (ports b),
           states := states b @ [word_of_nat (case outcome v of Network s \<Rightarrow> network_state_code s | _ \<Rightarrow> 0)],
           outcomes := outcomes b @ [word_of_nat (outcome_code (outcome v))],
           b_attempts := push_u32 (result_attempt v) (b_attempts b),
           b_transmissions := push_u32 (transmissions v) (b_transmissions b),
           rtt_nanoseconds := push_u64 (case result_rtt v of None \<Rightarrow> MISSING_U64 | Some d \<Rightarrow> saturating_mul 64 d 1000) (rtt_nanoseconds b),
           timestamps_nanoseconds := push_u64 (saturating_mul 64 (terminal_at v) 1000) (timestamps_nanoseconds b),
           route_generations := push_u64 (route_generation v) (route_generations b),
           evidence := evidence b @ [word_of_nat (case evidence_strength v of None \<Rightarrow> 0 | Some e \<Rightarrow> evidence_code e)],
           metadata_bytes := reasons',
           metadata_offsets := push_u32 (offset_of (length reasons')) (metadata_offsets b)\<rparr>)"

definition empty_batch :: "nat \<Rightarrow> nat \<Rightarrow> SealedScanResultBatch" where
  "empty_batch n schema =
     (let col = (if schema = 2 then Some [] else None)
      in \<lparr>b_schema_version = schema, row_count = offset_of n, address_bytes = [], address_offsets = push_u32 0 [],
          families = [], scopes = [], probes = [], ports = [], states = [], outcomes = [], b_attempts = [],
          b_transmissions = [], rtt_nanoseconds = [], timestamps_nanoseconds = [], route_generations = [],
          evidence = [], metadata_bytes = [], metadata_offsets = push_u32 0 [], terminal_udp_probe_ids = col,
          udp_variants_attempted = col, udp_response_kinds = col, udp_service_families = col,
          udp_service_confidences = col, service_metadata_bytes = col,
          service_metadata_offsets = (if schema = 2 then Some (push_u32 0 []) else None)\<rparr>)"

definition seal_result_batch :: "ScanResult list \<Rightarrow> nat \<Rightarrow> nat \<Rightarrow> SealedScanResultBatch" where
  "seal_result_batch rows n schema = foldl (seal_row schema) (empty_batch n schema) rows"

text \<open>Handing the columns to JavaScript as buffers.\<close>

record NativeScanResultBatch =
  native_byte_order :: string
  native_columns :: SealedScanResultBatch

definition from_sealed :: "SealedScanResultBatch \<Rightarrow> NativeScanResultBatch" where
  "from_sealed b = \<lparr>native_byte_order = ''little-endian'', native_columns = b\<rparr>"

text \<open>\<^verbatim>\<open>ResultQueue::take\<close>: the drained rows leave the queue as one sealed batch.\<close>

definition queue_take_batch :: "nat \<Rightarrow> QueueSink \<Rightarrow> SealedScanResultBatch option \<times> QueueSink" where
  "queue_take_batch maximum k =
     map_prod (map_option (\<lambda>rows. seal_result_batch rows (length rows) (schema_version (q_queue k)))) id
       (queue_take maximum k)"

section \<open>Validation by the consumer\<close>

definition MAX_BATCH_RESULTS :: nat where "MAX_BATCH_RESULTS = 4096"
definition MAX_BATCH_METADATA_BYTES :: nat where "MAX_BATCH_METADATA_BYTES = 4 * 1024 * 1024"

text \<open>\<^verbatim>\<open>DataView.getUint16/32\<close> and \<^verbatim>\<open>getBigUint64\<close>, little-endian.\<close>

definition get_le :: "nat \<Rightarrow> u8 list \<Rightarrow> nat \<Rightarrow> nat js" where
  "get_le w column at =
     (if at + w \<le> length column then Ok (nat_of_le (take w (drop at column)))
      else Err ''Offset is outside the bounds of the DataView'')"

definition v2_columns :: "SealedScanResultBatch \<Rightarrow> u8 list option list" where
  "v2_columns b = [terminal_udp_probe_ids b, udp_variants_attempted b, udp_response_kinds b, udp_service_families b,
     udp_service_confidences b, service_metadata_bytes b, service_metadata_offsets b]"

definition snapshotEncodedBatch :: "NativeScanResultBatch \<Rightarrow> SealedScanResultBatch js" where
  "snapshotEncodedBatch value =
     (let b = native_columns value
      in if native_byte_order value \<noteq> ''little-endian'' then Err ''unsupported scan result batch byte order''
      else if b_schema_version b = 1 then
        if list_ex (\<lambda>c. c \<noteq> None) (v2_columns b) then Err ''schema 1 batch contains schema 2 columns'' else Ok b
      else if b_schema_version b \<noteq> 2 then Err ''unsupported scan result batch schema version''
      else if list_ex (\<lambda>c. c = None) (v2_columns b) then Err ''schema 2 requires a column'' else Ok b)"

fun offsets_loop :: "u8 list \<Rightarrow> nat \<Rightarrow> nat list \<Rightarrow> nat \<Rightarrow> nat js" where
  "offsets_loop offsets bytes [] previous = Ok previous"
| "offsets_loop offsets bytes (index # is) previous =
     rbind (get_le 4 offsets (index * 4)) (\<lambda>current.
       if current < previous \<or> current > bytes \<or> (index = 0 \<and> current \<noteq> 0)
       then Err ''offsets are not bounded and monotonic''
       else offsets_loop offsets bytes is current)"

definition validateOffsets :: "u8 list \<Rightarrow> nat \<Rightarrow> nat \<Rightarrow> unit js" where
  "validateOffsets offsets rows bytes =
     (if length offsets \<noteq> (rows + 1) * 4 then Err ''offsets have an invalid length''
      else rbind (offsets_loop offsets bytes [0..<rows + 1] 0) (\<lambda>previous.
        if previous \<noteq> bytes then Err ''offsets do not cover their storage'' else Ok ()))"

text \<open>The family, confidence and record of one row agree.\<close>

definition validate_service_row ::
  "u8 list \<Rightarrow> u8 list \<Rightarrow> u8 list \<Rightarrow> u8 list \<Rightarrow> nat \<Rightarrow> unit js" where
  "validate_service_row service_families confidences bytes offsets row =
     rbind (get_le 2 service_families (row * 2)) (\<lambda>family.
     let confidence = (if row < length confidences then unat (confidences ! row) else 0)
     in rbind (get_le 4 offsets (row * 4)) (\<lambda>start. rbind (get_le 4 offsets ((row + 1) * 4)) (\<lambda>finish.
       let record = take (finish - start) (drop start bytes)
       in if record = [] then
            if family \<noteq> 0 \<or> confidence \<noteq> 0 then Err ''UDP service identity requires a service metadata record'' else Ok ()
          else if family = 0 \<or> confidence = 0 then Err ''UDP service metadata requires family and confidence''
          else validateServiceMetadataRecord record)))"

definition validateSchema2Values :: "SealedScanResultBatch \<Rightarrow> unit js" where
  "validateSchema2Values b =
     (if list_ex (\<lambda>x. unat x > 7) (the (udp_response_kinds b)) then Err ''UDP response-kind code is invalid''
      else if list_ex (\<lambda>x. unat x > 3) (the (udp_service_confidences b)) then Err ''UDP service-confidence code is invalid''
      else if list_ex (\<lambda>x. unat x > 8) (evidence b) then Err ''evidence code is invalid''
      else rbind (rmap (validate_service_row (the (udp_service_families b)) (the (udp_service_confidences b))
             (the (service_metadata_bytes b)) (the (service_metadata_offsets b))) [0..<row_count b]) (\<lambda>_. Ok ()))"

definition validateEncodedBatch :: "SealedScanResultBatch \<Rightarrow> unit js" where
  "validateEncodedBatch b =
     (let n = row_count b
      in if n < 1 \<or> n > MAX_BATCH_RESULTS then Err ''scan result batch row count is out of range''
         else if length (metadata_bytes b) > MAX_BATCH_METADATA_BYTES then Err ''scan result batch metadata exceeds 4 MiB''
         else if length (address_bytes b) < n * 4 \<or> length (address_bytes b) > n * 16
         then Err ''scan result address storage is out of range''
         else if list_ex (\<lambda>(column, width). length column \<noteq> n * width)
             [(families b, 1), (scopes b, 4), (probes b, 1), (ports b, 2), (states b, 1), (outcomes b, 1), (b_attempts b, 4),
              (b_transmissions b, 4), (rtt_nanoseconds b, 8), (timestamps_nanoseconds b, 8), (route_generations b, 8),
              (evidence b, 1)]
         then Err ''column has an invalid length''
         else if b_schema_version b = 1 \<and> list_ex (\<lambda>x. unat x > 4) (evidence b) then Err ''evidence code is invalid''
         else rbind (if b_schema_version b = 2 then
              if list_ex (\<lambda>(column, width). length (the column) \<noteq> n * width)
                  [(terminal_udp_probe_ids b, 2), (udp_variants_attempted b, 2), (udp_response_kinds b, 1),
                   (udp_service_families b, 2), (udp_service_confidences b, 1)]
              then Err ''column has an invalid length''
              else if length (the (service_metadata_bytes b)) > MAX_BATCH_METADATA_BYTES
              then Err ''scan result service metadata exceeds 4 MiB''
              else rbind (validateOffsets (the (service_metadata_offsets b)) n (length (the (service_metadata_bytes b))))
                (\<lambda>_. validateSchema2Values b)
            else Ok ()) (\<lambda>_.
         rbind (validateOffsets (address_offsets b) n (length (address_bytes b))) (\<lambda>_.
           validateOffsets (metadata_offsets b) n (length (metadata_bytes b)))))"

text \<open>The constructor; copying the columns keeps their bytes, so the second validation is the first.\<close>

definition ScanResultBatch_new :: "NativeScanResultBatch \<Rightarrow> SealedScanResultBatch js" where
  "ScanResultBatch_new encoded =
     rbind (snapshotEncodedBatch encoded) (\<lambda>owned. rbind (validateEncodedBatch owned) (\<lambda>_. Ok owned))"

section \<open>Lazy decoding of rows\<close>

definition assertAttached :: "SealedScanResultBatch \<Rightarrow> unit js" where
  "assertAttached b =
     (if length (families b) = 0 then Err ''batch storage has been transferred or detached'' else Ok ())"

definition assertIndex :: "SealedScanResultBatch \<Rightarrow> nat \<Rightarrow> unit js" where
  "assertIndex b index =
     rbind (assertAttached b) (\<lambda>_.
       if index \<ge> row_count b then Err ''scan result index is out of range'' else Ok ())"

definition dataView :: "SealedScanResultBatch \<Rightarrow> u8 list \<Rightarrow> nat \<Rightarrow> bool \<Rightarrow> u8 list js" where
  "dataView b column width offset_column =
     rbind (if \<not> offset_column then assertAttached b else Ok ()) (\<lambda>_.
       if length column \<noteq> (if offset_column then row_count b + 1 else row_count b) * width
       then Err ''column has an invalid length'' else Ok column)"

definition byteAt :: "SealedScanResultBatch \<Rightarrow> u8 list \<Rightarrow> nat \<Rightarrow> nat js" where
  "byteAt b column index =
     rbind (assertIndex b index) (\<lambda>_.
       if index < length column then Ok (unat (column ! index)) else Err ''column is truncated'')"

definition u16At :: "SealedScanResultBatch \<Rightarrow> u8 list \<Rightarrow> nat \<Rightarrow> nat js" where
  "u16At b column index = rbind (dataView b column 2 False) (\<lambda>view. get_le 2 view (index * 2))"

definition u32At :: "SealedScanResultBatch \<Rightarrow> u8 list \<Rightarrow> nat \<Rightarrow> nat js" where
  "u32At b column index = rbind (dataView b column 4 False) (\<lambda>view. get_le 4 view (index * 4))"

definition u64At :: "SealedScanResultBatch \<Rightarrow> u8 list \<Rightarrow> nat \<Rightarrow> nat js" where
  "u64At b column index = rbind (dataView b column 8 False) (\<lambda>view. get_le 8 view (index * 8))"

definition offsetAt :: "SealedScanResultBatch \<Rightarrow> u8 list \<Rightarrow> nat \<Rightarrow> nat js" where
  "offsetAt b column index = rbind (dataView b column 4 True) (\<lambda>view. get_le 4 view (index * 4))"

definition non_zero :: "nat \<Rightarrow> nat option" where
  "non_zero v = (if v = 0 then None else Some v)"

definition udpU16At :: "SealedScanResultBatch \<Rightarrow> u8 list option \<Rightarrow> nat \<Rightarrow> nat option js" where
  "udpU16At b column index =
     rbind (assertIndex b index) (\<lambda>_.
       if terminal_udp_probe_ids b = None then Ok None
       else rbind (get_le 2 (the column) (index * 2)) (\<lambda>v. Ok (non_zero v)))"

definition udpCountAt :: "SealedScanResultBatch \<Rightarrow> u8 list option \<Rightarrow> nat \<Rightarrow> nat option js" where
  "udpCountAt b column index =
     rbind (assertIndex b index) (\<lambda>_.
       if terminal_udp_probe_ids b = None then Ok None
       else rbind (get_le 2 (the column) (index * 2)) (\<lambda>v. Ok (Some v)))"

definition udpByteAt :: "SealedScanResultBatch \<Rightarrow> u8 list option \<Rightarrow> nat \<Rightarrow> nat option js" where
  "udpByteAt b column index =
     rbind (assertIndex b index) (\<lambda>_.
       if terminal_udp_probe_ids b = None then Ok None
       else if index < length (the column) then Ok (non_zero (unat (the column ! index)))
       else Err ''column is truncated'')"

definition serviceMetadataAt :: "SealedScanResultBatch \<Rightarrow> nat \<Rightarrow> UdpServiceMetadata option js" where
  "serviceMetadataAt b index =
     rbind (assertIndex b index) (\<lambda>_.
       if terminal_udp_probe_ids b = None then Ok None
       else rbind (get_le 4 (the (service_metadata_offsets b)) (index * 4)) (\<lambda>start.
         rbind (get_le 4 (the (service_metadata_offsets b)) ((index + 1) * 4)) (\<lambda>finish.
           if start = finish then Ok None
           else rbind (decodeServiceMetadataRecord (take (finish - start) (drop start (the (service_metadata_bytes b)))))
             (\<lambda>m. Ok (Some m)))))"

subsection \<open>Texts\<close>

fun join :: "u8 list \<Rightarrow> Text list \<Rightarrow> Text" where
  "join separator [] = []"
| "join separator [t] = t"
| "join separator (t # ts) = t @ separator @ join separator ts"

text \<open>JavaScript's \<^verbatim>\<open>toString(16)\<close>.\<close>

definition hex_digit :: "nat \<Rightarrow> u8" where
  "hex_digit d = word_of_nat (if d < 10 then 48 + d else 87 + d)"

fun hexadecimal :: "nat \<Rightarrow> Text" where
  "hexadecimal n = (if n < 16 then [hex_digit n] else hexadecimal (n div 16) @ [hex_digit (n mod 16)])"

declare hexadecimal.simps [simp del]

definition ipv4String :: "u8 list \<Rightarrow> Text" where
  "ipv4String bytes = join (ascii ''.'') (map (\<lambda>b. decimal (unat b)) bytes)"

definition ipv6_groups :: "u8 list \<Rightarrow> nat list" where
  "ipv6_groups bytes = map (\<lambda>i. byte_or_zero bytes (i * 2) * 256 + byte_or_zero bytes (i * 2 + 1)) [0..<8]"

text \<open>The inner \<^verbatim>\<open>while\<close> of \<^verbatim>\<open>ipv6String\<close>, and its outer loop; \<^verbatim>\<open>bestStart = -1\<close> is the length 0.\<close>

function zero_end :: "nat list \<Rightarrow> nat \<Rightarrow> nat" where
  "zero_end groups finish =
     (if finish < length groups \<and> groups ! finish = 0 then zero_end groups (finish + 1) else finish)"
  by pat_completeness auto
termination by (relation "measure (\<lambda>(groups, finish). length groups - finish)") auto

declare zero_end.simps [simp del]

lemma zero_end_ge: "finish \<le> zero_end groups finish"
  by (induction groups finish rule: zero_end.induct) (subst zero_end.simps, auto)

function best_run :: "nat list \<Rightarrow> nat \<Rightarrow> nat \<Rightarrow> nat \<Rightarrow> nat \<times> nat" where
  "best_run groups start best_start best_length =
     (if \<not> start < length groups then (best_start, best_length)
      else if groups ! start \<noteq> 0 then best_run groups (start + 1) best_start best_length
      else let finish = zero_end groups (start + 1)
           in if finish - start > best_length \<and> finish - start \<ge> 2
              then best_run groups finish start (finish - start)
              else best_run groups finish best_start best_length)"
  by pat_completeness auto
termination
proof (relation "measure (\<lambda>(groups, start, _). length groups - start)", goal_cases)
  case (3 groups start best_start best_length finish)
  then show ?case using zero_end_ge [of "start + 1" groups] by auto
next
  case (4 groups start best_start best_length finish)
  then show ?case using zero_end_ge [of "start + 1" groups] by auto
qed auto

declare best_run.simps [simp del]

definition ipv6String :: "u8 list \<Rightarrow> Text" where
  "ipv6String bytes =
     (let groups = ipv6_groups bytes; colon = ascii '':''
      in case best_run groups 0 0 0 of (best_start, best_length) \<Rightarrow>
        if best_length = 0 then join colon (map hexadecimal groups)
        else join colon (map hexadecimal (take best_start groups)) @ colon @ colon
           @ join colon (map hexadecimal (drop (best_start + best_length) groups)))"

definition targetAt :: "SealedScanResultBatch \<Rightarrow> nat \<Rightarrow> Text js" where
  "targetAt b index =
     rbind (assertIndex b index) (\<lambda>_.
     rbind (offsetAt b (address_offsets b) index) (\<lambda>start.
     rbind (offsetAt b (address_offsets b) (index + 1)) (\<lambda>finish.
       let family = (if index < length (families b) then unat (families b ! index) else 0);
           expected = (if family = 4 then 4 else if family = 6 then 16 else 0)
       in if expected = 0 \<or> finish \<noteq> start + expected \<or> finish > length (address_bytes b)
          then Err ''address family or offset is invalid''
          else let bytes = take (finish - start) (drop start (address_bytes b));
                   address = (if family = 4 then ipv4String bytes else ipv6String bytes)
               in rbind (u32At b (scopes b) index) (\<lambda>scope.
                    Ok (if scope = 0 then address else address @ ascii ''%'' @ decimal scope)))))"

definition metadataAt :: "SealedScanResultBatch \<Rightarrow> nat \<Rightarrow> Text js" where
  "metadataAt b index =
     rbind (assertIndex b index) (\<lambda>_.
     rbind (offsetAt b (metadata_offsets b) index) (\<lambda>start.
     rbind (offsetAt b (metadata_offsets b) (index + 1)) (\<lambda>finish.
       if finish < start \<or> finish > length (metadata_bytes b) then Err ''metadata offset is invalid''
       else case text_decode (take (finish - start) (drop start (metadata_bytes b))) of
           None \<Rightarrow> Err ''metadata is not valid UTF-8'' | Some t \<Rightarrow> Ok t)))"

subsection \<open>Names\<close>

text \<open>Indexing a table of names whose entry 0 is \<^verbatim>\<open>undefined\<close>.\<close>

definition name_of :: "string list \<Rightarrow> nat \<Rightarrow> string option" where
  "name_of names v = (if v = 0 \<or> v > length names then None else Some (names ! (v - 1)))"

definition decodeUdpResponseKind :: "nat option \<Rightarrow> string option" where
  "decodeUdpResponseKind v =
     name_of [''directUdp'', ''icmpv4TargetPortUnreachable'', ''otherIcmpv4'', ''icmpv6TargetPortUnreachable'',
       ''icmpv6ParameterProblem'', ''otherIcmpv6'', ''silence''] (case v of None \<Rightarrow> 0 | Some x \<Rightarrow> x)"

definition decodeUdpServiceConfidence :: "nat option \<Rightarrow> string option" where
  "decodeUdpServiceConfidence v =
     name_of [''signature'', ''parsed'', ''transactionCorrelated''] (case v of None \<Rightarrow> 0 | Some x \<Rightarrow> x)"

definition decodeProbe :: "nat \<Rightarrow> string js" where
  "decodeProbe v =
     (case name_of [''arp'', ''ndp'', ''icmpEchoIpv4'', ''icmpEchoIpv6'', ''tcpSyn'', ''udp''] v of
        None \<Rightarrow> Err ''probe code is invalid'' | Some s \<Rightarrow> Ok s)"

definition decodeState :: "nat \<Rightarrow> string option js" where
  "decodeState v =
     (let decoded = name_of [''open'', ''closed'', ''filtered'', ''open|filtered'', ''up'', ''unreachable'', ''unknown'',
            ''downByPolicy''] v
      in if v \<noteq> 0 \<and> decoded = None then Err ''network-state code is invalid'' else Ok decoded)"

definition decodeOutcome :: "nat \<Rightarrow> string js" where
  "decodeOutcome v =
     (case name_of [''network'', ''cancelled'', ''deadline'', ''transportFailed'', ''contextInvalidated''] v of
        None \<Rightarrow> Err ''outcome code is invalid'' | Some s \<Rightarrow> Ok s)"

definition decodeEvidence :: "nat \<Rightarrow> string option js" where
  "decodeEvidence v =
     (let decoded = name_of [''tuple'', ''truncatedQuote'', ''tcpSequence32'', ''payload128'', ''transaction16'',
            ''transaction32'', ''transaction64'', ''alternateEndpoint''] v
      in if v \<noteq> 0 \<and> decoded = None then Err ''evidence code is invalid'' else Ok decoded)"

subsection \<open>Rows\<close>

text \<open>The plain object that \<^verbatim>\<open>materialize\<close> builds; an absent property is \<^verbatim>\<open>None\<close>.\<close>

record JsScanResult =
  js_target :: Text
  js_probe :: string
  js_port :: "nat option"
  js_state :: "string option"
  js_outcome :: string
  js_attempt :: nat
  js_transmissions :: nat
  js_rttNanoseconds :: "nat option"
  js_rttMicros :: "nat option"
  js_timestampNanoseconds :: nat
  js_routeGeneration :: nat
  js_evidence :: "string option"
  js_reason :: Text
  js_udpTerminalProbeId :: "nat option"
  js_udpVariantsAttempted :: "nat option"
  js_udpResponseKind :: "string option"
  js_udpServiceFamily :: "nat option"
  js_udpServiceConfidence :: "string option"
  js_udpService :: "UdpServiceMetadata option"

definition view_probe :: "SealedScanResultBatch \<Rightarrow> nat \<Rightarrow> string js" where
  "view_probe b i = rbind (byteAt b (probes b) i) decodeProbe"

definition view_port :: "SealedScanResultBatch \<Rightarrow> nat \<Rightarrow> nat option js" where
  "view_port b i = rbind (u16At b (ports b) i) (\<lambda>v. Ok (non_zero v))"

definition view_rttNanoseconds :: "SealedScanResultBatch \<Rightarrow> nat \<Rightarrow> nat option js" where
  "view_rttNanoseconds b i =
     rbind (u64At b (rtt_nanoseconds b) i) (\<lambda>v. Ok (if v = MISSING_U64 then None else Some v))"

definition view_udpVariantsAttempted :: "SealedScanResultBatch \<Rightarrow> nat \<Rightarrow> nat option js" where
  "view_udpVariantsAttempted b i =
     rbind (view_probe b i) (\<lambda>p. if p = ''udp'' then udpCountAt b (udp_variants_attempted b) i else Ok None)"

definition view_materialize :: "SealedScanResultBatch \<Rightarrow> nat \<Rightarrow> JsScanResult js" where
  "view_materialize b i =
     rbind (view_port b i) (\<lambda>port.
     rbind (rbind (byteAt b (states b) i) decodeState) (\<lambda>state.
     rbind (view_rttNanoseconds b i) (\<lambda>rtt.
     rbind (rbind (byteAt b (evidence b) i) decodeEvidence) (\<lambda>strength.
     rbind (udpU16At b (terminal_udp_probe_ids b) i) (\<lambda>terminal.
     rbind (view_udpVariantsAttempted b i) (\<lambda>variants.
     rbind (udpByteAt b (udp_response_kinds b) i) (\<lambda>response.
     rbind (udpU16At b (udp_service_families b) i) (\<lambda>family.
     rbind (udpByteAt b (udp_service_confidences b) i) (\<lambda>confidence.
     rbind (serviceMetadataAt b i) (\<lambda>service.
     rbind (targetAt b i) (\<lambda>target.
     rbind (view_probe b i) (\<lambda>probe.
     rbind (rbind (byteAt b (outcomes b) i) decodeOutcome) (\<lambda>outcome.
     rbind (u32At b (b_attempts b) i) (\<lambda>attempt.
     rbind (u32At b (b_transmissions b) i) (\<lambda>transmissions.
     rbind (u64At b (timestamps_nanoseconds b) i) (\<lambda>timestamp.
     rbind (u64At b (route_generations b) i) (\<lambda>generation.
     rbind (metadataAt b i) (\<lambda>reason.
       Ok \<lparr>js_target = target, js_probe = probe, js_port = port, js_state = state, js_outcome = outcome,
           js_attempt = attempt, js_transmissions = transmissions, js_rttNanoseconds = rtt,
           js_rttMicros = map_option (\<lambda>n. n div 1000) rtt, js_timestampNanoseconds = timestamp,
           js_routeGeneration = generation, js_evidence = strength, js_reason = reason,
           js_udpTerminalProbeId = terminal, js_udpVariantsAttempted = variants,
           js_udpResponseKind = decodeUdpResponseKind response, js_udpServiceFamily = family,
           js_udpServiceConfidence = decodeUdpServiceConfidence confidence, js_udpService = service\<rparr>))))))))))))))))))"

definition batch_materialize :: "SealedScanResultBatch \<Rightarrow> JsScanResult list js" where
  "batch_materialize b = rmap (view_materialize b) [0..<row_count b]"

text \<open>\<^verbatim>\<open>at\<close> with its wrap-around for negative indices; a view is its row number.\<close>

definition batch_at :: "SealedScanResultBatch \<Rightarrow> int \<Rightarrow> nat option js" where
  "batch_at b index =
     (let normalized = (if index < 0 then int (row_count b) + index else index)
      in if normalized < 0 \<or> normalized \<ge> int (row_count b) then Ok None
         else rbind (assertAttached b) (\<lambda>_. Ok (Some (nat normalized))))"

end
