(* ===== verification/Batch_Properties.thy ===== *)
theory Batch_Properties
  imports Result_Batch
begin

text \<open>
  Reading a sealed batch back. A locale describes one column of the batch: it starts empty
  and every row appends its part, so the whole column is the concatenation of the parts; an
  extension of it describes the column of cumulative offsets. Each column of the batch is an
  interpretation. The claims: which batches the consumer accepts, and that it decodes every
  row of an accepted batch to the result that was sealed.
\<close>

section \<open>Columns as concatenations\<close>

lemma concat_part:
  assumes "i < length vs"
  shows "take (length (f (vs ! i))) (drop (length (concat (map f (take i vs)))) (concat (map f vs))) = f (vs ! i)"
proof -
  have "concat (map f vs) = concat (map f (take i vs)) @ f (vs ! i) @ concat (map f (drop (Suc i) vs))"
    by (subst id_take_nth_drop [OF assms]) simp
  then show ?thesis by simp
qed

lemma length_concat_fixed: "list_all (\<lambda>v. length (f v) = w) vs \<Longrightarrow> length (concat (map f vs)) = length vs * w"
  by (induction vs) auto

lemma concat_fixed_part:
  assumes "i < length vs" and "list_all (\<lambda>v. length (f v) = w) vs"
  shows "take w (drop (i * w) (concat (map f vs))) = f (vs ! i)"
proof -
  have "list_all (\<lambda>v. length (f v) = w) (take i vs)" using assms(2) by (meson in_set_takeD list_all_iff)
  then have "length (concat (map f (take i vs))) = i * w" using assms(1) by (simp add: length_concat_fixed)
  moreover have "length (f (vs ! i)) = w" using assms by (simp add: list_all_length)
  ultimately show ?thesis using concat_part [OF assms(1), of f] by simp
qed

text \<open>A fixed-width column of integers returns each of them.\<close>

lemma get_le_column:
  assumes "i < length vs" and "g (vs ! i) < 256 ^ w"
  shows "get_le w (concat (map (\<lambda>v. le_of_nat w (g v)) vs)) (i * w) = Ok (g (vs ! i))"
proof -
  have fixed: "list_all (\<lambda>v. length (le_of_nat w (g v)) = w) vs" by (simp add: list_all_iff)
  have "(Suc i) * w \<le> length vs * w" using assms(1) by (intro mult_le_mono1) simp
  then have "i * w + w \<le> length (concat (map (\<lambda>v. le_of_nat w (g v)) vs))"
    by (simp add: length_concat_fixed [OF fixed])
  then show ?thesis
    by (simp add: get_le_def concat_fixed_part [OF assms(1) fixed] nat_of_le_of_nat [OF assms(2)])
qed

locale sealed_column =
  fixes schema :: nat and col :: "SealedScanResultBatch \<Rightarrow> u8 list option" and part :: "ScanResult \<Rightarrow> u8 list"
  assumes start: "col (empty_batch n schema) = Some []"
    and grow: "col b = Some c \<Longrightarrow> col (seal_row schema b v) = Some (c @ part v)"
begin

lemma grown: "col b = Some c \<Longrightarrow> col (foldl (seal_row schema) b rows) = Some (c @ concat (map part rows))"
  by (induction rows arbitrary: b c) (auto simp: grow)

lemma sealed: "col (seal_result_batch rows n schema) = Some (concat (map part rows))"
  by (simp add: seal_result_batch_def grown [OF start])

end

definition offset_entry :: "('a \<Rightarrow> 'b list) \<Rightarrow> 'a list \<Rightarrow> nat \<Rightarrow> nat" where
  "offset_entry part rows j = length (concat (map part (take j rows)))"

locale sealed_offsets = sealed_column +
  fixes off :: "SealedScanResultBatch \<Rightarrow> u8 list option"
  assumes start_off: "off (empty_batch n schema) = Some (le_of_nat 4 0)"
    and grow_off: "col b = Some c \<Longrightarrow> off b = Some ofs \<Longrightarrow>
      off (seal_row schema b v) = Some (ofs @ le_of_nat 4 (offset_of (length (c @ part v))))"
begin

lemma sealed_off:
  "off (seal_result_batch rows n schema) =
     Some (concat (map (\<lambda>j. le_of_nat 4 (offset_of (offset_entry part rows j))) [0..<Suc (length rows)]))"
proof (induction rows rule: rev_induct)
  case Nil
  then show ?case by (simp add: seal_result_batch_def start_off offset_entry_def offset_of_def try_from_def)
next
  case (snoc v rows)
  have "off (seal_result_batch (rows @ [v]) n schema)
      = Some (concat (map (\<lambda>j. le_of_nat 4 (offset_of (offset_entry part rows j))) [0..<Suc (length rows)])
          @ le_of_nat 4 (offset_of (length (concat (map part rows) @ part v))))"
    using grow_off [OF sealed snoc.IH] by (simp add: seal_result_batch_def)
  moreover have "map (\<lambda>j. le_of_nat 4 (offset_of (offset_entry part rows j))) [0..<Suc (length rows)]
      = map (\<lambda>j. le_of_nat 4 (offset_of (offset_entry part (rows @ [v]) j))) [0..<Suc (length rows)]"
    by (rule map_cong) (auto simp: offset_entry_def)
  moreover have "length (concat (map part rows) @ part v) = offset_entry part (rows @ [v]) (Suc (length rows))"
    by (simp add: offset_entry_def)
  moreover have "[0..<Suc (length (rows @ [v]))] = [0..<Suc (length rows)] @ [Suc (length rows)]" by simp
  ultimately show ?case by (simp only: map_append concat_append list.map concat.simps append_Nil2)
qed

end

section \<open>The columns of the batch\<close>

lemmas sealing = seal_row_def empty_batch_def Let_def push_u16_def push_u32_def push_u64_def

definition state_code :: "ScanResult \<Rightarrow> nat" where
  "state_code v = (case outcome v of Network s \<Rightarrow> network_state_code s | _ \<Rightarrow> 0)"

definition strength_code :: "ScanResult \<Rightarrow> nat" where
  "strength_code v = (case evidence_strength v of None \<Rightarrow> 0 | Some e \<Rightarrow> evidence_code e)"

definition rtt_entry :: "ScanResult \<Rightarrow> nat" where
  "rtt_entry v = (case result_rtt v of None \<Rightarrow> MISSING_U64 | Some d \<Rightarrow> saturating_mul 64 d 1000)"

interpretation family_col: sealed_column schema "\<lambda>b. Some (families b)"
    "\<lambda>v. [if is_V4_addr (target_address (target (result_probe v))) then 4 else 6]" for schema
  by unfold_locales (simp_all add: sealing)

interpretation address_col: sealed_offsets schema "\<lambda>b. Some (address_bytes b)"
    "\<lambda>v. octets (target_address (target (result_probe v)))" "\<lambda>b. Some (address_offsets b)" for schema
  by unfold_locales (simp_all add: sealing)

interpretation metadata_col: sealed_offsets schema "\<lambda>b. Some (metadata_bytes b)"
    "\<lambda>v. reason_name (terminal_reason v)" "\<lambda>b. Some (metadata_offsets b)" for schema
  by unfold_locales (simp_all add: sealing)

interpretation scope_col: sealed_column schema "\<lambda>b. Some (scopes b)"
    "\<lambda>v. le_of_nat 4 (case target_scope (target (result_probe v)) of None \<Rightarrow> 0 | Some z \<Rightarrow> z)" for schema
  by unfold_locales (simp_all add: sealing)

interpretation probe_col: sealed_column schema "\<lambda>b. Some (probes b)"
    "\<lambda>v. [word_of_nat (probe_code (family (result_probe v)))]" for schema
  by unfold_locales (simp_all add: sealing)

interpretation port_col: sealed_column schema "\<lambda>b. Some (ports b)"
    "\<lambda>v. le_of_nat 2 (case port (result_probe v) of None \<Rightarrow> 0 | Some n \<Rightarrow> n)" for schema
  by unfold_locales (simp_all add: sealing)

interpretation state_col: sealed_column schema "\<lambda>b. Some (states b)" "\<lambda>v. [word_of_nat (state_code v)]" for schema
  by unfold_locales (simp_all add: sealing state_code_def)

interpretation outcome_col: sealed_column schema "\<lambda>b. Some (outcomes b)"
    "\<lambda>v. [word_of_nat (outcome_code (outcome v))]" for schema
  by unfold_locales (simp_all add: sealing)

interpretation attempt_col: sealed_column schema "\<lambda>b. Some (b_attempts b)" "\<lambda>v. le_of_nat 4 (result_attempt v)" for schema
  by unfold_locales (simp_all add: sealing)

interpretation transmission_col: sealed_column schema "\<lambda>b. Some (b_transmissions b)"
    "\<lambda>v. le_of_nat 4 (transmissions v)" for schema
  by unfold_locales (simp_all add: sealing)

interpretation rtt_col: sealed_column schema "\<lambda>b. Some (rtt_nanoseconds b)" "\<lambda>v. le_of_nat 8 (rtt_entry v)" for schema
  by unfold_locales (simp_all add: sealing rtt_entry_def)

interpretation timestamp_col: sealed_column schema "\<lambda>b. Some (timestamps_nanoseconds b)"
    "\<lambda>v. le_of_nat 8 (saturating_mul 64 (terminal_at v) 1000)" for schema
  by unfold_locales (simp_all add: sealing)

interpretation generation_col: sealed_column schema "\<lambda>b. Some (route_generations b)"
    "\<lambda>v. le_of_nat 8 (route_generation v)" for schema
  by unfold_locales (simp_all add: sealing)

interpretation evidence_col: sealed_column schema "\<lambda>b. Some (evidence b)"
    "\<lambda>v. [word_of_nat (strength_code v)]" for schema
  by unfold_locales (simp_all add: sealing strength_code_def)

text \<open>The columns of schema 2.\<close>

interpretation terminal_col: sealed_column 2 terminal_udp_probe_ids "\<lambda>v. le_of_nat 2 (row_terminal_id v)"
  by unfold_locales (simp_all add: sealing)

interpretation variants_col: sealed_column 2 udp_variants_attempted "\<lambda>v. le_of_nat 2 (row_variants v)"
  by unfold_locales (simp_all add: sealing)

interpretation response_col: sealed_column 2 udp_response_kinds "\<lambda>v. [word_of_nat (row_response_kind v)]"
  by unfold_locales (simp_all add: sealing)

interpretation service_family_col: sealed_column 2 udp_service_families "\<lambda>v. le_of_nat 2 (row_family v)"
  by unfold_locales (simp_all add: sealing)

interpretation confidence_col: sealed_column 2 udp_service_confidences "\<lambda>v. [word_of_nat (row_confidence v)]"
  by unfold_locales (simp_all add: sealing)

interpretation service_col: sealed_offsets 2 service_metadata_bytes row_metadata service_metadata_offsets
  by unfold_locales (simp_all add: sealing)

lemmas column_values =
  family_col.sealed [unfolded option.inject concat_map_singleton] address_col.sealed [unfolded option.inject]
  metadata_col.sealed [unfolded option.inject] scope_col.sealed [unfolded option.inject]
  probe_col.sealed [unfolded option.inject concat_map_singleton] port_col.sealed [unfolded option.inject]
  state_col.sealed [unfolded option.inject concat_map_singleton]
  outcome_col.sealed [unfolded option.inject concat_map_singleton] attempt_col.sealed [unfolded option.inject]
  transmission_col.sealed [unfolded option.inject] rtt_col.sealed [unfolded option.inject]
  timestamp_col.sealed [unfolded option.inject] generation_col.sealed [unfolded option.inject]
  evidence_col.sealed [unfolded option.inject concat_map_singleton]
  address_col.sealed_off [unfolded option.inject] metadata_col.sealed_off [unfolded option.inject]

lemmas column_values_2 = terminal_col.sealed variants_col.sealed response_col.sealed [unfolded concat_map_singleton]
  service_family_col.sealed confidence_col.sealed [unfolded concat_map_singleton] service_col.sealed service_col.sealed_off

lemma seal_scalars:
  "b_schema_version (seal_result_batch rows n schema) = schema"
  "row_count (seal_result_batch rows n schema) = offset_of n"
proof -
  have "b_schema_version (foldl (seal_row schema) b rows) = b_schema_version b
      \<and> row_count (foldl (seal_row schema) b rows) = row_count b" for b
    by (induction rows arbitrary: b) (simp_all add: seal_row_def Let_def)
  then show "b_schema_version (seal_result_batch rows n schema) = schema"
      "row_count (seal_result_batch rows n schema) = offset_of n"
    by (simp_all add: seal_result_batch_def empty_batch_def Let_def)
qed

lemma schema_1_absent: "list_all (\<lambda>c. c = None) (v2_columns (seal_result_batch rows n (Suc 0)))"
proof -
  have "list_all (\<lambda>c. c = None) (v2_columns b) \<Longrightarrow>
      list_all (\<lambda>c. c = None) (v2_columns (foldl (seal_row (Suc 0)) b rows))" for b
  proof (induction rows arbitrary: b)
    case (Cons v rows)
    have "list_all (\<lambda>c. c = None) (v2_columns (seal_row (Suc 0) b v))"
      using Cons.prems by (simp add: v2_columns_def seal_row_def Let_def)
    from Cons.IH [OF this] show ?case by simp
  qed simp
  then show ?thesis by (simp add: seal_result_batch_def empty_batch_def v2_columns_def)
qed

section \<open>Offsets\<close>

lemma get_offset:
  assumes "j \<le> n" and "g j < 256 ^ 4"
  shows "get_le 4 (concat (map (\<lambda>j. le_of_nat 4 (g j)) [0..<Suc n])) (j * 4) = Ok (g j)"
  using get_le_column [of j "[0..<Suc n]" g 4] assms by (simp del: upt_Suc)

lemma offsets_accepted:
  assumes mono: "\<And>i j. i \<le> j \<Longrightarrow> j \<le> n \<Longrightarrow> g i \<le> g j" and zero: "g 0 = 0" and bound: "g n < 256 ^ 4"
  shows "validateOffsets (concat (map (\<lambda>j. le_of_nat 4 (g j)) [0..<Suc n])) n (g n) = Ok ()"
proof -
  let ?enc = "concat (map (\<lambda>j. le_of_nat 4 (g j)) [0..<Suc n])"
  have len: "length ?enc = Suc n * 4"
    using length_concat_fixed [of "\<lambda>j. le_of_nat 4 (g j)" 4 "[0..<Suc n]"] by (simp add: list_all_iff)
  have loop: "previous \<le> g k \<Longrightarrow> k \<le> n \<Longrightarrow> offsets_loop ?enc (g n) [k..<Suc n] previous = Ok (g n)" for k previous
  proof (induction "n - k" arbitrary: k previous)
    case 0
    then have k: "k = n" by simp
    then show ?case using 0 zero get_offset [of n n g] bound by (cases "n = 0") simp_all
  next
    case (Suc m)
    have le: "g k \<le> g n" "g k \<le> g (Suc k)" using Suc mono by auto
    then have get: "get_le 4 ?enc (k * 4) = Ok (g k)" using bound Suc by (intro get_offset) auto
    have "[k..<Suc n] = k # [Suc k..<Suc n]" using Suc by (simp add: upt_conv_Cons)
    moreover have "offsets_loop ?enc (g n) [Suc k..<Suc n] (g k) = Ok (g n)" using Suc le by (intro Suc.hyps) auto
    moreover have "0 < k \<or> g k = 0" using zero by (cases k) simp_all
    ultimately show ?case using get le(1) Suc.prems(1) by (simp del: upt_Suc)
  qed
  show ?thesis using loop [of 0 0] by (simp add: validateOffsets_def len zero del: upt_Suc)
qed

lemma offset_of_small: "n < 256 ^ 4 \<Longrightarrow> offset_of n = n"
  by (simp add: offset_of_def try_from_def max_of_def)

lemma offset_entry_mono: "i \<le> j \<Longrightarrow> offset_entry part rows i \<le> offset_entry part rows j"
proof -
  assume "i \<le> j"
  then have "take i rows = take i (take j rows)" by (simp add: min_def)
  then have "take j rows = take i rows @ drop i (take j rows)" by (metis append_take_drop_id)
  then have "concat (map part (take j rows)) = concat (map part (take i rows)) @ concat (map part (drop i (take j rows)))"
    by (metis concat_append map_append)
  then show ?thesis unfolding offset_entry_def by simp
qed

lemma offset_entry_all [simp]: "offset_entry part rows (length rows) = length (concat (map part rows))"
  by (simp add: offset_entry_def)

text \<open>Offsets written for storage that fits 32 bits are read back exactly and pass validation.\<close>

lemma offsets_exact:
  assumes "length (concat (map part rows)) < 256 ^ 4"
  shows "concat (map (\<lambda>j. le_of_nat 4 (offset_of (offset_entry part rows j))) [0..<Suc (length rows)])
    = concat (map (\<lambda>j. le_of_nat 4 (offset_entry part rows j)) [0..<Suc (length rows)])"
proof -
  have "offset_of (offset_entry part rows j) = offset_entry part rows j" if "j \<le> length rows" for j
    using offset_entry_mono [OF that, of part rows] assms by (intro offset_of_small) simp
  then show ?thesis by (intro arg_cong [where f = concat] map_cong) (simp_all del: upt_Suc)
qed

lemma offsets_valid:
  assumes "length (concat (map part rows)) < 256 ^ 4"
  shows "validateOffsets (concat (map (\<lambda>j. le_of_nat 4 (offset_of (offset_entry part rows j))) [0..<Suc (length rows)]))
    (length rows) (length (concat (map part rows))) = Ok ()"
proof -
  have "offset_entry part rows 0 = 0" by (simp add: offset_entry_def)
  from offsets_accepted [of "length rows" "offset_entry part rows", OF offset_entry_mono this] assms
  show ?thesis unfolding offsets_exact [OF assms] by simp
qed

lemma offsets_read:
  assumes "length (concat (map part rows)) < 256 ^ 4" and "j \<le> length rows"
  shows "get_le 4 (concat (map (\<lambda>j. le_of_nat 4 (offset_of (offset_entry part rows j))) [0..<Suc (length rows)])) (j * 4)
    = Ok (offset_entry part rows j)"
  using assms(1) offset_entry_mono [OF assms(2), of part rows] unfolding offsets_exact [OF assms(1)]
  by (intro get_offset assms(2)) simp

lemma offset_part:
  assumes "i < length rows"
  shows "offset_entry part rows (Suc i) = offset_entry part rows i + length (part (rows ! i))"
    and "take (length (part (rows ! i))) (drop (offset_entry part rows i) (concat (map part rows))) = part (rows ! i)"
  using concat_part [OF assms, of part] by (simp_all add: offset_entry_def take_Suc_conv_app_nth [OF assms])


section \<open>Acceptance\<close>

text \<open>The widths of the Rust types in a result row.\<close>

definition row_typed :: "ScanResult \<Rightarrow> bool" where
  "row_typed v \<longleftrightarrow>
     ip_wf (target_address (target (result_probe v)))
     \<and> (case target_scope (target (result_probe v)) of None \<Rightarrow> True | Some z \<Rightarrow> 0 < z \<and> z \<le> max_of 32)
     \<and> (case port (result_probe v) of None \<Rightarrow> True | Some n \<Rightarrow> port_wf n)
     \<and> result_attempt v \<le> max_of 32 \<and> transmissions v \<le> max_of 32
     \<and> route_generation v \<le> max_of 64
     \<and> (case terminal_reason v of TransportFailure code \<Rightarrow> code \<le> max_of 32 | _ \<Rightarrow> True)
     \<and> (case udp v of None \<Rightarrow> True | Some u \<Rightarrow>
          (case terminal_probe_id u of None \<Rightarrow> True | Some i \<Rightarrow> 0 < i \<and> i \<le> max_of 16)
          \<and> variants_attempted u \<le> max_of 16
          \<and> (case result_service u of None \<Rightarrow> True | Some s \<Rightarrow> service_evidence_family s \<le> max_of 16))"

lemma row_typed_widths:
  assumes "row_typed v"
  shows "row_terminal_id v < 256 ^ 2" "row_variants v < 256 ^ 2" "row_family v < 256 ^ 2"
  using assms
  by (auto simp: row_typed_def row_terminal_id_def row_variants_def row_family_def row_service_def max_of_def split: option.splits)

definition service_ok :: "ScanResult \<Rightarrow> bool" where
  "service_ok v \<longleftrightarrow>
     (case row_service v of None \<Rightarrow> True
      | Some s \<Rightarrow> service_evidence_family s \<noteq> 0 \<and> validateServiceMetadataRecord (metadata s) = Ok ())"

definition row_accepted :: "nat \<Rightarrow> ScanResult \<Rightarrow> bool" where
  "row_accepted schema v \<longleftrightarrow> (if schema = 2 then service_ok v else strength_code v \<le> 4)"

lemma code_bounds:
  "probe_code f \<le> 6" "outcome_code o' \<le> 5" "evidence_code e \<le> 8" "response_kind_code k \<le> 7"
  "network_state_code s \<le> 8" "confidence_code c \<le> 3"
  by (cases f, simp_all) (cases o', simp_all, cases e, simp_all, cases k, simp_all, cases s, simp_all, cases c, simp_all)

lemma confidence_nonzero [simp]: "confidence_code c \<noteq> 0"
  by (cases c) simp_all

lemma row_code_bounds:
  "strength_code v \<le> 8" "state_code v \<le> 8" "row_confidence v \<le> 3" "row_response_kind v \<le> 7"
  by (simp_all add: strength_code_def state_code_def row_confidence_def row_response_kind_def code_bounds
      split: option.split ProbeOutcome.split)

lemma unat_code: "n \<le> 8 \<Longrightarrow> unat (word_of_nat n :: u8) = n"
  by (simp add: unat_of_nat)

lemma record_nonempty: "validateServiceMetadataRecord r = Ok u \<Longrightarrow> r \<noteq> [] \<and> length r \<le> 1024"
  by (cases r) (auto simp: validateServiceMetadataRecord_def js_byte_def record_bounds split: if_splits)

lemma validate_sealed_row:
  assumes i: "i < length rows" and typed: "list_all row_typed rows"
    and small: "length (concat (map row_metadata rows)) < 256 ^ 4"
  shows "validate_service_row (concat (map (\<lambda>v. le_of_nat 2 (row_family v)) rows))
      (map (\<lambda>v. word_of_nat (row_confidence v)) rows) (concat (map row_metadata rows))
      (concat (map (\<lambda>j. le_of_nat 4 (offset_of (offset_entry row_metadata rows j))) [0..<Suc (length rows)])) i = Ok ()
    \<longleftrightarrow> service_ok (rows ! i)"
proof -
  let ?v = "rows ! i"
  have t: "row_typed ?v" using typed i by (simp add: list_all_length)
  have fam: "get_le 2 (concat (map (\<lambda>v. le_of_nat 2 (row_family v)) rows)) (i * 2) = Ok (row_family ?v)"
    by (intro get_le_column i row_typed_widths t)
  note read = offsets_read [OF small] and part = offset_part [OF i, of row_metadata]
  have ends: "get_le 4 (concat (map (\<lambda>j. le_of_nat 4 (offset_of (offset_entry row_metadata rows j))) [0..<Suc (length rows)])) (i * 4)
      = Ok (offset_entry row_metadata rows i)"
    "get_le 4 (concat (map (\<lambda>j. le_of_nat 4 (offset_of (offset_entry row_metadata rows j))) [0..<Suc (length rows)])) ((i + 1) * 4)
      = Ok (offset_entry row_metadata rows i + length (row_metadata ?v))"
    using read [of i] read [of "Suc i"] part(1) i by (simp_all del: upt_Suc)
  have conf: "unat (word_of_nat (row_confidence ?v) :: u8) = row_confidence ?v"
    using row_code_bounds(3) [of ?v] by (intro unat_code) simp
  have "validate_service_row (concat (map (\<lambda>v. le_of_nat 2 (row_family v)) rows))
      (map (\<lambda>v. word_of_nat (row_confidence v)) rows) (concat (map row_metadata rows))
      (concat (map (\<lambda>j. le_of_nat 4 (offset_of (offset_entry row_metadata rows j))) [0..<Suc (length rows)])) i
    = (if row_metadata ?v = [] then
         if row_family ?v \<noteq> 0 \<or> row_confidence ?v \<noteq> 0 then Err ''UDP service identity requires a service metadata record'' else Ok ()
       else if row_family ?v = 0 \<or> row_confidence ?v = 0 then Err ''UDP service metadata requires family and confidence''
       else validateServiceMetadataRecord (row_metadata ?v))"
    unfolding validate_service_row_def fam ends rbind_simps Let_def
    using i part(2) conf by (simp del: upt_Suc)
  also have "\<dots> = Ok () \<longleftrightarrow> service_ok ?v"
    using record_nonempty
    by (cases "row_service ?v") (auto simp: service_ok_def row_family_def row_confidence_def row_metadata_def)
  finally show ?thesis .
qed

lemma reason_length:
  "case r of TransportFailure code \<Rightarrow> code \<le> max_of 32 | _ \<Rightarrow> True \<Longrightarrow> length (reason_name r) \<le> 64"
proof (cases r)
  case (ReasonEvidence k)
  then show ?thesis by (cases k) (simp_all add: ascii_def)
next
  case (TransportFailure code)
  moreover assume "case r of TransportFailure code \<Rightarrow> code \<le> max_of 32 | _ \<Rightarrow> True"
  ultimately have "length (decimal code) \<le> 10" by (intro decimal_length) (simp_all add: max_of_def)
  then show ?thesis using TransportFailure by (simp add: ascii_def)
qed (simp_all add: ascii_def)

lemma length_concat_range:
  "list_all (\<lambda>v. lo \<le> length (f v) \<and> length (f v) \<le> hi) vs \<Longrightarrow>
    length vs * lo \<le> length (concat (map f vs)) \<and> length (concat (map f vs)) \<le> length vs * hi"
  by (induction vs) auto

lemma address_storage:
  assumes "list_all row_typed rows"
  shows "length rows * 4 \<le> length (concat (map (\<lambda>v. octets (target_address (target (result_probe v)))) rows))
    \<and> length (concat (map (\<lambda>v. octets (target_address (target (result_probe v)))) rows)) \<le> length rows * 16"
proof (rule length_concat_range, rule list.pred_mono_strong [OF assms])
  fix v assume "row_typed v"
  then show "4 \<le> length (octets (target_address (target (result_probe v))))
      \<and> length (octets (target_address (target (result_probe v)))) \<le> 16"
    unfolding row_typed_def by (cases "target_address (target (result_probe v))") auto
qed

lemma reason_storage:
  assumes "list_all row_typed rows"
  shows "length (concat (map (\<lambda>v. reason_name (terminal_reason v)) rows)) \<le> length rows * 64"
proof -
  have "list_all (\<lambda>v. 0 \<le> length (reason_name (terminal_reason v)) \<and> length (reason_name (terminal_reason v)) \<le> 64) rows"
    by (rule list.pred_mono_strong [OF assms]) (simp add: row_typed_def reason_length)
  from length_concat_range [OF this] show ?thesis by simp
qed

lemma service_storage:
  assumes "list_all service_ok rows"
  shows "length (concat (map row_metadata rows)) \<le> length rows * 1024"
proof -
  have "length (row_metadata v) \<le> 1024" if "service_ok v" for v
    using that record_nonempty by (auto simp: service_ok_def row_metadata_def split: option.splits)
  then have "list_all (\<lambda>v. 0 \<le> length (row_metadata v) \<and> length (row_metadata v) \<le> 1024) rows"
    using assms by (simp add: list_all_iff)
  from length_concat_range [OF this] show ?thesis by simp
qed

lemma column_lengths:
  "length (concat (map (\<lambda>v. le_of_nat w (f v)) rows)) = length rows * w"
  by (rule length_concat_fixed) (simp add: list_all_iff)

lemma rmap_unit: "rbind (rmap f xs) (\<lambda>_. Ok ()) = Ok () \<longleftrightarrow> list_all (\<lambda>x. f x = Ok ()) xs"
  by (induction xs) (auto simp: rbind_Ok_iff)

lemma values_accepted_iff:
  assumes "list_all row_typed rows" and "length rows \<le> MAX_BATCH_RESULTS"
    and "length (concat (map row_metadata rows)) < 256 ^ 4"
  shows "validateSchema2Values (seal_result_batch rows (length rows) 2) = Ok () \<longleftrightarrow> list_all service_ok rows"
proof -
  have n: "offset_of (length rows) = length rows"
    using assms(2) by (intro offset_of_small) (simp add: MAX_BATCH_RESULTS_def)
  have unat: "unat (word_of_nat (row_response_kind v) :: u8) = row_response_kind v"
      "unat (word_of_nat (row_confidence v) :: u8) = row_confidence v"
      "unat (word_of_nat (strength_code v) :: u8) = strength_code v" for v
    using row_code_bounds [of v] by (auto intro!: unat_code)
  have codes: "\<not> list_ex (\<lambda>x. unat x > 7) (map (\<lambda>v. word_of_nat (row_response_kind v) :: u8) rows)"
      "\<not> list_ex (\<lambda>x. unat x > 3) (map (\<lambda>v. word_of_nat (row_confidence v) :: u8) rows)"
      "\<not> list_ex (\<lambda>x. unat x > 8) (map (\<lambda>v. word_of_nat (strength_code v) :: u8) rows)"
    using row_code_bounds by (auto simp: list_ex_iff unat not_less)
  have "validateSchema2Values (seal_result_batch rows (length rows) 2) = Ok () \<longleftrightarrow>
      list_all (\<lambda>i. service_ok (rows ! i)) [0..<length rows]"
    unfolding validateSchema2Values_def column_values column_values_2 seal_scalars n option.sel
    using codes validate_sealed_row [OF _ assms(1,3)]
    by (simp add: rmap_unit list_all_iff del: upt_Suc)
  then show ?thesis by (simp add: list_all_length list_all_iff)
qed

lemma snapshot_sealed:
  "schema \<in> {1, 2} \<Longrightarrow>
    snapshotEncodedBatch (from_sealed (seal_result_batch rows n schema)) = Ok (seal_result_batch rows n schema)"
  using schema_1_absent [of rows n]
  by (auto simp: snapshotEncodedBatch_def from_sealed_def seal_scalars list_ex_iff list_all_iff v2_columns_def column_values_2)

lemma validate_sealed_iff:
  assumes typed: "list_all row_typed rows" and size: "rows \<noteq> []" "length rows \<le> MAX_BATCH_RESULTS"
    and schema: "schema \<in> {1, 2}"
  shows "validateEncodedBatch (seal_result_batch rows (length rows) schema) = Ok () \<longleftrightarrow> list_all (row_accepted schema) rows"
proof -
  let ?b = "seal_result_batch rows (length rows) schema"
  have n: "offset_of (length rows) = length rows"
    using size by (intro offset_of_small) (simp add: MAX_BATCH_RESULTS_def)
  have reasons: "length (concat (map (\<lambda>v. reason_name (terminal_reason v)) rows)) \<le> MAX_BATCH_METADATA_BYTES"
    using reason_storage [OF typed] size by (simp add: MAX_BATCH_RESULTS_def MAX_BATCH_METADATA_BYTES_def)
  note addresses = address_storage [OF typed]
  have offsets: "validateOffsets (address_offsets ?b) (length rows) (length (address_bytes ?b)) = Ok ()"
      "validateOffsets (metadata_offsets ?b) (length rows) (length (metadata_bytes ?b)) = Ok ()"
    unfolding column_values using addresses reasons size(2)
    by (intro offsets_valid, simp add: MAX_BATCH_RESULTS_def MAX_BATCH_METADATA_BYTES_def)+
  have unat: "unat (word_of_nat (strength_code v) :: u8) = strength_code v" for v
    using row_code_bounds [of v] by (auto intro!: unat_code)
  have "schema = 1 \<or> schema = 2" using schema by simp
  then show ?thesis
  proof
    assume s: "schema = 1"
    have "validateEncodedBatch ?b =
        (if list_ex (\<lambda>x. unat x > 4) (evidence ?b) then Err ''evidence code is invalid'' else Ok ())"
      using addresses reasons offsets size
      by (simp add: validateEncodedBatch_def s seal_scalars n column_values column_lengths Let_def not_less Suc_le_eq del: upt_Suc)
    then show ?thesis
      by (simp add: column_values row_accepted_def s list_ex_iff list_all_iff unat flip: not_less)
  next
    assume s: "schema = 2"
    let ?m = "concat (map row_metadata rows)"
    have "validateEncodedBatch ?b =
        (if length ?m > MAX_BATCH_METADATA_BYTES then Err ''scan result service metadata exceeds 4 MiB''
         else rbind (validateOffsets (the (service_metadata_offsets ?b)) (length rows) (length ?m)) (\<lambda>_. validateSchema2Values ?b))"
      using addresses reasons offsets size
      by (simp add: validateEncodedBatch_def s seal_scalars n column_values column_values_2 column_lengths Let_def not_less Suc_le_eq
          rbind_def split: sum.splits del: upt_Suc)
    moreover have "validateOffsets (the (service_metadata_offsets ?b)) (length rows) (length ?m) = Ok ()"
      if "length ?m \<le> MAX_BATCH_METADATA_BYTES"
      using that unfolding s column_values_2 option.sel by (intro offsets_valid) (simp add: MAX_BATCH_METADATA_BYTES_def)
    moreover have "validateSchema2Values ?b = Ok () \<longleftrightarrow> list_all service_ok rows" if "length ?m \<le> MAX_BATCH_METADATA_BYTES"
      using that values_accepted_iff [OF typed size(2)] unfolding s by (simp add: MAX_BATCH_METADATA_BYTES_def)
    moreover have "length ?m \<le> MAX_BATCH_METADATA_BYTES" if "list_all service_ok rows"
      using service_storage [OF that] size(2) by (simp add: MAX_BATCH_METADATA_BYTES_def MAX_BATCH_RESULTS_def)
    ultimately have "validateEncodedBatch ?b = Ok () \<longleftrightarrow> list_all service_ok rows"
      by (cases "length ?m \<le> MAX_BATCH_METADATA_BYTES") auto
    then show ?thesis by (simp add: row_accepted_def s list_all_iff)
  qed
qed

lemma accepted_sealed_iff:
  assumes "list_all row_typed rows" and "rows \<noteq> []" "length rows \<le> MAX_BATCH_RESULTS" and "schema \<in> {1, 2}"
  shows "ScanResultBatch_new (from_sealed (seal_result_batch rows (length rows) schema)) = Ok b \<longleftrightarrow>
    list_all (row_accepted schema) rows \<and> b = seal_result_batch rows (length rows) schema"
  by (auto simp: ScanResultBatch_new_def snapshot_sealed [OF assms(4)] rbind_Ok_iff validate_sealed_iff [OF assms])

section \<open>Rows read back\<close>

text \<open>A record that passes validation also decodes.\<close>

lemma js_string_decodes:
  assumes "js_string r c = Ok c'"
  shows "\<exists>t. decode_string r c = Ok (t, c')"
  using assms
  by (auto simp: js_string_def js_u16_def js_byte_def decode_string_def byte_or_zero_def rbind_Ok_iff Let_def
      split: if_splits option.splits)

lemma validate_fields_decode:
  "validate_fields r n prior c = Ok c' \<Longrightarrow> \<exists>fs. decode_fields r n c = Ok fs"
proof (induction n arbitrary: prior c)
  case (Suc n)
  then obtain field c1 c2 where f: "js_u16 r c = Ok (field, c1)" "js_string r c1 = Ok c2" "validate_fields r n field c2 = Ok c'"
    by (auto simp: rbind_Ok_iff split: if_splits)
  then have "c1 = c + 2" by (auto simp: js_u16_def js_byte_def rbind_Ok_iff split: if_splits)
  with js_string_decodes [OF f(2)] Suc.IH [OF f(3)] show ?case by auto
qed simp

lemma validated_decodes:
  assumes "validateServiceMetadataRecord r = Ok ()"
  shows "\<exists>m. decodeServiceMetadataRecord r = Ok m"
proof -
  obtain c1 c2 c3 where c: "js_string r 1 = Ok c1" "js_string r c1 = Ok c2" "c2 < length r"
      "validate_fields r (unat (r ! c2)) 0 (c2 + 1) = Ok c3"
    using assms by (auto simp: validateServiceMetadataRecord_def js_byte_def rbind_Ok_iff split: if_splits)
  obtain p v fs where "decode_string r 1 = Ok (p, c1)" "decode_string r c1 = Ok (v, c2)"
      "decode_fields r (unat (r ! c2)) (c2 + 1) = Ok fs"
    using js_string_decodes [OF c(1)] js_string_decodes [OF c(2)] validate_fields_decode [OF c(4)] by blast
  then show ?thesis using assms c(3) by (simp add: decodeServiceMetadataRecord_def byte_or_zero_def)
qed

text \<open>What the consumer is meant to see of a result.\<close>

fun probe_text :: "ProbeFamily \<Rightarrow> string" where
  "probe_text Arp = ''arp''"
| "probe_text Ndp = ''ndp''"
| "probe_text Icmpv4Echo = ''icmpEchoIpv4''"
| "probe_text Icmpv6Echo = ''icmpEchoIpv6''"
| "probe_text TcpSyn = ''tcpSyn''"
| "probe_text Udp = ''udp''"

fun outcome_text :: "ProbeOutcome \<Rightarrow> string" where
  "outcome_text (Network _) = ''network''"
| "outcome_text OutcomeCancelled = ''cancelled''"
| "outcome_text OutcomeSessionDeadline = ''deadline''"
| "outcome_text TransportFailed = ''transportFailed''"
| "outcome_text ContextInvalidated = ''contextInvalidated''"

fun state_text :: "NetworkState \<Rightarrow> string" where
  "state_text Open = ''open''"
| "state_text ClosedPort = ''closed''"
| "state_text Filtered = ''filtered''"
| "state_text OpenOrFiltered = ''open|filtered''"
| "state_text Up = ''up''"
| "state_text Unreachable = ''unreachable''"
| "state_text Unknown = ''unknown''"
| "state_text DownByPolicy = ''downByPolicy''"

fun strength_text :: "EvidenceStrength \<Rightarrow> string" where
  "strength_text TupleCorrelatedUnauthenticated = ''tuple''"
| "strength_text TruncatedQuote = ''truncatedQuote''"
| "strength_text StrongTcpSequence32 = ''tcpSequence32''"
| "strength_text StrongPayload128 = ''payload128''"
| "strength_text ProtocolTransaction16 = ''transaction16''"
| "strength_text ProtocolTransaction32 = ''transaction32''"
| "strength_text ProtocolTransaction64 = ''transaction64''"
| "strength_text AlternateEndpointHandshake = ''alternateEndpoint''"

fun response_text :: "UdpResponseKind \<Rightarrow> string option" where
  "response_text NoResponse = None"
| "response_text DirectUdp = Some ''directUdp''"
| "response_text Icmpv4TargetPortUnreachable = Some ''icmpv4TargetPortUnreachable''"
| "response_text OtherIcmpv4 = Some ''otherIcmpv4''"
| "response_text Icmpv6TargetPortUnreachable = Some ''icmpv6TargetPortUnreachable''"
| "response_text Icmpv6ParameterProblem = Some ''icmpv6ParameterProblem''"
| "response_text OtherIcmpv6 = Some ''otherIcmpv6''"
| "response_text Silence = Some ''silence''"

fun confidence_text :: "UdpServiceConfidence \<Rightarrow> string" where
  "confidence_text Signature = ''signature''"
| "confidence_text Parsed = ''parsed''"
| "confidence_text TransactionCorrelated = ''transactionCorrelated''"

fun target_text :: "ScanTarget \<Rightarrow> Text" where
  "target_text (ScanTarget a z) =
     (case a of V4 os \<Rightarrow> ipv4String os | V6 os \<Rightarrow> ipv6String os)
     @ (case z of None \<Rightarrow> [] | Some n \<Rightarrow> ascii ''%'' @ decimal n)"

definition udp_part :: "nat \<Rightarrow> ScanResult \<Rightarrow> (UdpResultEvidence \<Rightarrow> 'a option) \<Rightarrow> 'a option" where
  "udp_part schema v f = (if schema = 2 then Option.bind (udp v) f else None)"

definition view_of :: "nat \<Rightarrow> ScanResult \<Rightarrow> JsScanResult" where
  "view_of schema v =
     \<lparr>js_target = target_text (target (result_probe v)), js_probe = probe_text (family (result_probe v)),
      js_port = port (result_probe v),
      js_state = (case outcome v of Network s \<Rightarrow> Some (state_text s) | _ \<Rightarrow> None),
      js_outcome = outcome_text (outcome v), js_attempt = result_attempt v, js_transmissions = transmissions v,
      js_rttNanoseconds = map_option (\<lambda>d. d * 1000) (result_rtt v), js_rttMicros = result_rtt v,
      js_timestampNanoseconds = saturating_mul 64 (terminal_at v) 1000, js_routeGeneration = route_generation v,
      js_evidence = map_option strength_text (evidence_strength v), js_reason = reason_name (terminal_reason v),
      js_udpTerminalProbeId = udp_part schema v terminal_probe_id,
      js_udpVariantsAttempted =
        (if schema = 2 \<and> family (result_probe v) = Udp then Some (row_variants v) else None),
      js_udpResponseKind = udp_part schema v (\<lambda>u. response_text (result_response_kind u)),
      js_udpServiceFamily = udp_part schema v (\<lambda>u. map_option service_evidence_family (result_service u)),
      js_udpServiceConfidence = udp_part schema v (\<lambda>u. map_option (\<lambda>s. confidence_text (confidence s)) (result_service u)),
      js_udpService = udp_part schema v (\<lambda>u. map_option (\<lambda>s. projr (decodeServiceMetadataRecord (metadata s))) (result_service u))\<rparr>"

text \<open>The name tables of the consumer agree with the codes of the producer.\<close>

lemma decoded_names:
  "decodeProbe (probe_code f) = Ok (probe_text f)"
  "decodeOutcome (outcome_code o') = Ok (outcome_text o')"
  "decodeState (network_state_code s) = Ok (Some (state_text s))" "decodeState 0 = Ok None"
  "decodeEvidence (evidence_code e) = Ok (Some (strength_text e))" "decodeEvidence 0 = Ok None"
  "decodeUdpResponseKind (non_zero (response_kind_code k)) = response_text k" "decodeUdpResponseKind None = None"
  "decodeUdpServiceConfidence (non_zero (confidence_code c)) = Some (confidence_text c)"
  "decodeUdpServiceConfidence None = None"
proof -
  note defs = decodeProbe_def decodeOutcome_def decodeState_def decodeEvidence_def decodeUdpResponseKind_def
    decodeUdpServiceConfidence_def name_of_def non_zero_def
  show "decodeProbe (probe_code f) = Ok (probe_text f)" by (cases f) (simp_all add: defs)
  show "decodeOutcome (outcome_code o') = Ok (outcome_text o')" by (cases o') (simp_all add: defs)
  show "decodeState (network_state_code s) = Ok (Some (state_text s))" by (cases s) (simp_all add: defs)
  show "decodeEvidence (evidence_code e) = Ok (Some (strength_text e))" by (cases e) (simp_all add: defs)
  show "decodeUdpResponseKind (non_zero (response_kind_code k)) = response_text k" by (cases k) (simp_all add: defs)
  show "decodeUdpServiceConfidence (non_zero (confidence_code c)) = Some (confidence_text c)" by (cases c) (simp_all add: defs)
qed (simp_all add: decodeState_def decodeEvidence_def decodeUdpResponseKind_def decodeUdpServiceConfidence_def name_of_def)


text \<open>The accessors on a sealed batch, for a row in range.\<close>

lemma sealed_row_count: "length rows \<le> MAX_BATCH_RESULTS \<Longrightarrow> row_count (seal_result_batch rows (length rows) schema) = length rows"
  by (simp add: seal_scalars offset_of_small MAX_BATCH_RESULTS_def)

lemma sealed_attached: "rows \<noteq> [] \<Longrightarrow> assertAttached (seal_result_batch rows n schema) = Ok ()"
  by (simp add: assertAttached_def column_values)

lemma sealed_index:
  "i < length rows \<Longrightarrow> length rows \<le> MAX_BATCH_RESULTS \<Longrightarrow> assertIndex (seal_result_batch rows (length rows) schema) i = Ok ()"
  using sealed_attached [of rows] by (cases "rows = []") (simp_all add: assertIndex_def sealed_row_count)

lemma byteAt_sealed:
  assumes "i < length rows" "length rows \<le> MAX_BATCH_RESULTS" and "f (rows ! i) \<le> 8"
  shows "byteAt (seal_result_batch rows (length rows) schema) (map (\<lambda>v. word_of_nat (f v)) rows) i = Ok (f (rows ! i))"
  using assms by (simp add: byteAt_def sealed_index unat_code)

lemma le_at_sealed:
  fixes rows :: "ScanResult list"
  assumes "i < length rows" "length rows \<le> MAX_BATCH_RESULTS"
  defines "b schema \<equiv> seal_result_batch rows (length rows) schema"
  shows "f (rows ! i) < 256 ^ 2 \<Longrightarrow> u16At (b schema) (concat (map (\<lambda>v. le_of_nat 2 (f v)) rows)) i = Ok (f (rows ! i))"
    and "f (rows ! i) < 256 ^ 4 \<Longrightarrow> u32At (b schema) (concat (map (\<lambda>v. le_of_nat 4 (f v)) rows)) i = Ok (f (rows ! i))"
    and "f (rows ! i) < 256 ^ 8 \<Longrightarrow> u64At (b schema) (concat (map (\<lambda>v. le_of_nat 8 (f v)) rows)) i = Ok (f (rows ! i))"
proof -
  have "rows \<noteq> []" using assms(1) by auto
  then have view: "dataView (b schema) (concat (map (\<lambda>v. le_of_nat w (f v)) rows)) w False
      = Ok (concat (map (\<lambda>v. le_of_nat w (f v)) rows))" for w
    by (simp add: dataView_def b_def sealed_attached sealed_row_count [OF assms(2)] column_lengths)
  show "f (rows ! i) < 256 ^ 2 \<Longrightarrow> u16At (b schema) (concat (map (\<lambda>v. le_of_nat 2 (f v)) rows)) i = Ok (f (rows ! i))"
    using get_le_column [OF assms(1), of f 2] by (simp add: u16At_def view)
  show "f (rows ! i) < 256 ^ 4 \<Longrightarrow> u32At (b schema) (concat (map (\<lambda>v. le_of_nat 4 (f v)) rows)) i = Ok (f (rows ! i))"
    using get_le_column [OF assms(1), of f 4] by (simp add: u32At_def view)
  show "f (rows ! i) < 256 ^ 8 \<Longrightarrow> u64At (b schema) (concat (map (\<lambda>v. le_of_nat 8 (f v)) rows)) i = Ok (f (rows ! i))"
    using get_le_column [OF assms(1), of f 8] by (simp add: u64At_def view)
qed

lemma offsetAt_sealed:
  assumes "length (concat (map part rows)) < 256 ^ 4" and "j \<le> length rows" "length rows \<le> MAX_BATCH_RESULTS"
  shows "offsetAt (seal_result_batch rows (length rows) schema)
      (concat (map (\<lambda>j. le_of_nat 4 (offset_of (offset_entry part rows j))) [0..<Suc (length rows)])) j
    = Ok (offset_entry part rows j)"
  using offsets_read [OF assms(1,2)] column_lengths [of 4 "\<lambda>j. offset_of (offset_entry part rows j)" "[0..<Suc (length rows)]"]
  by (simp add: offsetAt_def dataView_def sealed_row_count [OF assms(3)] del: upt_Suc)

lemma reason_plain: "text_decode (reason_name r) = Some (reason_name r)"
proof -
  have "list_all printable (ascii (evidence_kind_name k))" for k
    by (cases k) (simp_all add: ascii_def printable_def)
  moreover have "list_all printable (ascii s)"
    if "s \<in> {''evidence:'', ''timeout'', ''cancelled'', ''deadline'', ''transport:'', ''contextInvalidated''}" for s
    using that by (auto simp: ascii_def printable_def)
  ultimately have "list_all printable (reason_name r)" by (cases r) (simp_all add: decimal_printable)
  then show ?thesis by (intro plain_decode printable_plain)
qed

lemma metadataAt_sealed:
  assumes "i < length rows" "length rows \<le> MAX_BATCH_RESULTS" and "list_all row_typed rows"
  shows "metadataAt (seal_result_batch rows (length rows) schema) i = Ok (reason_name (terminal_reason (rows ! i)))"
proof -
  let ?part = "\<lambda>v. reason_name (terminal_reason v)"
  have small: "length (concat (map ?part rows)) < 256 ^ 4"
    using reason_storage [OF assms(3)] assms(2) by (simp add: MAX_BATCH_RESULTS_def)
  note part = offset_part [OF assms(1), of ?part] and read = offsetAt_sealed [OF small _ assms(2)]
  have "offset_entry ?part rows (Suc i) \<le> length (concat (map ?part rows))"
    using offset_entry_mono [of "Suc i" "length rows" ?part rows] assms(1) by simp
  then show ?thesis
    using read [of i schema] read [of "Suc i" schema] assms(1) part
    by (simp add: metadataAt_def sealed_index [OF assms(1,2)] column_values reason_plain del: upt_Suc)
qed

lemma targetAt_sealed:
  assumes "i < length rows" "length rows \<le> MAX_BATCH_RESULTS" and "list_all row_typed rows"
  shows "targetAt (seal_result_batch rows (length rows) schema) i = Ok (target_text (target (result_probe (rows ! i))))"
proof -
  let ?part = "\<lambda>v. octets (target_address (target (result_probe v)))" and ?v = "rows ! i"
  obtain a z where t: "target (result_probe ?v) = ScanTarget a z" by (cases "target (result_probe ?v)")
  have typed: "row_typed ?v" using assms by (simp add: list_all_length)
  have small: "length (concat (map ?part rows)) < 256 ^ 4"
    using address_storage [OF assms(3)] assms(2) by (simp add: MAX_BATCH_RESULTS_def)
  note part = offset_part [OF assms(1), of ?part] and read = offsetAt_sealed [OF small _ assms(2)]
  have "offset_entry ?part rows (Suc i) \<le> length (concat (map ?part rows))"
    using offset_entry_mono [of "Suc i" "length rows" ?part rows] assms(1) by simp
  moreover have "u32At (seal_result_batch rows (length rows) schema)
      (concat (map (\<lambda>v. le_of_nat 4 (case target_scope (target (result_probe v)) of None \<Rightarrow> 0 | Some z \<Rightarrow> z)) rows)) i
      = Ok (case z of None \<Rightarrow> 0 | Some n \<Rightarrow> n)"
    using typed t by (subst le_at_sealed(2) [OF assms(1,2)])
      (auto simp: row_typed_def max_of_def split: option.splits)
  ultimately show ?thesis
    using read [of i schema] read [of "Suc i" schema] assms(1) part typed t
    by (cases a) (auto simp: targetAt_def sealed_index [OF assms(1,2)] column_values row_typed_def Let_def
        simp del: upt_Suc split: option.splits)
qed

text \<open>The optional columns: absent in schema 1, read back in schema 2.\<close>

lemma absent_1:
  assumes "i < length rows" "length rows \<le> MAX_BATCH_RESULTS"
  defines "b \<equiv> seal_result_batch rows (length rows) 1"
  shows "udpU16At b c i = Ok None" "udpCountAt b c i = Ok None" "udpByteAt b c i = Ok None" "serviceMetadataAt b i = Ok None"
proof -
  have "terminal_udp_probe_ids b = None" using schema_1_absent [of rows] by (simp add: b_def v2_columns_def)
  then show "udpU16At b c i = Ok None" "udpCountAt b c i = Ok None" "udpByteAt b c i = Ok None" "serviceMetadataAt b i = Ok None"
    using sealed_index [OF assms(1,2), of 1]
    by (simp_all add: b_def udpU16At_def udpCountAt_def udpByteAt_def serviceMetadataAt_def)
qed

lemma present_2:
  assumes "i < length rows" "length rows \<le> MAX_BATCH_RESULTS"
  defines "b \<equiv> seal_result_batch rows (length rows) 2"
  shows "f (rows ! i) < 256 ^ 2 \<Longrightarrow> udpU16At b (Some (concat (map (\<lambda>v. le_of_nat 2 (f v)) rows))) i = Ok (non_zero (f (rows ! i)))"
    and "f (rows ! i) < 256 ^ 2 \<Longrightarrow> udpCountAt b (Some (concat (map (\<lambda>v. le_of_nat 2 (f v)) rows))) i = Ok (Some (f (rows ! i)))"
    and "f (rows ! i) \<le> 8 \<Longrightarrow> udpByteAt b (Some (map (\<lambda>v. word_of_nat (f v)) rows)) i = Ok (non_zero (f (rows ! i)))"
proof -
  note open_b = sealed_index [OF assms(1,2), of 2] column_values_2(1) [of rows "length rows"]
  show "f (rows ! i) < 256 ^ 2 \<Longrightarrow> udpU16At b (Some (concat (map (\<lambda>v. le_of_nat 2 (f v)) rows))) i = Ok (non_zero (f (rows ! i)))"
    using get_le_column [OF assms(1), of f 2] by (simp add: b_def udpU16At_def open_b)
  show "f (rows ! i) < 256 ^ 2 \<Longrightarrow> udpCountAt b (Some (concat (map (\<lambda>v. le_of_nat 2 (f v)) rows))) i = Ok (Some (f (rows ! i)))"
    using get_le_column [OF assms(1), of f 2] by (simp add: b_def udpCountAt_def open_b)
  show "f (rows ! i) \<le> 8 \<Longrightarrow> udpByteAt b (Some (map (\<lambda>v. word_of_nat (f v)) rows)) i = Ok (non_zero (f (rows ! i)))"
    using assms(1) by (simp add: b_def udpByteAt_def open_b unat_code)
qed

lemma serviceMetadataAt_sealed:
  assumes "i < length rows" "length rows \<le> MAX_BATCH_RESULTS" and "list_all service_ok rows"
  shows "serviceMetadataAt (seal_result_batch rows (length rows) 2) i =
    Ok (map_option (\<lambda>s. projr (decodeServiceMetadataRecord (metadata s))) (row_service (rows ! i)))"
proof -
  let ?v = "rows ! i"
  have ok: "service_ok ?v" using assms by (simp add: list_all_length)
  have small: "length (concat (map row_metadata rows)) < 256 ^ 4"
    using service_storage [OF assms(3)] assms(2) by (simp add: MAX_BATCH_RESULTS_def)
  note part = offset_part [OF assms(1), of row_metadata] and read = offsets_read [OF small]
  have "serviceMetadataAt (seal_result_batch rows (length rows) 2) i =
      (if row_metadata ?v = [] then Ok None else rbind (decodeServiceMetadataRecord (row_metadata ?v)) (\<lambda>m. Ok (Some m)))"
    using read [of i] read [of "Suc i"] assms(1) part
    by (simp add: serviceMetadataAt_def sealed_index [OF assms(1,2)] column_values_2 del: upt_Suc)
  also have "\<dots> = Ok (map_option (\<lambda>s. projr (decodeServiceMetadataRecord (metadata s))) (row_service ?v))"
  proof (cases "row_service ?v")
    case (Some s)
    then have "validateServiceMetadataRecord (metadata s) = Ok ()" using ok by (simp add: service_ok_def)
    from record_nonempty [OF this] validated_decodes [OF this] Some show ?thesis by (auto simp: row_metadata_def)
  qed (simp add: row_metadata_def)
  finally show ?thesis .
qed

definition rtt_shown :: "ScanResult \<Rightarrow> bool" where
  "rtt_shown v \<longleftrightarrow> (case result_rtt v of None \<Rightarrow> True | Some d \<Rightarrow> d * 1000 < MISSING_U64)"

lemma row_common:
  assumes i: "i < length rows" and size: "length rows \<le> MAX_BATCH_RESULTS" and typed: "list_all row_typed rows"
    and rtt: "rtt_shown (rows ! i)"
  defines "b schema \<equiv> seal_result_batch rows (length rows) schema" and "v \<equiv> rows ! i"
  shows "view_port (b schema) i = Ok (port (result_probe v))"
    and "rbind (byteAt (b schema) (states (b schema)) i) decodeState =
      Ok (case outcome v of Network s \<Rightarrow> Some (state_text s) | _ \<Rightarrow> None)"
    and "view_rttNanoseconds (b schema) i = Ok (map_option (\<lambda>d. d * 1000) (result_rtt v))"
    and "rbind (byteAt (b schema) (evidence (b schema)) i) decodeEvidence = Ok (map_option strength_text (evidence_strength v))"
    and "view_probe (b schema) i = Ok (probe_text (family (result_probe v)))"
    and "rbind (byteAt (b schema) (outcomes (b schema)) i) decodeOutcome = Ok (outcome_text (outcome v))"
    and "u32At (b schema) (b_attempts (b schema)) i = Ok (result_attempt v)"
    and "u32At (b schema) (b_transmissions (b schema)) i = Ok (transmissions v)"
    and "u64At (b schema) (timestamps_nanoseconds (b schema)) i = Ok (saturating_mul 64 (terminal_at v) 1000)"
    and "u64At (b schema) (route_generations (b schema)) i = Ok (route_generation v)"
proof -
  have t: "row_typed v" using typed i by (simp add: list_all_length v_def)
  note le = le_at_sealed [OF i size] and byte = byteAt_sealed [OF i size]
  have sat: "saturating_mul 64 a c < 256 ^ 8" for a c by (simp add: saturating_mul_def max_of_def)
  show "view_port (b schema) i = Ok (port (result_probe v))"
    using t unfolding view_port_def b_def column_values
    by (subst le(1)) (auto simp: row_typed_def port_wf_def max_of_def non_zero_def v_def split: option.splits)
  show "rbind (byteAt (b schema) (states (b schema)) i) decodeState =
      Ok (case outcome v of Network s \<Rightarrow> Some (state_text s) | _ \<Rightarrow> None)"
    unfolding b_def column_values
    by (subst byte) (simp_all add: code_bounds state_code_def decoded_names v_def split: ProbeOutcome.splits)
  show "view_rttNanoseconds (b schema) i = Ok (map_option (\<lambda>d. d * 1000) (result_rtt v))"
  proof -
    have "rtt_entry v < 256 ^ 8" using sat by (simp add: rtt_entry_def MISSING_U64_def max_of_def split: option.splits)
    then show ?thesis using rtt unfolding view_rttNanoseconds_def b_def column_values
      by (subst le(3)) (auto simp: rtt_entry_def rtt_shown_def v_def saturating_mul_def MISSING_U64_def split: option.splits)
  qed
  show "rbind (byteAt (b schema) (evidence (b schema)) i) decodeEvidence = Ok (map_option strength_text (evidence_strength v))"
    unfolding b_def column_values
    by (subst byte) (simp_all add: code_bounds strength_code_def decoded_names v_def split: option.splits)
  show "view_probe (b schema) i = Ok (probe_text (family (result_probe v)))"
    unfolding view_probe_def b_def column_values
    by (subst byte) (simp_all add: decoded_names v_def order_trans [OF code_bounds(1)])
  show "rbind (byteAt (b schema) (outcomes (b schema)) i) decodeOutcome = Ok (outcome_text (outcome v))"
    unfolding b_def column_values
    by (subst byte) (simp_all add: decoded_names v_def order_trans [OF code_bounds(2)])
  show "u32At (b schema) (b_attempts (b schema)) i = Ok (result_attempt v)"
      "u32At (b schema) (b_transmissions (b schema)) i = Ok (transmissions v)"
    using t unfolding b_def column_values by (subst le(2); simp add: row_typed_def max_of_def v_def)+
  show "u64At (b schema) (timestamps_nanoseconds (b schema)) i = Ok (saturating_mul 64 (terminal_at v) 1000)"
    using sat unfolding b_def column_values by (subst le(3)) (simp_all add: v_def)
  show "u64At (b schema) (route_generations (b schema)) i = Ok (route_generation v)"
    using t unfolding b_def column_values by (subst le(3)) (simp_all add: row_typed_def max_of_def v_def)
qed


lemma row_decodes:
  assumes i: "i < length rows" and size: "length rows \<le> MAX_BATCH_RESULTS" and typed: "list_all row_typed rows"
    and rtt: "rtt_shown (rows ! i)" and schema: "schema \<in> {1, 2}" and accepted: "list_all (row_accepted schema) rows"
  shows "view_materialize (seal_result_batch rows (length rows) schema) i = Ok (view_of schema (rows ! i))"
proof -
  let ?b = "seal_result_batch rows (length rows) schema" and ?v = "rows ! i"
  note common = row_common [OF i size typed rtt, of schema] targetAt_sealed [OF i size typed, of schema]
    metadataAt_sealed [OF i size typed, of schema]
  have micros: "map_option (\<lambda>n. n div 1000) (map_option (\<lambda>d. d * 1000) (result_rtt ?v)) = result_rtt ?v"
    by (simp add: option.map_comp comp_def option.map_ident)
  have t: "row_typed ?v" using typed i by (simp add: list_all_length)
  show ?thesis
  proof (cases "schema = 2")
    case False
    then have s: "schema = 1" using schema by simp
    note absent = absent_1 [OF i size, folded s]
    show ?thesis
      unfolding view_materialize_def view_udpVariantsAttempted_def common absent micros
      using False by (simp add: micros view_of_def udp_part_def decoded_names)
  next
    case s: True
    have ok: "list_all service_ok rows" using accepted by (simp add: row_accepted_def s list_all_iff)
    note present = present_2 [OF i size, folded s] and codes = row_code_bounds [of ?v]
    have udp: "udpU16At ?b (terminal_udp_probe_ids ?b) i = Ok (non_zero (row_terminal_id ?v))"
        "udpCountAt ?b (udp_variants_attempted ?b) i = Ok (Some (row_variants ?v))"
        "udpU16At ?b (udp_service_families ?b) i = Ok (non_zero (row_family ?v))"
        "udpByteAt ?b (udp_response_kinds ?b) i = Ok (non_zero (row_response_kind ?v))"
        "udpByteAt ?b (udp_service_confidences ?b) i = Ok (non_zero (row_confidence ?v))"
      using present(1) [of row_terminal_id] present(2) [of row_variants] present(1) [of row_family]
        present(3) [of row_response_kind] present(3) [of row_confidence] row_typed_widths [OF t] codes
      by (simp_all add: s column_values_2)
    have service: "serviceMetadataAt ?b i =
        Ok (map_option (\<lambda>s. projr (decodeServiceMetadataRecord (metadata s))) (row_service ?v))"
      using serviceMetadataAt_sealed [OF i size ok] s by simp
    have "service_ok ?v" using ok i by (simp add: list_all_length)
    then have parts: "non_zero (row_terminal_id ?v) = udp_part 2 ?v terminal_probe_id"
        "non_zero (row_family ?v) = udp_part 2 ?v (\<lambda>u. map_option service_evidence_family (result_service u))"
        "decodeUdpResponseKind (non_zero (row_response_kind ?v)) = udp_part 2 ?v (\<lambda>u. response_text (result_response_kind u))"
        "decodeUdpServiceConfidence (non_zero (row_confidence ?v)) =
          udp_part 2 ?v (\<lambda>u. map_option (\<lambda>s. confidence_text (confidence s)) (result_service u))"
      using t by (auto simp: udp_part_def row_terminal_id_def row_family_def row_response_kind_def row_confidence_def
          row_service_def row_typed_def service_ok_def non_zero_def [of 0] decoded_names split: option.splits)
        (simp_all add: non_zero_def)
    have "probe_text f = ''udp'' \<longleftrightarrow> f = Udp" for f by (cases f) simp_all
    then show ?thesis
      unfolding view_materialize_def view_udpVariantsAttempted_def common udp service micros rbind_simps
      by (simp add: micros view_of_def parts s udp) (simp add: udp_part_def row_service_def split: option.splits)
  qed
qed

lemma taken_rows:
  assumes "queue_take maximum k = (Some rows, k')"
  shows "rows \<noteq> []" "length rows \<le> maximum" "set rows \<subseteq> set (q_values (q_queue k))"
proof -
  obtain n bytes where p: "batch_prefix (take maximum (q_values (q_queue k))) 0 0 = (n, bytes)"
    by (cases "batch_prefix (take maximum (q_values (q_queue k))) 0 0")
  then have "n \<le> length (take maximum (q_values (q_queue k)))" using batch_prefix_spec [OF p le0] by auto
  moreover have "q_values (q_queue k) \<noteq> []" "n \<noteq> 0" "rows = take n (q_values (q_queue k))"
    using assms p by (auto simp: queue_take_def Let_def split: if_splits)
  ultimately show "rows \<noteq> []" "length rows \<le> maximum" "set rows \<subseteq> set (q_values (q_queue k))"
    by (auto dest: in_set_takeD)
qed

lemma taken_batch:
  assumes "queue_take_batch maximum k = (Some b, k')"
  shows "\<exists>rows. queue_take maximum k = (Some rows, k') \<and> b = seal_result_batch rows (length rows) (schema_version (q_queue k))"
  using assms by (cases "queue_take maximum k") (auto simp: queue_take_batch_def)

section \<open>Claims\<close>

text \<open>
  C4. The consumer accepts a batch taken from the queue exactly when every row of it is
  acceptable: in schema 1 the evidence has one of the four original strengths, in schema 2
  an identified service has a non-zero family and a record that validates. Sizes, column
  widths, offsets and codes never cause a refusal.
\<close>

theorem batch_accepted_iff:
  assumes "queue_take_batch maximum k = (Some b, k')" and "maximum \<le> MAX_BATCH_RESULTS" 
    and "schema_version (q_queue k) = schema" "schema \<in> {1, 2}"
    and "list_all row_typed (q_values (q_queue k))"
  shows "\<exists>rows. queue_take maximum k = (Some rows, k') \<and>
    (is_ok (ScanResultBatch_new (from_sealed b)) \<longleftrightarrow> list_all (row_accepted schema) rows)"
proof -
  obtain rows where r: "queue_take maximum k = (Some rows, k')" "b = seal_result_batch rows (length rows) schema"
    using taken_batch [OF assms(1)] assms(3) by blast
  note rows = taken_rows [OF r(1)]
  have "list_all row_typed rows" using rows(3) assms(5) by (auto simp: list_all_iff)
  from accepted_sealed_iff [OF this rows(1) order_trans [OF rows(2) assms(2)] assms(4)] r show ?thesis
    by (auto simp: is_ok_iff)
qed

text \<open>
  C3. An accepted batch decodes to the results that were taken from the queue: row by row
  the consumer's object shows target, probe, port, state, outcome, attempt, transmissions,
  round-trip time, timestamp, route generation, evidence, reason and service identity of the
  sealed result, and indexing from either end reaches exactly these rows.
\<close>

theorem batch_roundtrip:
  assumes "queue_take_batch maximum k = (Some b, k')" and "maximum \<le> MAX_BATCH_RESULTS" 
    and "schema_version (q_queue k) = schema" "schema \<in> {1, 2}"
    and "list_all row_typed (q_values (q_queue k))" and "list_all rtt_shown (q_values (q_queue k))"
    and "ScanResultBatch_new (from_sealed b) = Ok batch"
  shows "\<exists>rows. queue_take maximum k = (Some rows, k') \<and> batch_materialize batch = Ok (map (view_of schema) rows) \<and>
    (\<forall>index. batch_at batch index =
      Ok (if - int (length rows) \<le> index \<and> index < int (length rows) then Some (nat (index mod int (length rows))) else None))"
proof -
  obtain rows where r: "queue_take maximum k = (Some rows, k')" "b = seal_result_batch rows (length rows) schema"
    using taken_batch [OF assms(1)] assms(3) by blast
  note rows = taken_rows [OF r(1)]
  have typed: "list_all row_typed rows" and rtt: "list_all rtt_shown rows" and size: "length rows \<le> MAX_BATCH_RESULTS"
    using rows assms(2,5,6) by (auto simp: list_all_iff)
  have b: "batch = b" and accepted: "list_all (row_accepted schema) rows"
    using assms(7) accepted_sealed_iff [OF typed rows(1) size assms(4)] r(2) by auto
  have "view_materialize batch i = Ok (view_of schema (rows ! i))" if "i < length rows" for i
    using row_decodes [OF that size typed _ assms(4) accepted] rtt that r(2) b by (simp add: list_all_length)
  then have "list_all2 (\<lambda>i y. view_materialize batch i = Ok y) [0..<length rows] (map (view_of schema) rows)"
    by (simp add: list_all2_conv_all_nth)
  then have all: "batch_materialize batch = Ok (map (view_of schema) rows)"
    using size r(2) b by (simp add: batch_materialize_def sealed_row_count rmap_Ok_iff)
  have at: "batch_at batch index =
      Ok (if - int (length rows) \<le> index \<and> index < int (length rows) then Some (nat (index mod int (length rows))) else None)" for index
  proof (cases "index < 0")
    case True
    then have "index mod int (length rows) = int (length rows) + index" if "- int (length rows) \<le> index"
      using that mod_pos_pos_trivial [of "index + int (length rows)" "int (length rows)"] True by simp
    then show ?thesis using True sealed_attached [OF rows(1)] size r(2) b
      by (auto simp: batch_at_def sealed_row_count Let_def)
  next
    case False
    then show ?thesis using sealed_attached [OF rows(1)] size r(2) b
      by (auto simp: batch_at_def sealed_row_count Let_def)
  qed
  show ?thesis using r(1) all at by blast
qed

text \<open>One identified CoAP service.\<close>

definition example_row :: ScanResult where
  "example_row =
     \<lparr>result_probe = \<lparr>logical_id = 0, attempt = 0, target = ScanTarget (V4 [192, 0, 2, 1]) None, family = Udp, port = Some 5683\<rparr>,
      outcome = Network Open, evidence_strength = Some ProtocolTransaction16, result_attempt = 0, transmissions = 1,
      result_rtt = Some 250, terminal_at = 1000, route_generation = 3, terminal_reason = ReasonEvidence UdpReply,
      udp = Some \<lparr>terminal_probe_id = Some 6, variants_attempted = 1, result_response_kind = DirectUdp, result_contradictions = 0,
        result_service = Some \<lparr>service_evidence_family = 6, confidence = TransactionCorrelated,
          metadata = [1, 4, 0, 67, 111, 65, 80, 0, 0, 0]\<rparr>\<rparr>\<rparr>"

definition example_rows :: QueueSink where
  "example_rows = \<lparr>q_queue = (ResultQueue_new 2 2)\<lparr>q_values := [example_row], queued_metadata_bytes := 10\<rparr>, environment_bytes = 10\<rparr>"

lemma example_rows_ok:
  "list_all row_typed (q_values (q_queue example_rows))" "list_all rtt_shown (q_values (q_queue example_rows))"
  "schema_version (q_queue example_rows) = 2" "row_accepted 2 example_row"
  "fst (queue_take 512 example_rows) = Some [example_row]"
  by (simp_all add: example_rows_def example_row_def row_typed_def rtt_shown_def row_accepted_def service_ok_def row_service_def
      ResultQueue_new_def Let_def max_of_def port_wf_def MISSING_U64_def validateServiceMetadataRecord_def js_byte_def js_string_def
      js_u16_def record_bounds text_decode_def queue_take_def row_bytes_def saturating_add_def MAX_BATCH_SERVICE_METADATA_BYTES_def)

lemma example_taken:
  "queue_take_batch 512 example_rows = (Some (seal_result_batch [example_row] 1 2), snd (queue_take 512 example_rows))"
  using example_rows_ok(3,5) by (cases "queue_take 512 example_rows") (simp add: queue_take_batch_def)

theorem batch_accepted_iff_witness: "is_ok (ScanResultBatch_new (from_sealed (seal_result_batch [example_row] 1 2)))"
  using batch_accepted_iff [OF example_taken _ example_rows_ok(3) _ example_rows_ok(1)] example_rows_ok(4,5)
  by (cases "queue_take 512 example_rows") (auto simp: MAX_BATCH_RESULTS_def)

theorem batch_roundtrip_witness:
  "batch_materialize (projr (ScanResultBatch_new (from_sealed (seal_result_batch [example_row] 1 2)))) = Ok [view_of 2 example_row]"
proof -
  have new: "ScanResultBatch_new (from_sealed (seal_result_batch [example_row] 1 2)) = Ok (seal_result_batch [example_row] 1 2)"
    using accepted_sealed_iff [of "[example_row]" 2] example_rows_ok(1,4)
    by (simp add: MAX_BATCH_RESULTS_def example_rows_def)
  from batch_roundtrip [OF example_taken _ example_rows_ok(3) _ example_rows_ok(1,2) new] example_rows_ok(5) new
  show ?thesis by (cases "queue_take 512 example_rows") (auto simp: MAX_BATCH_RESULTS_def)
qed

end
