(* ===== verification/Target_Text.thy ===== *)
theory Target_Text
  imports Batch_Properties
begin

text \<open>
  The texts the consumer prints for targets. A reader that splits a text at its separators
  recovers address and zone, so two targets never share a text; in particular the
  compression of zero groups in \<^verbatim>\<open>ipv6String\<close> loses nothing.
\<close>

section \<open>Splitting at a separator\<close>

fun pieces :: "u8 \<Rightarrow> Text \<Rightarrow> Text list" where
  "pieces c [] = [[]]"
| "pieces c (x # xs) =
     (if x = c then [] # pieces c xs else case pieces c xs of [] \<Rightarrow> [[x]] | p # ps \<Rightarrow> (x # p) # ps)"

lemma pieces_plain: "c \<notin> set t \<Longrightarrow> pieces c t = [t]"
  by (induction t) auto

lemma pieces_append: "c \<notin> set t \<Longrightarrow> pieces c (t @ c # rest) = t # pieces c rest"
  by (induction t) auto

lemma pieces_join:
  "list_all (\<lambda>t. c \<notin> set t) ts \<Longrightarrow> pieces c (join [c] ts) = (if ts = [] then [[]] else ts)"
  by (induction "[c]" ts rule: join.induct) (auto simp: pieces_plain pieces_append)

lemma pieces_join_append:
  "list_all (\<lambda>t. c \<notin> set t) ts \<Longrightarrow> pieces c (join [c] ts @ c # rest) = (if ts = [] then [[]] else ts) @ pieces c rest"
  by (induction "[c]" ts rule: join.induct) (auto simp: pieces_append)

section \<open>Digits\<close>

fun digits_value :: "nat \<Rightarrow> (u8 \<Rightarrow> nat) \<Rightarrow> Text \<Rightarrow> nat" where
  "digits_value base digit t = foldl (\<lambda>n b. n * base + digit b) 0 t"

definition decimal_digit :: "u8 \<Rightarrow> nat" where
  "decimal_digit b = unat b - 48"

definition hex_value :: "u8 \<Rightarrow> nat" where
  "hex_value b = (if unat b < 58 then unat b - 48 else unat b - 87)"

lemma decimal_digit_of: "d < 10 \<Longrightarrow> decimal_digit (word_of_nat (48 + d)) = d"
  by (simp add: decimal_digit_def unat_of_nat del: of_nat_add)

lemma hex_value_of: "d < 16 \<Longrightarrow> hex_value (hex_digit d) = d"
  by (simp add: hex_value_def hex_digit_def unat_of_nat del: of_nat_add)

lemma decimal_value: "digits_value 10 decimal_digit (decimal n) = n"
proof (induction n rule: decimal.induct)
  case (1 n)
  then show ?case
    by (cases "n < 10") (subst decimal.simps, simp add: decimal_digit_of del: of_nat_add)+
qed

lemma hexadecimal_value: "digits_value 16 hex_value (hexadecimal n) = n"
proof (induction n rule: hexadecimal.induct)
  case (1 n)
  then show ?case by (cases "n < 16") (subst hexadecimal.simps, simp add: hex_value_of)+
qed

definition is_hex :: "u8 \<Rightarrow> bool" where
  "is_hex b \<longleftrightarrow> (48 \<le> b \<and> b \<le> 57) \<or> (97 \<le> b \<and> b \<le> 102)"

lemma decimal_digits: "list_all (\<lambda>b. 48 \<le> b \<and> b \<le> 57) (decimal n)"
proof (induction n rule: decimal.induct)
  case (1 n)
  have "48 \<le> (word_of_nat (48 + d) :: u8) \<and> (word_of_nat (48 + d) :: u8) \<le> 57" if "d < 10" for d
    using that by (simp add: word_le_nat_alt unat_of_nat del: of_nat_add)
  with 1 show ?case by (cases "n < 10") (subst decimal.simps, simp del: of_nat_add)+
qed

lemma hexadecimal_digits: "list_all is_hex (hexadecimal n) \<and> hexadecimal n \<noteq> []"
proof (induction n rule: hexadecimal.induct)
  case (1 n)
  have "is_hex (hex_digit d)" if "d < 16" for d
    using that by (auto simp: is_hex_def hex_digit_def word_le_nat_alt unat_of_nat simp del: of_nat_add)
  with 1 show ?case by (cases "n < 16") (subst hexadecimal.simps, simp)+
qed

lemma separators_apart:
  "0x2E \<notin> set (decimal n)" "0x3A \<notin> set (decimal n)" "0x25 \<notin> set (decimal n)"
  "0x3A \<notin> set (hexadecimal n)" "0x25 \<notin> set (hexadecimal n)"
  using decimal_digits [of n] hexadecimal_digits [of n] by (auto simp: list_all_iff is_hex_def)

section \<open>Zero runs\<close>

lemma zero_end_zeros:
  "finish \<le> length groups \<Longrightarrow> zero_end groups finish \<le> length groups \<and>
    (\<forall>j. finish \<le> j \<and> j < zero_end groups finish \<longrightarrow> groups ! j = 0)"
proof (induction groups finish rule: zero_end.induct)
  case (1 groups finish)
  show ?case
  proof (cases "finish < length groups \<and> groups ! finish = 0")
    case True
    then have step: "zero_end groups finish = zero_end groups (finish + 1)" by (subst zero_end.simps) simp
    have IH: "zero_end groups (finish + 1) \<le> length groups"
        "\<And>j. finish + 1 \<le> j \<Longrightarrow> j < zero_end groups (finish + 1) \<Longrightarrow> groups ! j = 0"
      using 1(1) [OF True] True by auto
    have "groups ! j = 0" if "finish \<le> j" "j < zero_end groups (finish + 1)" for j
      using IH(2) [of j] that True by (cases "j = finish") auto
    then show ?thesis using IH(1) unfolding step by simp
  next
    case False
    then have "zero_end groups finish = finish" by (subst zero_end.simps) auto
    then show ?thesis using 1(2) by simp
  qed
qed

definition zero_run :: "nat list \<Rightarrow> nat \<times> nat \<Rightarrow> bool" where
  "zero_run groups r \<longleftrightarrow> fst r + snd r \<le> length groups \<and> (\<forall>j. fst r \<le> j \<and> j < fst r + snd r \<longrightarrow> groups ! j = 0)"

lemma best_run_zeros: "zero_run groups (s, n) \<Longrightarrow> zero_run groups (best_run groups start s n)"
proof (induction groups start s n rule: best_run.induct)
  case (1 groups start s n)
  show ?case
  proof (cases "start < length groups \<and> groups ! start = 0")
    case False
    then show ?thesis using 1 by (subst best_run.simps) auto
  next
    case True
    let ?f = "zero_end groups (start + 1)"
    have f: "?f \<le> length groups" "\<And>j. start + 1 \<le> j \<Longrightarrow> j < ?f \<Longrightarrow> groups ! j = 0" "start + 1 \<le> ?f"
      using zero_end_zeros [of "start + 1" groups] zero_end_ge [of "start + 1" groups] True by auto
    have "groups ! j = 0" if "start \<le> j" "j < ?f" for j
      using f(2) [of j] that True by (cases "j = start") auto
    then have run: "zero_run groups (start, ?f - start)" using f(1,3) by (simp add: zero_run_def)
    show ?thesis
    proof (cases "n < ?f - start \<and> 2 \<le> ?f - start")
      case inner: True
      then have "best_run groups start s n = best_run groups ?f start (?f - start)"
        using True by (subst best_run.simps) (simp add: Let_def)
      then show ?thesis using 1(2) [OF _ _ refl inner run] True by simp
    next
      case inner: False
      then have "best_run groups start s n = best_run groups ?f s n"
        using True by (subst best_run.simps) (auto simp: Let_def)
      then show ?thesis using 1(3) [OF _ _ refl inner 1(4)] True by simp
    qed
  qed
qed

lemma zero_run_split:
  assumes "zero_run groups (s, n)"
  shows "groups = take s groups @ replicate n 0 @ drop (s + n) groups"
proof (rule nth_equalityI)
  show "length groups = length (take s groups @ replicate n 0 @ drop (s + n) groups)"
    using assms by (simp add: zero_run_def)
next
  fix j assume "j < length groups"
  then show "groups ! j = (take s groups @ replicate n 0 @ drop (s + n) groups) ! j"
    using assms by (auto simp: zero_run_def nth_append min_def)
qed

section \<open>Reading addresses back\<close>

definition read_groups :: "Text \<Rightarrow> nat list" where
  "read_groups t =
     (let ps = pieces 0x3A t; number = digits_value 16 hex_value
      in if [] \<notin> set ps then map number ps
         else let left = takeWhile (\<lambda>p. p \<noteq> []) ps; right = rev (takeWhile (\<lambda>p. p \<noteq> []) (rev ps))
              in map number left @ replicate (8 - length left - length right) 0 @ map number right)"

lemma colon: "ascii '':'' = [0x3A]" and dot: "ascii ''.'' = [0x2E]" and percent: "ascii ''%'' = [0x25]"
  by (simp_all add: ascii_def)

lemma map_hex_value: "map (digits_value 16 hex_value) (map hexadecimal gs) = gs"
  using hexadecimal_value by (simp add: comp_def del: digits_value.simps)

lemma hex_pieces:
  "list_all (\<lambda>t. 0x3A \<notin> set t) (map hexadecimal gs)" "[] \<notin> set (map hexadecimal gs)"
  using separators_apart hexadecimal_digits by (auto simp: list_all_iff eq_commute [of "[]"])

lemma takeWhile_pieces:
  "[] \<notin> set ts \<Longrightarrow> takeWhile (\<lambda>p. p \<noteq> []) ((if ts = [] then [[]] else ts) @ [] # rest) = ts"
  by (induction ts) (auto split: if_splits)

lemma read_ipv6: "read_groups (ipv6String bytes) = ipv6_groups bytes"
proof -
  let ?gs = "ipv6_groups bytes"
  obtain s n where r: "best_run ?gs 0 0 0 = (s, n)" by (cases "best_run ?gs 0 0 0")
  have len: "length ?gs = 8" by (simp add: ipv6_groups_def)
  have run: "zero_run ?gs (s, n)" using best_run_zeros [of ?gs 0 0 0] r by (simp add: zero_run_def)
  show ?thesis
  proof (cases "n = 0")
    case True
    have "map hexadecimal ?gs \<noteq> []" using len by auto
    then have "pieces 0x3A (ipv6String bytes) = map hexadecimal ?gs"
      using r True hex_pieces [of ?gs] by (simp add: ipv6String_def Let_def colon pieces_join)
    then show ?thesis using hex_pieces(2) [of ?gs] by (simp add: read_groups_def Let_def map_hex_value del: digits_value.simps map_map)
  next
    case False
    let ?l = "map hexadecimal (take s ?gs)" and ?r = "map hexadecimal (drop (s + n) ?gs)"
    let ?ps = "(if ?l = [] then [[]] else ?l) @ [] # (if ?r = [] then [[]] else ?r)"
    have ps: "pieces 0x3A (ipv6String bytes) = ?ps"
      using r False hex_pieces(1) [of "take s ?gs"] hex_pieces(1) [of "drop (s + n) ?gs"]
      by (simp add: ipv6String_def Let_def colon pieces_join pieces_join_append)
    have left: "takeWhile (\<lambda>p. p \<noteq> []) ?ps = ?l" by (rule takeWhile_pieces [OF hex_pieces(2)])
    have "rev ?ps = (if rev ?r = [] then [[]] else rev ?r) @ [] # rev (if ?l = [] then [[]] else ?l)" by simp
    moreover have "[] \<notin> set (rev ?r)" using hex_pieces(2) by simp
    ultimately have right: "takeWhile (\<lambda>p. p \<noteq> []) (rev ?ps) = rev ?r" using takeWhile_pieces by metis
    have "8 - length ?l - length ?r = n" using run len by (simp add: zero_run_def)
    then have "read_groups (ipv6String bytes) = take s ?gs @ replicate n 0 @ drop (s + n) ?gs"
      unfolding read_groups_def ps Let_def left right rev_rev_ident map_hex_value by simp
    then show ?thesis using zero_run_split [OF run] by simp
  qed
qed

lemma groups_inject:
  assumes "length bs = 16" "length bs' = 16" and "ipv6_groups bs = ipv6_groups bs'"
  shows "bs = bs'"
proof (rule nth_equalityI)
  fix j assume j: "j < length bs"
  define i where "i = j div 2"
  have i: "i < 8" using j assms(1) by (auto simp: i_def)
  then have lt: "i * 2 < 16" "i * 2 + 1 < 16" by simp_all
  have "ipv6_groups bs ! i = ipv6_groups bs' ! i" using assms(3) by simp
  then have eq: "unat (bs ! (i * 2)) * 256 + unat (bs ! (i * 2 + 1)) = unat (bs' ! (i * 2)) * 256 + unat (bs' ! (i * 2 + 1))"
    using i lt assms by (simp add: ipv6_groups_def byte_or_zero_def)
  have low: "unat (bs ! (i * 2 + 1)) < 256" "unat (bs' ! (i * 2 + 1)) < 256" using unsigned_less [where ?'b = 8 and ?'a = nat] by simp_all
  have high: "unat (bs ! (i * 2)) = unat (bs' ! (i * 2))" using eq low by linarith
  then have "unat (bs ! (i * 2 + 1)) = unat (bs' ! (i * 2 + 1))" using eq by linarith
  with high have "bs ! (i * 2) = bs' ! (i * 2)" "bs ! (i * 2 + 1) = bs' ! (i * 2 + 1)" by (simp_all add: word_eq_iff_unsigned [where ?'a = nat])
  moreover have "j = i * 2 \<or> j = i * 2 + 1" by (auto simp: i_def)
  ultimately show "bs ! j = bs' ! j" by auto
qed (use assms in simp)

lemma read_ipv4:
  assumes "bs \<noteq> []"
  shows "map (digits_value 10 decimal_digit) (pieces 0x2E (ipv4String bs)) = map unat bs"
proof -
  have "list_all (\<lambda>t. 0x2E \<notin> set t) (map (\<lambda>b. decimal (unat b)) bs)"
    using separators_apart by (simp add: list_all_iff)
  then have "pieces 0x2E (ipv4String bs) = map (\<lambda>b. decimal (unat b)) bs"
    using assms by (simp add: ipv4String_def dot pieces_join)
  then show ?thesis using decimal_value by (simp del: digits_value.simps)
qed

lemma set_join: "set (join sep ts) \<subseteq> set sep \<union> \<Union> (set ` set ts)"
  by (induction sep ts rule: join.induct) auto

lemma ipv4_characters: "0x3A \<notin> set (ipv4String bs)" "0x25 \<notin> set (ipv4String bs)"
  using set_join [of "ascii ''.''" "map (\<lambda>b. decimal (unat b)) bs"] separators_apart by (auto simp: ipv4String_def dot)

lemma ipv6_percent: "0x25 \<notin> set (ipv6String bs)"
proof -
  have "0x25 \<notin> set (join [0x3A] (map hexadecimal gs))" for gs
    using set_join [of "[0x3A]" "map hexadecimal gs"] separators_apart by auto
  then show ?thesis by (auto simp: ipv6String_def Let_def colon split: prod.split)
qed

lemma join_separated: "2 \<le> length ts \<Longrightarrow> c \<in> set (join [c] ts)"
  by (cases "([c], ts)" rule: join.cases) auto

lemma ipv6_colon: "0x3A \<in> set (ipv6String bs)"
proof -
  have "2 \<le> length (map hexadecimal (ipv6_groups bs))" by (simp add: ipv6_groups_def)
  from join_separated [OF this, of "0x3A"] show ?thesis
    by (cases "best_run (ipv6_groups bs) 0 0 0") (simp add: ipv6String_def Let_def colon)
qed

definition address_text :: "IpAddress \<Rightarrow> Text" where
  "address_text a = (case a of V4 os \<Rightarrow> ipv4String os | V6 os \<Rightarrow> ipv6String os)"

lemma address_text_inject:
  assumes "ip_wf a" "ip_wf a'" and "address_text a = address_text a'"
  shows "a = a'"
proof (cases a)
  case a: (V4 os)
  show ?thesis
  proof (cases a')
    case a': (V4 os')
    have ne: "os \<noteq> []" "os' \<noteq> []" using assms a a' by auto
    have "ipv4String os = ipv4String os'" using assms(3) a a' by (simp add: address_text_def)
    then have "map unat os = map unat os'"
      unfolding read_ipv4 [OF ne(1), symmetric] read_ipv4 [OF ne(2), symmetric] by simp
    then have "os = os'" by (simp only: inj_map_eq_map [OF inj_unsigned])
    then show ?thesis using a a' by simp
  next
    case (V6 os')
    then show ?thesis using a assms(3) ipv4_characters(1) [of os] ipv6_colon [of os'] by (simp add: address_text_def)
  qed
next
  case a: (V6 os)
  show ?thesis
  proof (cases a')
    case a': (V4 os')
    then show ?thesis using a assms(3) ipv4_characters(1) [of os'] ipv6_colon [of os] by (auto simp: address_text_def)
  next
    case a': (V6 os')
    have "ipv6_groups os = ipv6_groups os'" using assms(3) a a' read_ipv6 by (metis IpAddress.simps(6) address_text_def)
    then show ?thesis using groups_inject assms a a' by simp
  qed
qed

lemma address_percent: "0x25 \<notin> set (address_text a)"
  by (cases a) (simp_all add: address_text_def ipv4_characters ipv6_percent)

lemma target_text_split:
  "pieces 0x25 (target_text (ScanTarget a z)) = address_text a # (case z of None \<Rightarrow> [] | Some n \<Rightarrow> [decimal n])"
proof (cases z)
  case None
  then show ?thesis using pieces_plain [OF address_percent [of a]] by (simp add: address_text_def)
next
  case (Some n)
  then show ?thesis
    using pieces_append [OF address_percent [of a], of "decimal n"] pieces_plain [OF separators_apart(3) [of n]]
    by (simp add: address_text_def percent)
qed

section \<open>Claims\<close>

text \<open>
  C30. The consumer can tell targets apart: two rows show the same target text exactly when
  they are about the same address and zone. The compressed notation of \<^verbatim>\<open>ipv6String\<close> and the
  zone suffix lose nothing.
\<close>

theorem target_text_identifies:
  assumes "row_typed v" and "row_typed v'"
  shows "js_target (view_of schema v) = js_target (view_of schema' v') \<longleftrightarrow> target (result_probe v) = target (result_probe v')"
proof
  assume eq: "js_target (view_of schema v) = js_target (view_of schema' v')"
  obtain a z a' z' where t: "target (result_probe v) = ScanTarget a z" "target (result_probe v') = ScanTarget a' z'"
    by (cases "target (result_probe v)", cases "target (result_probe v')")
  have "pieces 0x25 (target_text (ScanTarget a z)) = pieces 0x25 (target_text (ScanTarget a' z'))"
    using eq t by (simp only: view_of_def JsScanResult.simps)
  then have same: "address_text a = address_text a'"
      and zone: "(case z of None \<Rightarrow> [] | Some n \<Rightarrow> [decimal n]) = (case z' of None \<Rightarrow> [] | Some n \<Rightarrow> [decimal n])"
    unfolding target_text_split by simp_all
  have "m = n" if "decimal m = decimal n" for m n using that decimal_value by metis
  then have "z = z'" using zone by (auto split: option.splits)
  moreover have "a = a'" using assms t same by (intro address_text_inject) (simp_all add: row_typed_def)
  ultimately show "target (result_probe v) = target (result_probe v')" using t by simp
qed (simp add: view_of_def)

theorem target_text_identifies_witness:
  "js_target (view_of 2 example_row) \<noteq>
   js_target (view_of 1 (example_row\<lparr>result_probe := (result_probe example_row)\<lparr>target := ScanTarget (V6 (replicate 15 0 @ [1])) (Some 2)\<rparr>\<rparr>))"
proof -
  have "row_typed example_row" using example_rows_ok(1) by (simp add: example_rows_def)
  moreover have "row_typed (example_row\<lparr>result_probe := (result_probe example_row)\<lparr>target := ScanTarget (V6 (replicate 15 0 @ [1])) (Some 2)\<rparr>\<rparr>)"
    using calculation by (simp add: row_typed_def max_of_def)
  ultimately show ?thesis by (subst target_text_identifies) (simp_all add: example_row_def)
qed

end
