(* ===== verification/Spec2Isabelle.thy ===== *)
theory Spec2Isabelle
  imports Target_Properties Scheduler_Properties Scheduler_Failures Queue_Session Udp_Safe_Properties Target_Text
begin

text \<open>
  A verification library for \<^verbatim>\<open>nodenet\<close>, a network scanner: a deterministic, syscall-free
  scheduling engine (\<^verbatim>\<open>crates/nodenetscanner-engine\<close>), byte codecs for the protocols it speaks
  (\<^verbatim>\<open>crates/nodenet-protocols\<close>), a native session layer around both
  (\<^verbatim>\<open>crates/nodenetscanner-native\<close>) and a TypeScript package that consumes the results
  (\<^verbatim>\<open>packages/nodenetscanner\<close>). All paths are relative to \<^verbatim>\<open>src/\<close>.

  \<^bold>\<open>How the parts interact.\<close> A plan is the product of attempts, probe definitions, targets
  and ports. The scheduler walks a seeded permutation of its logical identifiers, resolves
  a route for each, reserves a row in the result sink, sends frames under a token bucket,
  retransmits on timeouts and turns evidence or silence into exactly one result per
  identifier. The sink is a bounded queue whose other end is the JavaScript consumer. UDP
  probes carry a protocol request; a recognised answer becomes a metadata record that the
  consumer decodes.

  \<^bold>\<open>Common vocabulary.\<close>
  \<^item> \<^verbatim>\<open>Prelude\<close>: results as sums, checked and saturating arithmetic with the width as an
    argument, the standard library's binary search.
  \<^item> \<^verbatim>\<open>Ordered_Map\<close>: \<^verbatim>\<open>BTreeMap\<close> as a sorted association list, as a locale of map laws with its
    interpretation, and the occupancy counters built on it.
  \<^item> \<^verbatim>\<open>Net_Types\<close>, \<^verbatim>\<open>Engine_Types\<close>: addresses, ports, time, configuration and its validation,
    probes, evidence, results and errors.
  \<^item> \<^verbatim>\<open>Effects\<close>: state-passing actions that keep the changes made before an error, with panics
    as a fault of their own, and a weakest-precondition calculus.
  \<^item> \<^verbatim>\<open>Byte_Codec\<close>: parsers in which every out-of-range access is a panic, little-endian
    integers, decimal texts and the UTF-8 decoder of the consumer.

  \<^bold>\<open>The engine.\<close>
  \<^item> \<^verbatim>\<open>Permutation\<close> (\<^verbatim>\<open>permutation.rs\<close>): the seeded affine permutation; its multiplier search
    terminates and the result is a bijection.
  \<^item> \<^verbatim>\<open>Timing\<close> (\<^verbatim>\<open>timing.rs\<close>): token bucket and round-trip estimator; rate bound, exact
    next-ready time, bounded monotone back-off, and an estimate that stays within its samples.
  \<^item> \<^verbatim>\<open>Targets\<close>, \<^verbatim>\<open>Target_Properties\<close> (\<^verbatim>\<open>target.rs\<close>): normalisation of includes and exclusions
    to disjoint intervals with the denoted set and count, lazy decoding as an enumeration,
    exact membership tests, and a disagreement between the two scope checks.
  \<^item> \<^verbatim>\<open>Udp_Programme\<close>, \<^verbatim>\<open>Plan\<close> (\<^verbatim>\<open>udp_programme.rs\<close>, \<^verbatim>\<open>plan.rs\<close>): which variants are
    selected for an address and a port, and the decoding of logical identifiers as a bijection
    onto the product.
  \<^item> \<^verbatim>\<open>Scheduler_State\<close>, \<^verbatim>\<open>Scheduler\<close>, \<^verbatim>\<open>Scheduler_Drive\<close> (\<^verbatim>\<open>scheduler.rs\<close>, \<^verbatim>\<open>traits.rs\<close>): the state
    record and one action per operation. The transport, the route resolver and the sink are
    the fields of an environment record with arbitrary answers and arbitrary state. A ghost
    trace records what was sent, reserved, delivered and released; no operation reads it.
  \<^item> \<^verbatim>\<open>Scheduler_Inv\<close> states the invariant in groups (tables, occupancy counters, links between
    programmes and their frames, identifiers, trace, capacities, lifecycle, transmission and
    rate budgets). \<^verbatim>\<open>Scheduler_Moves\<close>, \<^verbatim>\<open>Scheduler_Moves_Admit\<close>, \<^verbatim>\<open>Scheduler_Moves_Wire\<close> show
    that the elementary state changes keep it; \<^verbatim>\<open>Scheduler_Ends\<close>, \<^verbatim>\<open>Scheduler_Stops\<close>,
    \<^verbatim>\<open>Scheduler_Admission\<close>, \<^verbatim>\<open>Scheduler_Frames\<close>, \<^verbatim>\<open>Scheduler_Clock\<close>, \<^verbatim>\<open>Scheduler_Answers\<close> lift
    that to every operation with all of its error paths.
  \<^item> \<^verbatim>\<open>Scheduler_Session\<close> closes the loop: the exact wake-up time of a drive, requests of the
    embedder, sessions as sequences of them, and the safety of each request.
    \<^verbatim>\<open>Scheduler_Constant\<close> has the locales for relations that hold on success and on failure
    alike; \<^verbatim>\<open>Scheduler_Lifecycle\<close> interprets them on the phases of a session and gives the edges
    of every request. \<^verbatim>\<open>Scheduler_Examples\<close> evaluates a session; \<^verbatim>\<open>Scheduler_Properties\<close> holds
    the claims about whole sessions.

  \<^bold>\<open>What a session is.\<close> The claims about sessions hold for every sequence of requests, and also
  after requests that failed, with one exception. A request that fails because the result sink
  failed, because a time left the range of 64 bits or because a counter is exhausted ends the
  session (\<^verbatim>\<open>breaking\<close> in \<^verbatim>\<open>Scheduler_Ends\<close>). The claims about one request (no internal fault, results
  at most once, lifecycle edges) cover these failures too. What an embedder sees that goes on
  after a failing sink is evaluated in \<^verbatim>\<open>Scheduler_Failures\<close>: a lost probe, a leaked reservation, a
  repeated cleanup frame.

  \<^bold>\<open>The result path.\<close>
  \<^item> \<^verbatim>\<open>Result_Queue\<close> (\<^verbatim>\<open>nodenetscanner-native/src/session.rs\<close>): the bounded queue refines an
    abstract ledger of reservations and rows.
  \<^item> \<^verbatim>\<open>Queue_Session\<close>: the scheduler with the queue as its sink, interleaved with a consumer
    and with other sessions; the interpretation of the locale of \<^verbatim>\<open>Scheduler_Constant\<close> on the
    agreement between queue and trace gives the end-to-end claims. Rows the consumer received
    are kept apart from rows that were discarded.
  \<^item> \<^verbatim>\<open>Service_Record\<close> (\<^verbatim>\<open>udp_safe.rs\<close> and \<^verbatim>\<open>packages/nodenetscanner/src/index.ts\<close>): the metadata
    record written in Rust and read in TypeScript.
  \<^item> \<^verbatim>\<open>Udp_Safe\<close>, \<^verbatim>\<open>Udp_Safe_Properties\<close> (\<^verbatim>\<open>nodenet-protocols/src/udp_safe.rs\<close>): the requests and
    response parsers of the safe UDP probes. No datagram makes a parser panic, an answer
    counts as correlated exactly when it carries the transaction of its request, and exactly one
    of the codecs writes a record that the consumer refuses.

  \<^item> \<^verbatim>\<open>Result_Batch\<close> (\<^verbatim>\<open>session.rs\<close>, \<^verbatim>\<open>packages/nodenetscanner/src/index.ts\<close>): the columnar batch, its
    sealing in Rust, its validation and lazy row views in TypeScript. \<^verbatim>\<open>Batch_Properties\<close> has a
    locale for a column that grows row by row, interpreted on every column, and shows which
    batches are accepted and that accepted rows are read back as they were. \<^verbatim>\<open>Target_Text\<close>
    shows that the printed target identifies address and zone.

  The claim at the end of this theory joins the codecs and the batch.

  \<^bold>\<open>Bounds and fuel.\<close> No definition has artificial fuel: loops over a collected list recurse
  on it, the multiplier search is a \<^verbatim>\<open>while_option\<close> whose termination is proved, and the
  bounded loops of the source keep the bound of the source.

  \<^bold>\<open>Not modelled.\<close> Sockets, netlink, packet rings, epoll reactors and N-API bindings
  (\<^verbatim>\<open>nodenetraw-native\<close>, \<^verbatim>\<open>nodenet-linux-context\<close>, \<^verbatim>\<open>socket.rs\<close>, \<^verbatim>\<open>runtime.rs\<close>, \<^verbatim>\<open>binding.rs\<close>) are
  system calls and foreign-function glue; the engine sees them through the environment
  record. The remaining protocol codecs, the discovery and observation sessions and the rest
  of the TypeScript API are not covered. Text produced only for error messages is left out.
\<close>

section \<open>Properties across components\<close>

text \<open>
  C5. One answer of a port-control server costs the consumer every row delivered with it:
  a schema 2 batch that contains a row with the record of an accepted PCP response is
  refused as a whole.
\<close>

theorem pcp_answer_spoils_batch:
  assumes "parse_udp_safe_response Pcp request response = Ok m"
    and "v \<in> set rows" "row_service v = Some s" "metadata s = match_metadata m"
    and "list_all row_typed rows" "length rows \<le> MAX_BATCH_RESULTS"
  shows "\<not> is_ok (ScanResultBatch_new (from_sealed (seal_result_batch rows (length rows) 2)))"
proof -
  have "validateServiceMetadataRecord (metadata s) \<noteq> Ok ()"
    using parses_Ok [OF parses_response assms(1)] assms(4) by simp
  then have "\<not> list_all (row_accepted 2) rows"
    using assms(2,3) by (auto simp: list_all_iff row_accepted_def service_ok_def intro!: bexI [of _ v])
  moreover have "rows \<noteq> []" using assms(2) by auto
  ultimately show ?thesis using accepted_sealed_iff [OF assms(5) _ assms(6), of 2] by (simp add: is_ok_iff)
qed

definition pcp_row :: ScanResult where
  "pcp_row = example_row\<lparr>udp := Some \<lparr>terminal_probe_id = Some 9, variants_attempted = 1, result_response_kind = DirectUdp,
     result_contradictions = 0, result_service = Some \<lparr>service_evidence_family = 9, confidence = Parsed,
       metadata = [1, 3, 0, 80, 67, 80, 2, 0, 118, 50, 2, 4, 0, 1, 0, 55, 1, 0, 1, 0, 48]\<rparr>\<rparr>\<rparr>"

theorem pcp_answer_spoils_batch_witness:
  "\<not> is_ok (ScanResultBatch_new (from_sealed (seal_result_batch [example_row, pcp_row] 2 2)))"
proof -
  have "row_typed example_row" using example_rows_ok(1) by (simp add: example_rows_def)
  moreover have "row_typed pcp_row" using calculation by (simp add: row_typed_def pcp_row_def max_of_def)
  ultimately show ?thesis
    using pcp_answer_spoils_batch [OF pcp_exchange, of pcp_row "[example_row, pcp_row]"]
    by (simp add: pcp_row_def row_service_def MAX_BATCH_RESULTS_def numeral_2_eq_2)
qed

end
